(* ===== verification/PimPrelude.thy ===== *)
theory PimPrelude
  imports Main "HOL-Library.Word"
begin

text \<open>
  Shared ground of the development: the machine integers of the C++ sources, C's truncating
  division, array reads and writes that can fail, and the generic lemmas on words and lists that
  the component theories use. The collections \<open>cint_simps\<close> and \<open>bits_simps\<close> gather the
  rewrite rules on conversions and on bit fields.
\<close>

unbundle bit_operations_syntax

named_theorems cint_simps
named_theorems bits_simps

section \<open>Machine integers\<close>

type_synonym u8 = "8 word"
type_synonym u16 = "16 word"
type_synonym u32 = "32 word"
type_synonym u64 = "64 word"

text \<open>
  A C \<open>int\<close> is an \<open>int\<close> in the range of 32 bits; \<open>i32\<close> is the conversion of an arbitrary
  integer to it (modular, as every supported compiler does).
\<close>

definition i32 :: "int \<Rightarrow> int" where
  "i32 x = (x + 2 ^ 31) mod 2 ^ 32 - 2 ^ 31"

definition i32_range :: "int \<Rightarrow> bool" where
  "i32_range x \<longleftrightarrow> - (2 ^ 31) \<le> x \<and> x < 2 ^ 31"

lemma i32_id [cint_simps]: "i32_range x \<Longrightarrow> i32 x = x"
  by (simp add: i32_def i32_range_def)

lemma i32_in_range [simp]: "i32_range (i32 x)"
  using pos_mod_bound [of "2 ^ 32" "x + 2 ^ 31"] pos_mod_sign [of "2 ^ 32" "x + 2 ^ 31"]
  by (simp add: i32_def i32_range_def)

text \<open>C's \<open>/\<close> and \<open>%\<close> on signed operands round towards zero; a zero divisor has no value.\<close>

definition cdiv :: "int \<Rightarrow> int \<Rightarrow> int" where
  "cdiv a b = sgn a * sgn b * (\<bar>a\<bar> div \<bar>b\<bar>)"

definition cmod :: "int \<Rightarrow> int \<Rightarrow> int" where
  "cmod a b = a - b * cdiv a b"

lemma cdiv_nonneg [cint_simps]: "0 \<le> a \<Longrightarrow> 0 < b \<Longrightarrow> cdiv a b = a div b"
  by (cases "a = 0") (simp_all add: cdiv_def sgn_if)

lemma cmod_nonneg [cint_simps]: "0 \<le> a \<Longrightarrow> 0 < b \<Longrightarrow> cmod a b = a mod b"
  by (simp add: cmod_def cdiv_nonneg minus_mult_div_eq_mod)

lemma unat_of_nat_u64: "n < 2 ^ 64 \<Longrightarrow> unat (of_nat n :: u64) = n"
  by (simp add: unat_of_nat take_bit_nat_eq_self)

lemma unat_of_nat_u32: "n < 2 ^ 32 \<Longrightarrow> unat (of_nat n :: u32) = n"
  by (simp add: unat_of_nat take_bit_nat_eq_self)

section \<open>Arrays\<close>

text \<open>
  An array is a list; an access out of range is \<open>None\<close>, since C++ gives it no meaning.
\<close>

definition arr_get :: "'a list \<Rightarrow> int \<Rightarrow> 'a option" where
  "arr_get xs i = (if 0 \<le> i \<and> i < int (length xs) then Some (xs ! nat i) else None)"

lemma arr_get_in [simp]: "0 \<le> i \<Longrightarrow> i < int (length xs) \<Longrightarrow> arr_get xs i = Some (xs ! nat i)"
  by (simp add: arr_get_def)

lemma arr_get_Some_iff:
  "arr_get xs i = Some v \<longleftrightarrow> 0 \<le> i \<and> i < int (length xs) \<and> xs ! nat i = v"
  by (auto simp: arr_get_def)

lemma arr_get_of_nat [simp]: "i < length xs \<Longrightarrow> arr_get xs (int i) = Some (xs ! i)"
  by (simp add: arr_get_def)

definition arr_set :: "'a list \<Rightarrow> int \<Rightarrow> 'a \<Rightarrow> 'a list option" where
  "arr_set xs i v = (if 0 \<le> i \<and> i < int (length xs) then Some (xs[nat i := v]) else None)"

lemma arr_set_in [simp]: "0 \<le> i \<Longrightarrow> i < int (length xs) \<Longrightarrow> arr_set xs i v = Some (xs[nat i := v])"
  by (simp add: arr_set_def)

lemma arr_set_out [simp]: "i < 0 \<or> int (length xs) \<le> i \<Longrightarrow> arr_set xs i v = None"
  by (auto simp: arr_set_def)

lemma arr_set_Some_iff:
  "arr_set xs i v = Some ys \<longleftrightarrow> 0 \<le> i \<and> i < int (length xs) \<and> ys = xs[nat i := v]"
  by (auto simp: arr_set_def)

section \<open>Mixed-radix indices\<close>

lemma radix_bound: "a < n \<Longrightarrow> b < m \<Longrightarrow> a * m + b < n * (m::nat)"
  by (metis add.commute add_strict_left_mono less_le_trans mult_Suc mult_le_mono1 Suc_leI)

lemma radix_inj: "a * m + b = a' * m + b' \<Longrightarrow> b < m \<Longrightarrow> b' < m \<Longrightarrow> a = a' \<and> b = (b'::nat)"
  by (metis div_mult_self3 add_right_cancel div_less less_nat_zero_code add.right_neutral add_left_imp_eq)

lemma map_upt_add: "map f [a..<a + n] = map (\<lambda>i. f (a + i)) [0..<n]"
  by (simp add: map_equality_iff)

text \<open>Two nested loops as one loop over a mixed-radix index.\<close>

lemma concat_map_flat:
  assumes "0 < (m::nat)"
  shows "concat (map (\<lambda>a. map (\<lambda>b. f a b) [0..<m]) [0..<n]) = map (\<lambda>i. f (i div m) (i mod m)) [0..<n * m]"
proof (induction n)
  case (Suc n)
  have "map (\<lambda>i. f (i div m) (i mod m)) [n * m..<n * m + m] = map (\<lambda>b. f n b) [0..<m]"
    unfolding map_upt_add using assms by simp
  moreover have "[0..<Suc n * m] = [0..<n * m] @ [n * m..<n * m + m]"
    using upt_add_eq_append [of 0 "n * m" m] by (simp add: add.commute)
  ultimately show ?case
    using Suc by simp
qed simp

section \<open>Copy loops\<close>

text \<open>
  A loop nest that moves elements from one array to another, as the sequence of its
  (destination, source) indices.
\<close>

fun copy_elems :: "'a list \<Rightarrow> (int \<times> int) list \<Rightarrow> 'a list \<Rightarrow> 'a list option" where
  "copy_elems inp [] out = Some out"
| "copy_elems inp ((d, s) # ps) out =
     Option.bind (arr_get inp s) (\<lambda>v. Option.bind (arr_set out d v) (copy_elems inp ps))"

lemma in_concat_map: "x \<in> set (concat (map f xs)) \<longleftrightarrow> (\<exists>a\<in>set xs. x \<in> set (f a))"
  by simp

lemma in_map_upt: "x \<in> set (map f [0..<n]) \<longleftrightarrow> (\<exists>i<n. x = f i)"
  by auto

lemma in_concat_upt: "x \<in> set (concat (map f [0..<n])) \<longleftrightarrow> (\<exists>i<n. x \<in> set (f i))"
  by auto

definition copy_in_range :: "(int \<times> int) list \<Rightarrow> nat \<Rightarrow> nat \<Rightarrow> bool" where
  "copy_in_range ps n m \<longleftrightarrow> (\<forall>(d, s)\<in>set ps. 0 \<le> d \<and> d < int n \<and> 0 \<le> s \<and> s < int m)"

lemma copy_elems_spec:
  assumes "copy_in_range ps (length out) (length inp)"
    and "single_valued (set ps)"
  shows "\<exists>out'. copy_elems inp ps out = Some out' \<and> length out' = length out
    \<and> (\<forall>(d, s)\<in>set ps. out' ! nat d = inp ! nat s)
    \<and> (\<forall>i<length out. int i \<notin> fst ` set ps \<longrightarrow> out' ! i = out ! i)"
  using assms
proof (induction ps arbitrary: out)
  case (Cons p ps)
  obtain d s where p: "p = (d, s)" by fastforce
  note prems = Cons.prems [unfolded p]
  let ?out = "out[nat d := inp ! nat s]"
  have rng: "0 \<le> d" "d < int (length out)" "0 \<le> s" "s < int (length inp)"
    using prems(1) by (auto simp: copy_in_range_def)
  have 1: "copy_in_range ps (length ?out) (length inp)"
    using prems(1) by (auto simp: copy_in_range_def)
  have 2: "single_valued (set ps)"
    using prems(2) by (auto intro: single_valued_subset)
  from Cons.IH [OF 1 2] obtain out' where o: "copy_elems inp ps ?out = Some out'" "length out' = length out"
    "\<forall>(d, s)\<in>set ps. out' ! nat d = inp ! nat s"
    "\<forall>i<length out. int i \<notin> fst ` set ps \<longrightarrow> out' ! i = ?out ! i"
    by auto
  have "out' ! nat d = inp ! nat s"
  proof (cases "d \<in> fst ` set ps")
    case True
    then obtain s' where "(d, s') \<in> set ps" by auto
    moreover from this have "s' = s" using prems(2) by (auto simp: single_valued_def)
    ultimately show ?thesis using o(3) by auto
  next
    case False
    moreover have "int (nat d) = d" using rng by simp
    ultimately show ?thesis using o(4) rng by (auto dest: spec [of _ "nat d"])
  qed
  then have all: "\<forall>(d', s')\<in>set ((d, s) # ps). out' ! nat d' = inp ! nat s'"
    using o(3) by simp
  have "\<forall>i<length out. int i \<notin> fst ` set ((d, s) # ps) \<longrightarrow> out' ! i = out ! i"
    using o(4) rng(1) by (auto simp: nth_list_update)
  moreover have "copy_elems inp ((d, s) # ps) out = Some out'"
    using o(1) rng by simp
  ultimately show ?case
    using o(2) all unfolding p by blast
qed simp

end
