(* ===== verification/PimTypes.thy ===== *)
theory PimTypes
  imports PimPrelude
begin

text \<open>
  The data types of \<open>runtime/include/pim_data_types.h\<close> and \<open>runtime/include/manager/PimInfo.h\<close>:
  the enumerations of the C API, buffer shapes, buffer objects and descriptors, and the device
  geometry \<open>PimBlockInfo\<close> with its only instance \<open>vega20_pbi\<close>. Pointers are addresses
  (\<open>nat\<close>, \<open>0\<close> for \<open>nullptr\<close>); the four extents of a shape are unsigned 32-bit words.
\<close>

section \<open>Enumerations\<close>

datatype PimRuntimeType = RT_TYPE_HIP | RT_TYPE_OPENCL

datatype PimMemType = MEM_TYPE_HOST | MEM_TYPE_DEVICE | MEM_TYPE_PIM

datatype PimMemFlag =
    ELT_OP | GEMV_INPUT | GEMV_WEIGHT | GEMV_OUTPUT
  | GEMM_INPUT | GEMM_WEIGHT | GEMM_BIAS | GEMM_OUTPUT

datatype PimMemCpyType =
    HOST_TO_HOST | HOST_TO_DEVICE | HOST_TO_PIM
  | DEVICE_TO_HOST | DEVICE_TO_DEVICE | DEVICE_TO_PIM
  | PIM_TO_HOST | PIM_TO_DEVICE | PIM_TO_PIM

datatype PimOpType =
    OP_GEMV | OP_GEMM | OP_ELT_ADD | OP_ELT_MUL | OP_RELU | OP_BN | OP_COPY | OP_DUMMY

datatype PimGemmOrder = W_X_I | I_X_W

datatype PimActFunc = NONE | ACT_RELU

datatype PimPrecision = PIM_FP16 | PIM_INT8

datatype PimDataLayoutType = RAW | CHWISE_GEMM_WEIGHT | ALIGNED_GEMM_WEIGHT

datatype PimGemvType = TILE_ACCUM | TILE_TREE | NEXT_PIM

datatype PimKrnlType = OPTIMAL | PIM | CUSTOM_GPU

section \<open>Shapes, buffer objects, descriptors\<close>

record PimBShape =
  sh_n :: u32
  sh_c :: u32
  sh_h :: u32
  sh_w :: u32

definition mk_shape :: "u32 \<Rightarrow> u32 \<Rightarrow> u32 \<Rightarrow> u32 \<Rightarrow> PimBShape" where
  "mk_shape n c h w = \<lparr>sh_n = n, sh_c = c, sh_h = h, sh_w = w\<rparr>"

type_synonym addr = nat

record PimBo =
  mem_type :: PimMemType
  data_layout_type :: PimDataLayoutType
  bshape :: PimBShape
  bshape_r :: PimBShape
  precision :: PimPrecision
  bo_size :: nat
  bo_size_r :: nat
  bo_data :: addr
  use_user_ptr :: bool
  transposed :: bool

record PimGemmDesc =
  in_bshape :: PimBShape
  in_bshape_r :: PimBShape
  wei_bshape :: PimBShape
  wei_bshape_r :: PimBShape
  bias_bshape :: PimBShape
  bias_bshape_r :: PimBShape
  out_bshape :: PimBShape
  out_bshape_r :: PimBShape
  gd_precision :: PimPrecision
  gemm_order :: PimGemmOrder

record PimDesc =
  pd_bshape :: PimBShape
  pd_bshape_r :: PimBShape
  pd_precision :: PimPrecision
  pd_op_type :: PimOpType

section \<open>Device geometry\<close>

definition DIM_OUT_PIM :: int where "DIM_OUT_PIM = 3200"
definition PIM_GEMV_IN_ALIGN :: int where "PIM_GEMV_IN_ALIGN = 256"
definition PIM_GEMV_OUT_ALIGN :: int where "PIM_GEMV_OUT_ALIGN = 4096"
definition PIM_ELTWISE_ALIGN :: int where "PIM_ELTWISE_ALIGN = 256 * 1024"

lemmas align_consts = DIM_OUT_PIM_def PIM_GEMV_IN_ALIGN_def PIM_GEMV_OUT_ALIGN_def PIM_ELTWISE_ALIGN_def

record PimBlockInfo =
  num_banks :: int
  num_bank_groups :: int
  num_rank_bit :: nat
  num_row_bit :: nat
  num_col_high_bit :: nat
  num_bank_high_bit :: nat
  num_bankgroup_bit :: nat
  num_bank_low_bit :: nat
  num_chan_bit :: nat
  num_col_low_bit :: nat
  num_offset_bit :: nat
  num_grf :: int
  num_grf_A :: int
  num_grf_B :: int
  num_srf :: int
  num_col :: int
  num_row :: int
  bl :: int
  num_pim_blocks :: int
  num_pim_rank :: int
  num_pim_chan :: int
  trans_size :: int
  num_out_per_grf :: int

definition vega20_pbi :: PimBlockInfo where
  "vega20_pbi = \<lparr>
     num_banks = 16, num_bank_groups = 4, num_rank_bit = 1, num_row_bit = 14,
     num_col_high_bit = 3, num_bank_high_bit = 1, num_bankgroup_bit = 2, num_bank_low_bit = 1,
     num_chan_bit = 6, num_col_low_bit = 2, num_offset_bit = 5,
     num_grf = 8, num_grf_A = 8, num_grf_B = 8, num_srf = 4,
     num_col = 128, num_row = 16384, bl = 4,
     num_pim_blocks = 8, num_pim_rank = 1, num_pim_chan = 64,
     trans_size = 32, num_out_per_grf = 16\<rparr>"

lemma vega20_simps [simp]:
  "num_banks vega20_pbi = 16" "num_bank_groups vega20_pbi = 4"
  "num_rank_bit vega20_pbi = 1" "num_row_bit vega20_pbi = 14"
  "num_col_high_bit vega20_pbi = 3" "num_bank_high_bit vega20_pbi = 1"
  "num_bankgroup_bit vega20_pbi = 2" "num_bank_low_bit vega20_pbi = 1"
  "num_chan_bit vega20_pbi = 6" "num_col_low_bit vega20_pbi = 2"
  "num_offset_bit vega20_pbi = 5"
  "num_grf vega20_pbi = 8" "num_grf_A vega20_pbi = 8" "num_grf_B vega20_pbi = 8"
  "num_srf vega20_pbi = 4" "num_col vega20_pbi = 128" "num_row vega20_pbi = 16384"
  "bl vega20_pbi = 4" "num_pim_blocks vega20_pbi = 8" "num_pim_rank vega20_pbi = 1"
  "num_pim_chan vega20_pbi = 64" "trans_size vega20_pbi = 32" "num_out_per_grf vega20_pbi = 16"
  by (simp_all add: vega20_pbi_def)

end
