(* ===== verification/AddrMap.thy ===== *)
theory AddrMap
  imports PimTypes
begin

text \<open>
  The DRAM address map of \<open>runtime/include/utility/pim_util.h\<close>: \<open>addr_gen\<close> packs a channel, rank,
  bank group, bank, row and column into a physical address and \<open>addr_gen_safe\<close> first carries an
  overflowing column into the row. The decoder \<open>addressMapping\<close> of
  \<open>runtime/include/utility/pim_debug.hpp\<close> is modelled beside it.
\<close>

section \<open>Address generation\<close>

definition mask_by_bit :: "u32 \<Rightarrow> nat \<Rightarrow> nat \<Rightarrow> u32" where
  "mask_by_bit value start lo = drop_bit lo value AND (push_bit (start - lo + 1) 1 - 1)"

definition addr_gen :: "u32 \<Rightarrow> u32 \<Rightarrow> u32 \<Rightarrow> u32 \<Rightarrow> u32 \<Rightarrow> u32 \<Rightarrow> u64" where
  "addr_gen chan rank bankgroup bank row col =
    (let pbi = vega20_pbi;
         addr = ucast rank;
         addr = push_bit (num_row_bit pbi) addr OR ucast row;
         addr = push_bit (num_col_high_bit pbi) addr OR ucast (mask_by_bit col 4 2);
         addr = push_bit (num_bank_high_bit pbi) addr OR ucast (mask_by_bit bank 1 1);
         addr = push_bit (num_bankgroup_bit pbi) addr OR ucast bankgroup;
         addr = push_bit (num_bank_low_bit pbi) addr OR ucast (mask_by_bit bank 0 0);
         addr = push_bit (num_chan_bit pbi - 1) addr OR ucast (mask_by_bit chan (num_chan_bit pbi - 1) 1);
         addr = push_bit 1 addr OR ucast (mask_by_bit col 1 1);
         addr = push_bit 1 addr OR ucast (mask_by_bit chan 0 0);
         addr = push_bit 1 addr OR ucast (mask_by_bit col 0 0)
     in push_bit (num_offset_bit pbi) addr)"

text \<open>The build for a 16-GB board (\<open>TARGET && RADEON7\<close>) keeps the low 33 bits only.\<close>

definition addr_gen_radeon7 :: "u32 \<Rightarrow> u32 \<Rightarrow> u32 \<Rightarrow> u32 \<Rightarrow> u32 \<Rightarrow> u32 \<Rightarrow> u64" where
  "addr_gen_radeon7 chan rank bankgroup bank row col =
     addr_gen chan rank bankgroup bank row col AND 0x1FFFFFFFF"

text \<open>\<open>row\<close> and \<open>col\<close> are references: the carried values are returned with the address.\<close>

function col_carry :: "u32 \<Rightarrow> u32 \<Rightarrow> u32 \<times> u32" where
  "col_carry row col =
    (if word_of_int (cdiv (num_col vega20_pbi) (bl vega20_pbi)) \<le> col
     then col_carry (row + 1) (col - word_of_int (cdiv (num_col vega20_pbi) (bl vega20_pbi)))
     else (row, col))"
  by pat_completeness auto

lemma cols_per_row: "(word_of_int (cdiv (num_col vega20_pbi) (bl vega20_pbi)) :: u32) = 32"
  by (simp add: cdiv_def)

termination col_carry
proof (relation "measure (\<lambda>(row, col). unat col)")
  fix row col :: u32
  assume "word_of_int (cdiv (num_col vega20_pbi) (bl vega20_pbi)) \<le> col"
  then have "32 \<le> col" unfolding cols_per_row .
  then have "unat (col - 32) < unat col"
    by (simp add: word_le_nat_alt unat_sub)
  then show "((row + 1, col - word_of_int (cdiv (num_col vega20_pbi) (bl vega20_pbi))), row, col)
      \<in> measure (\<lambda>(row, col). unat col)" unfolding cols_per_row by simp
qed simp

declare col_carry.simps [simp del]

definition addr_gen_safe :: "u32 \<Rightarrow> u32 \<Rightarrow> u32 \<Rightarrow> u32 \<Rightarrow> u32 \<Rightarrow> u32 \<Rightarrow> u64 \<times> u32 \<times> u32" where
  "addr_gen_safe chan rank bg bank row col =
    (let (row', col') = col_carry row col
     in (addr_gen chan rank bg bank row' col', row', col'))"

section \<open>The debug decoder\<close>

text \<open>One step reads the low \<open>w\<close> bits (\<open>tempA ^ tempB\<close>) and shifts them out.\<close>

definition take_low :: "nat \<Rightarrow> u64 \<Rightarrow> u64 \<times> u64" where
  "take_low w a = (a XOR push_bit w (drop_bit w a), drop_bit w a)"

record DramCoord =
  co_chan :: u32
  co_rank :: u32
  co_bank :: u32
  co_row :: u32
  co_col :: u32

definition addressMapping :: "u64 \<Rightarrow> DramCoord" where
  "addressMapping physicalAddress =
    (let channelBitWidth = 6; rankBitWidth = 1; bankBitWidth = 2; bankgroupBitWidth = 2;
         rowBitWidth = 14; colBitWidth = 5; byteOffsetWidth = 5; colLowBitWidth = 2;
         colHighBitWidth = colBitWidth - colLowBitWidth;
         col_low_width = 2;
         ba_low_width = (bankBitWidth - bankgroupBitWidth) div 2;
         col_high_width = colHighBitWidth - col_low_width;
         ba_high_width = (bankBitWidth - bankgroupBitWidth) - ba_low_width;
         pa = drop_bit colLowBitWidth (drop_bit byteOffsetWidth physicalAddress);
         (c0, pa) = take_low 1 pa;
         (ch0, pa) = take_low 1 pa;
         (c1, pa) = take_low (col_low_width - 1) pa;
         (ch1, pa) = take_low (channelBitWidth - 1) pa;
         (b0, pa) = take_low ba_low_width pa;
         (bg, pa) = take_low bankgroupBitWidth pa;
         (b1, pa) = take_low ba_high_width pa;
         (c2, pa) = take_low col_high_width pa;
         (r, pa) = take_low rowBitWidth pa;
         (ra, pa) = take_low rankBitWidth pa;
         col = ucast c0;
         col = col OR ucast (push_bit 1 c1);
         chan = ucast ch0;
         chan = chan OR ucast (push_bit 1 ch1);
         bank = ucast b0;
         bank = bank OR ucast (push_bit (bankBitWidth - bankgroupBitWidth) bg);
         bank = bank OR ucast (push_bit ba_low_width b1);
         col = col OR ucast (push_bit col_low_width c2)
     in \<lparr>co_chan = chan, co_rank = ucast ra, co_bank = bank, co_row = ucast r, co_col = col\<rparr>)"

section \<open>The layout of an address\<close>

lemma mask_by_bit_eq: "mask_by_bit v s e = take_bit (s - e + 1) (drop_bit e v)"
proof -
  have "push_bit n (1 :: u32) - 1 = mask n" for n by (simp add: mask_eq_decr_exp push_bit_eq_mult)
  then show ?thesis by (simp only: mask_by_bit_def take_bit_eq_mask)
qed

text \<open>Reading the fields back, each at its own position.\<close>

definition coord_of :: "u64 \<Rightarrow> u32 \<times> u32 \<times> u32 \<times> u32 \<times> u32 \<times> u32" where
  "coord_of a =
    (ucast (take_bit 1 (drop_bit 6 a)) OR push_bit 1 (ucast (take_bit 5 (drop_bit 8 a))),
     ucast (drop_bit 34 a),
     ucast (take_bit 2 (drop_bit 14 a)),
     ucast (take_bit 1 (drop_bit 13 a)) OR push_bit 1 (ucast (take_bit 1 (drop_bit 16 a))),
     ucast (take_bit 14 (drop_bit 20 a)),
     (ucast (take_bit 1 (drop_bit 5 a)) OR push_bit 1 (ucast (take_bit 1 (drop_bit 7 a))))
       OR push_bit 2 (ucast (take_bit 3 (drop_bit 17 a))))"

definition coord_ok :: "u32 \<times> u32 \<times> u32 \<times> u32 \<times> u32 \<times> u32 \<Rightarrow> bool" where
  "coord_ok = (\<lambda>(chan, rank, bg, bank, row, col).
     chan < 64 \<and> rank < 2 \<and> bg < 4 \<and> bank < 4 \<and> row < 2 ^ 14 \<and> col < 32)"

lemma bit_lt: "bit w n \<Longrightarrow> (w :: u32) < 2 ^ k \<Longrightarrow> n < k"
proof -
  assume b: "bit w n" and "w < 2 ^ k"
  then have "take_bit k w = w" by (simp add: less_mask_eq take_bit_eq_mask)
  with b have "bit (take_bit k w) n" by simp
  then show "n < k" by (simp add: bit_take_bit_iff)
qed

lemma masks [bits_simps]:
  "mask_by_bit v 4 2 = take_bit 3 (drop_bit 2 v)" "mask_by_bit v 1 1 = take_bit 1 (drop_bit 1 v)"
  "mask_by_bit v 0 0 = take_bit 1 v" "mask_by_bit v 5 1 = take_bit 5 (drop_bit 1 v)"
  by (simp_all add: mask_by_bit_eq)

lemma addr_gen_layout:
  "addr_gen chan rank bg bank row col =
     push_bit 34 (ucast rank) OR push_bit 20 (ucast row) OR push_bit 17 (ucast (take_bit 3 (drop_bit 2 col)))
     OR push_bit 16 (ucast (take_bit 1 (drop_bit 1 bank))) OR push_bit 14 (ucast bg)
     OR push_bit 13 (ucast (take_bit 1 bank)) OR push_bit 8 (ucast (take_bit 5 (drop_bit 1 chan)))
     OR push_bit 7 (ucast (take_bit 1 (drop_bit 1 col))) OR push_bit 6 (ucast (take_bit 1 chan))
     OR push_bit 5 (ucast (take_bit 1 col))"
proof -
  have n: "6 - 1 = (5 :: nat)" by simp
  show ?thesis unfolding addr_gen_def Let_def vega20_simps n masks push_bit_or push_bit_push_bit
    by (simp only: arith_simps one_add_one numeral_plus_one one_plus_numeral add_num_simps or.assoc)
qed

text \<open>\<open>fbit w k l d n\<close>: bit \<open>n\<close> of the field of \<open>l\<close> bits of \<open>w\<close> from \<open>d\<close> on, placed at \<open>k\<close>.\<close>

definition fbit :: "u32 \<Rightarrow> nat \<Rightarrow> nat \<Rightarrow> nat \<Rightarrow> nat \<Rightarrow> bool" where
  "fbit w k l d n \<longleftrightarrow> k \<le> n \<and> n < k + l \<and> n < 64 \<and> bit w (n - k + d)"

lemma bit_field:
  "bit (push_bit k (ucast (take_bit l (drop_bit d (w :: u32)))) :: u64) n \<longleftrightarrow> fbit w k l d n"
  by (auto simp: fbit_def bit_simps add.commute dest: bit_imp_le_length)

lemma bit_field_full: "bit (push_bit k (ucast (w :: u32)) :: u64) n \<longleftrightarrow> fbit w k 32 0 n"
  by (auto simp: fbit_def bit_simps dest: bit_imp_le_length)

lemma bit_field_low: "bit (push_bit k (ucast (take_bit l (w :: u32))) :: u64) n \<longleftrightarrow> fbit w k l 0 n"
  using bit_field [of k l 0 w n] by simp

lemma bit_addr_gen:
  "bit (addr_gen chan rank bg bank row col) n \<longleftrightarrow>
     fbit rank 34 32 0 n \<or> fbit row 20 32 0 n \<or> fbit col 17 3 2 n \<or> fbit bank 16 1 1 n
     \<or> fbit bg 14 32 0 n \<or> fbit bank 13 1 0 n \<or> fbit chan 8 5 1 n \<or> fbit col 7 1 1 n
     \<or> fbit chan 6 1 0 n \<or> fbit col 5 1 0 n"
  unfolding addr_gen_layout bit_or_iff
  unfolding bit_field unfolding bit_field_low unfolding bit_field_full by blast

lemma fbit_narrow: "w < 2 ^ l \<Longrightarrow> l \<le> 32 \<Longrightarrow> fbit w k 32 0 n \<longleftrightarrow> fbit w k l 0 n"
  by (auto simp: fbit_def dest: bit_lt)

lemma bit_addr_gen_ok:
  assumes "coord_ok (chan, rank, bg, bank, row, col)"
  shows "bit (addr_gen chan rank bg bank row col) n \<longleftrightarrow>
     fbit rank 34 1 0 n \<or> fbit row 20 14 0 n \<or> fbit col 17 3 2 n \<or> fbit bank 16 1 1 n
     \<or> fbit bg 14 2 0 n \<or> fbit bank 13 1 0 n \<or> fbit chan 8 5 1 n \<or> fbit col 7 1 1 n
     \<or> fbit chan 6 1 0 n \<or> fbit col 5 1 0 n"
proof -
  have "rank < 2 ^ 1" "row < 2 ^ 14" "bg < 2 ^ 2" using assms by (simp_all add: coord_ok_def)
  then have "fbit rank 34 32 0 n = fbit rank 34 1 0 n" "fbit row 20 32 0 n = fbit row 20 14 0 n"
    "fbit bg 14 32 0 n = fbit bg 14 2 0 n"
    by (intro fbit_narrow; simp)+
  then show ?thesis by (simp only: bit_addr_gen)
qed

lemma fbit_out: "n < k \<Longrightarrow> \<not> fbit w k l d n" "k + l \<le> n \<Longrightarrow> \<not> fbit w k l d n"
  by (simp_all add: fbit_def)

lemma fbit_in: "k \<le> n \<Longrightarrow> n < k + l \<Longrightarrow> n < 64 \<Longrightarrow> fbit w k l d n \<longleftrightarrow> bit w (n - k + d)"
  by (simp add: fbit_def)

lemma coord_of_fields:
  "bit (ucast (take_bit l (drop_bit k (a :: u64))) :: u32) n \<longleftrightarrow> n < 32 \<and> n < l \<and> bit a (k + n)"
  by (auto simp: bit_simps)

lemma coord_bits:
  assumes "coord_ok (chan, rank, bg, bank, row, col)"
  shows "bit row n \<Longrightarrow> n < 14" "bit rank n \<Longrightarrow> n < 1" "bit bg n \<Longrightarrow> n < 2" "bit bank n \<Longrightarrow> n < 2"
    "bit chan n \<Longrightarrow> n < 6" "bit col n \<Longrightarrow> n < 5"
  using assms bit_lt [of row n 14] bit_lt [of rank n 1] bit_lt [of bg n 2] bit_lt [of bank n 2]
    bit_lt [of chan n 6] bit_lt [of col n 5]
  by (simp_all add: coord_ok_def)

lemmas read_field = coord_of_fields fbit_in fbit_out

lemma bit_join: "bit (a OR push_bit k (b :: u32)) n \<longleftrightarrow> bit a n \<or> k \<le> n \<and> n < 32 \<and> bit b (n - k)"
  by (auto simp: bit_simps)

lemma coord_of_addr_gen_simple:
  assumes "coord_ok (chan, rank, bg, bank, row, col)"
  defines "a \<equiv> addr_gen chan rank bg bank row col"
  shows "ucast (take_bit 14 (drop_bit 20 a)) = row" "ucast (take_bit 2 (drop_bit 14 a)) = bg"
    "ucast (drop_bit 34 a) = rank"
proof -
  note b = coord_bits [OF assms(1)] and a = bit_addr_gen_ok [OF assms(1), folded a_def]
  show "ucast (take_bit 14 (drop_bit 20 a)) = row"
  proof (rule bit_word_eqI)
    fix n show "bit (ucast (take_bit 14 (drop_bit 20 a)) :: u32) n \<longleftrightarrow> bit row n"
      using b(1) [of n] by (cases "n < 14") (auto simp: a read_field)
  qed
  show "ucast (take_bit 2 (drop_bit 14 a)) = bg"
  proof (rule bit_word_eqI)
    fix n show "bit (ucast (take_bit 2 (drop_bit 14 a)) :: u32) n \<longleftrightarrow> bit bg n"
      using b(3) [of n] by (cases "n < 2") (auto simp: a read_field)
  qed
  show "ucast (drop_bit 34 a) = rank"
  proof (rule bit_word_eqI)
    fix n show "bit (ucast (drop_bit 34 a) :: u32) n \<longleftrightarrow> bit rank n"
      using b(2) [of n] by (cases "n < 1") (auto simp: bit_unsigned_iff bit_drop_bit_eq a read_field)
  qed
qed

lemma coord_of_addr_gen_split:
  assumes "coord_ok (chan, rank, bg, bank, row, col)"
  defines "a \<equiv> addr_gen chan rank bg bank row col"
  shows "ucast (take_bit 1 (drop_bit 6 a)) OR push_bit 1 (ucast (take_bit 5 (drop_bit 8 a))) = chan"
    "ucast (take_bit 1 (drop_bit 13 a)) OR push_bit 1 (ucast (take_bit 1 (drop_bit 16 a))) = bank"
    "(ucast (take_bit 1 (drop_bit 5 a)) OR push_bit 1 (ucast (take_bit 1 (drop_bit 7 a))))
       OR push_bit 2 (ucast (take_bit 3 (drop_bit 17 a))) = col"
proof -
  note b = coord_bits [OF assms(1)] and a = bit_addr_gen_ok [OF assms(1), folded a_def]
  show "ucast (take_bit 1 (drop_bit 6 a)) OR push_bit 1 (ucast (take_bit 5 (drop_bit 8 a))) = chan"
  proof (rule bit_word_eqI)
    fix n :: nat
    consider "n = 0" | "1 \<le> n" "n < 6" | "6 \<le> n" by linarith
    then show "bit (ucast (take_bit 1 (drop_bit 6 a)) OR push_bit 1 (ucast (take_bit 5 (drop_bit 8 a))) :: u32) n
        \<longleftrightarrow> bit chan n"
      unfolding bit_join coord_of_fields using b(5) [of n] by cases (auto simp: a read_field)
  qed
  show "ucast (take_bit 1 (drop_bit 13 a)) OR push_bit 1 (ucast (take_bit 1 (drop_bit 16 a))) = bank"
  proof (rule bit_word_eqI)
    fix n :: nat
    consider "n = 0" | "n = 1" | "2 \<le> n" by linarith
    then show "bit (ucast (take_bit 1 (drop_bit 13 a)) OR push_bit 1 (ucast (take_bit 1 (drop_bit 16 a))) :: u32) n
        \<longleftrightarrow> bit bank n"
      unfolding bit_join coord_of_fields using b(4) [of n] by cases (auto simp: a read_field)
  qed
  show "(ucast (take_bit 1 (drop_bit 5 a)) OR push_bit 1 (ucast (take_bit 1 (drop_bit 7 a))))
      OR push_bit 2 (ucast (take_bit 3 (drop_bit 17 a))) = col"
  proof (rule bit_word_eqI)
    fix n :: nat
    have s: "Suc (Suc (n - 2)) = n" if "2 \<le> n" using that by simp
    consider "n = 0" | "n = 1" | "2 \<le> n" "n < 5" | "5 \<le> n" by linarith
    then show "bit ((ucast (take_bit 1 (drop_bit 5 a)) OR push_bit 1 (ucast (take_bit 1 (drop_bit 7 a))))
        OR push_bit 2 (ucast (take_bit 3 (drop_bit 17 a))) :: u32) n \<longleftrightarrow> bit col n"
      unfolding bit_join coord_of_fields using b(6) [of n] s by cases (auto simp: a read_field)
  qed
qed

section \<open>Properties\<close>

lemma coord_of_addr:
  assumes "coord_ok (chan, rank, bg, bank, row, col)"
  shows "coord_of (addr_gen chan rank bg bank row col) = (chan, rank, bg, bank, row, col)"
  unfolding coord_of_def coord_of_addr_gen_simple [OF assms] coord_of_addr_gen_split [OF assms] ..

text \<open>C33: Address generation loses nothing: every in-range channel, rank, bank group, bank, row and
  column can be read back from the address.\<close>

theorem coord_of_addr_gen:
  assumes "coord_ok (chan, rank, bg, bank, row, col)"
  shows "coord_of (addr_gen chan rank bg bank row col) = (chan, rank, bg, bank, row, col)"
  using assms by (rule coord_of_addr)

lemma coord_of_addr_gen_witness: "coord_of (addr_gen 63 1 3 2 16383 21) = (63, 1, 3, 2, 16383, 21)"
  by (rule coord_of_addr_gen) (simp add: coord_ok_def)

lemma addr_gen_aligned: "take_bit 5 (addr_gen chan rank bg bank row col) = 0"
  by (rule bit_word_eqI) (auto simp: bit_take_bit_iff bit_addr_gen fbit_def)

lemma addr_gen_row:
  assumes "coord_ok (chan, 0, bg, bank, row, col)"
  shows "drop_bit 20 (addr_gen chan 0 bg bank row col) = ucast row"
proof (rule bit_word_eqI)
  fix n :: nat
  note b = coord_bits [OF assms] and a = bit_addr_gen_ok [OF assms]
  show "bit (drop_bit 20 (addr_gen chan 0 bg bank row col)) n \<longleftrightarrow> bit (ucast row :: u64) n"
    using b(1) [of n] by (auto simp: bit_drop_bit_eq a fbit_def bit_unsigned_iff)
qed

text \<open>An address of rank 0 lies in the megabyte of its row, and the 32 bytes it names too.\<close>

lemma addr_gen_in_row:
  assumes "coord_ok (chan, 0, bg, bank, row, col)"
  shows "unat (addr_gen chan 0 bg bank row col) + 32 \<le> 2 ^ 20 * (unat row + 1)"
    and "32 dvd unat (addr_gen chan 0 bg bank row col)"
proof -
  let ?a = "addr_gen chan 0 bg bank row col"
  have "unat row < 2 ^ 64"
    using less_trans [OF unsigned_less [of row], of "2 ^ 64"] by simp
  then have "unat (drop_bit 20 ?a) = unat row"
    unfolding addr_gen_row [OF assms] by (simp add: unsigned_ucast_eq take_bit_nat_eq_self)
  then have d: "unat ?a div 2 ^ 20 = unat row"
    by (simp add: drop_bit_eq_div unat_div_distrib)
  have "unat (take_bit 5 ?a) = 0"
    by (simp add: addr_gen_aligned)
  then have "unat ?a mod 2 ^ 5 = 0"
    by (simp add: take_bit_eq_mod unat_mod_distrib)
  then show al: "32 dvd unat ?a" by (simp add: dvd_eq_mod_eq_0)
  then obtain q where q: "unat ?a = 32 * q" by blast
  have "unat ?a < 2 ^ 20 * (unat row + 1)"
    using d dividend_less_div_times [of "2 ^ 20" "unat ?a"] by simp
  then have "q < 2 ^ 15 * (unat row + 1)" unfolding q by simp
  then show "unat ?a + 32 \<le> 2 ^ 20 * (unat row + 1)" unfolding q by simp
qed

section \<open>An address as a sum\<close>

lemma field_value:
  assumes "\<And>n. n < l \<Longrightarrow> bit (a :: u64) (k + n) \<longleftrightarrow> bit (w :: u32) (n + d)"
  shows "unat a div 2 ^ k mod 2 ^ l = unat w div 2 ^ d mod 2 ^ l"
proof -
  have "take_bit l (drop_bit k (unat a)) = take_bit l (drop_bit d (unat w))"
  proof (rule bit_eqI)
    fix n
    show "bit (take_bit l (drop_bit k (unat a))) n \<longleftrightarrow> bit (take_bit l (drop_bit d (unat w))) n"
      using assms [of n] by (auto simp: bit_take_bit_iff bit_drop_bit_eq bit_unsigned_iff add.commute dest: bit_imp_le_length)
  qed
  then show ?thesis by (simp add: take_bit_eq_mod drop_bit_eq_div)
qed

lemma div_step: "(n :: nat) div 2 ^ k = n div 2 ^ (k + l) * 2 ^ l + n div 2 ^ k mod 2 ^ l"
  unfolding power_add div_mult2_eq by (rule div_mult_mod_eq [symmetric])

lemma radix_sum:
  assumes "(n :: nat) div 2 ^ 20 = r" "n div 2 ^ 17 mod 2 ^ 3 = c" "n div 2 ^ 16 mod 2 ^ 1 = b" "n div 2 ^ 14 mod 2 ^ 2 = g"
    "n div 2 ^ 13 mod 2 ^ 1 = b'" "n div 2 ^ 8 mod 2 ^ 5 = h" "n div 2 ^ 7 mod 2 ^ 1 = c'" "n div 2 ^ 6 mod 2 ^ 1 = h'"
    "n div 2 ^ 5 mod 2 ^ 1 = c''" "n mod 2 ^ 5 = 0"
  shows "n = r * 2 ^ 20 + c * 2 ^ 17 + b * 2 ^ 16 + g * 2 ^ 14 + b' * 2 ^ 13 + h * 2 ^ 8 + c' * 2 ^ 7 + h' * 2 ^ 6 + c'' * 2 ^ 5"
proof -
  have s: "17 + 3 = (20 :: nat)" "16 + 1 = (17 :: nat)" "14 + 2 = (16 :: nat)" "13 + 1 = (14 :: nat)" "8 + 5 = (13 :: nat)"
    "7 + 1 = (8 :: nat)" "6 + 1 = (7 :: nat)" "5 + 1 = (6 :: nat)" by simp_all
  have "n div 2 ^ 17 = r * 2 ^ 3 + c" using div_step [of n 17 3] assms(1,2) by (simp only: s)
  moreover have "n div 2 ^ 16 = n div 2 ^ 17 * 2 ^ 1 + b" using div_step [of n 16 1] assms(3) by (simp only: s)
  moreover have "n div 2 ^ 14 = n div 2 ^ 16 * 2 ^ 2 + g" using div_step [of n 14 2] assms(4) by (simp only: s)
  moreover have "n div 2 ^ 13 = n div 2 ^ 14 * 2 ^ 1 + b'" using div_step [of n 13 1] assms(5) by (simp only: s)
  moreover have "n div 2 ^ 8 = n div 2 ^ 13 * 2 ^ 5 + h" using div_step [of n 8 5] assms(6) by (simp only: s)
  moreover have "n div 2 ^ 7 = n div 2 ^ 8 * 2 ^ 1 + c'" using div_step [of n 7 1] assms(7) by (simp only: s)
  moreover have "n div 2 ^ 6 = n div 2 ^ 7 * 2 ^ 1 + h'" using div_step [of n 6 1] assms(8) by (simp only: s)
  moreover have "n div 2 ^ 5 = n div 2 ^ 6 * 2 ^ 1 + c''" using div_step [of n 5 1] assms(9) by (simp only: s)
  moreover have "n = n div 2 ^ 5 * 2 ^ 5" using div_mult_mod_eq [of n "2 ^ 5"] unfolding assms(10) by (simp only: add_0_right)
  moreover obtain q17 q16 q14 q13 q8 q7 q6 q5 where "n div 2 ^ 17 = q17" "n div 2 ^ 16 = q16" "n div 2 ^ 14 = q14" "n div 2 ^ 13 = q13"
    "n div 2 ^ 8 = q8" "n div 2 ^ 7 = q7" "n div 2 ^ 6 = q6" "n div 2 ^ 5 = q5" by blast
  ultimately have "q17 = r * 2 ^ 3 + c" "q16 = q17 * 2 ^ 1 + b" "q14 = q16 * 2 ^ 2 + g" "q13 = q14 * 2 ^ 1 + b'" "q8 = q13 * 2 ^ 5 + h"
    "q7 = q8 * 2 ^ 1 + c'" "q6 = q7 * 2 ^ 1 + h'" "q5 = q6 * 2 ^ 1 + c''" "n = q5 * 2 ^ 5" by (simp_all only:)
  then show ?thesis by simp
qed

lemma unat_addr_gen:
  assumes "coord_ok (chan, 0, bg, bank, row, col)"
  shows "unat (addr_gen chan 0 bg bank row col) = unat row * 2 ^ 20 + unat col div 4 * 2 ^ 17 + unat bank div 2 * 2 ^ 16
    + unat bg * 2 ^ 14 + unat bank mod 2 * 2 ^ 13 + unat chan div 2 * 2 ^ 8 + unat col div 2 mod 2 * 2 ^ 7
    + unat chan mod 2 * 2 ^ 6 + unat col mod 2 * 2 ^ 5"
proof (rule radix_sum)
  let ?a = "addr_gen chan 0 bg bank row col" and ?n = "unat (addr_gen chan 0 bg bank row col)"
  note a = bit_addr_gen_ok [OF assms]
  have "unat row < 2 ^ 64" using less_trans [OF unsigned_less [of row], of "2 ^ 64"] by simp
  then have "unat (drop_bit 20 ?a) = unat row"
    unfolding addr_gen_row [OF assms] by (simp add: unsigned_ucast_eq take_bit_nat_eq_self)
  then show "?n div 2 ^ 20 = unat row" by (simp add: drop_bit_eq_div unat_div_distrib)
  have "unat (take_bit 5 ?a) = 0" by (simp add: addr_gen_aligned)
  then show "?n mod 2 ^ 5 = 0" by (simp add: take_bit_eq_mod unat_mod_distrib)
  have f: "?n div 2 ^ 17 mod 2 ^ 3 = unat col div 2 ^ 2 mod 2 ^ 3" "?n div 2 ^ 16 mod 2 ^ 1 = unat bank div 2 ^ 1 mod 2 ^ 1"
    "?n div 2 ^ 14 mod 2 ^ 2 = unat bg div 2 ^ 0 mod 2 ^ 2" "?n div 2 ^ 13 mod 2 ^ 1 = unat bank div 2 ^ 0 mod 2 ^ 1"
    "?n div 2 ^ 8 mod 2 ^ 5 = unat chan div 2 ^ 1 mod 2 ^ 5" "?n div 2 ^ 7 mod 2 ^ 1 = unat col div 2 ^ 1 mod 2 ^ 1"
    "?n div 2 ^ 6 mod 2 ^ 1 = unat chan div 2 ^ 0 mod 2 ^ 1" "?n div 2 ^ 5 mod 2 ^ 1 = unat col div 2 ^ 0 mod 2 ^ 1"
    by (rule field_value; simp add: a fbit_in fbit_out)+
  have b: "unat col < 32" "unat bank < 4" "unat bg < 4" "unat chan < 64"
    using assms by (simp_all add: coord_ok_def word_less_nat_alt)
  then have m: "unat col div 2 ^ 2 mod 2 ^ 3 = unat col div 4" "unat bank div 2 ^ 1 mod 2 ^ 1 = unat bank div 2"
    "unat bg div 2 ^ 0 mod 2 ^ 2 = unat bg" "unat chan div 2 ^ 1 mod 2 ^ 5 = unat chan div 2" by simp_all
  have z: "x div 2 ^ 0 mod 2 ^ 1 = x mod 2" "x div 2 ^ 1 mod 2 ^ 1 = x div 2 mod 2" for x :: nat by simp_all
  show "?n div 2 ^ 17 mod 2 ^ 3 = unat col div 4" "?n div 2 ^ 16 mod 2 ^ 1 = unat bank div 2"
    "?n div 2 ^ 14 mod 2 ^ 2 = unat bg" "?n div 2 ^ 13 mod 2 ^ 1 = unat bank mod 2" "?n div 2 ^ 8 mod 2 ^ 5 = unat chan div 2"
    "?n div 2 ^ 7 mod 2 ^ 1 = unat col div 2 mod 2" "?n div 2 ^ 6 mod 2 ^ 1 = unat chan mod 2" "?n div 2 ^ 5 mod 2 ^ 1 = unat col mod 2"
    unfolding f m unfolding z using b by simp_all
qed

section \<open>Columns beyond a row\<close>

lemma word_shift_div_mod:
  assumes "32 \<le> (x :: u32)"
  shows "(x - 32) div 32 + 1 = x div 32" "(x - 32) mod 32 = x mod 32"
proof -
  have dm: "y div 32 = word_of_nat (unat y div 32)" "y mod 32 = word_of_nat (unat y mod 32)" for y :: u32
    by (simp_all add: word_arith_nat_div word_arith_nat_mod)
  have u: "unat (x - 32) = unat x - 32" "32 \<le> unat x"
    using assms by (simp_all add: word_le_nat_alt unat_sub)
  then have "Suc (unat (x - 32) div 32) = unat x div 32" "unat (x - 32) mod 32 = unat x mod 32"
    by (simp_all add: le_div_geq le_mod_geq)
  then show "(x - 32) div 32 + 1 = x div 32" "(x - 32) mod 32 = x mod 32"
    unfolding dm by (metis of_nat_Suc add.commute, simp)
qed

lemma col_carry_eq: "col_carry row col = (row + col div 32, col mod 32)"
proof (induction row col rule: col_carry.induct)
  case (1 row col)
  show ?case
  proof (cases "32 \<le> col")
    case True
    then have "col_carry row col = col_carry (row + 1) (col - 32)"
      by (subst col_carry.simps) (simp only: cols_per_row if_True)
    also have "\<dots> = (row + 1 + (col - 32) div 32, (col - 32) mod 32)"
      using 1 True unfolding cols_per_row by simp
    also have "(col - 32) div 32 + 1 = col div 32" "(col - 32) mod 32 = col mod 32"
      using word_shift_div_mod [OF True] by simp_all
    ultimately show ?thesis by (simp add: add.assoc add.commute)
  next
    case False
    then have "col_carry row col = (row, col)"
      by (subst col_carry.simps) (simp only: cols_per_row if_False)
    moreover have "col div 32 = 0" "col mod 32 = col"
      using False by (simp_all add: word_le_nat_alt word_arith_nat_div word_arith_nat_mod)
    ultimately show ?thesis by simp
  qed
qed

text \<open>The safe form carries whole rows of 32 columns out of the column and addresses the carried
  coordinate; the row wraps modulo \<open>2 ^ 32\<close>.\<close>

theorem addr_gen_safe_carry:
  "addr_gen_safe chan rank bg bank row col =
    (addr_gen chan rank bg bank (row + col div 32) (col mod 32), row + col div 32, col mod 32)"
  by (simp add: addr_gen_safe_def col_carry_eq)

text \<open>On the 16-GB build an address is the full one for rank 0 and the lower half of the rows;
  the upper half of the rows and the other rank alias onto them.\<close>

theorem radeon7_alias:
  assumes "coord_ok (chan, rank, bg, bank, row, col)"
  shows "addr_gen_radeon7 chan rank bg bank row col = addr_gen chan 0 bg bank (take_bit 13 row) col"
proof (rule bit_word_eqI)
  fix n :: nat
  have m: "(0x1FFFFFFFF :: u64) = mask 33" by (simp add: mask_eq_exp_minus_1)
  have zero: "\<not> fbit 0 34 32 0 n" by (simp add: fbit_def)
  have row: "fbit (take_bit 13 row) 20 32 0 n \<longleftrightarrow> fbit row 20 14 0 n \<and> n < 33"
    using coord_bits(1) [OF assms, of "n - 20"] by (auto simp: fbit_def bit_take_bit_iff)
  have rest: "n < 33" if "fbit col 17 3 2 n \<or> fbit bank 16 1 1 n \<or> fbit bg 14 2 0 n \<or> fbit bank 13 1 0 n
      \<or> fbit chan 8 5 1 n \<or> fbit col 7 1 1 n \<or> fbit chan 6 1 0 n \<or> fbit col 5 1 0 n"
    using that by (auto simp: fbit_def)
  have bg: "fbit bg 14 32 0 n = fbit bg 14 2 0 n"
    using assms by (intro fbit_narrow) (simp_all add: coord_ok_def)
  have rank: "\<not> (fbit rank 34 1 0 n \<and> n < 33)" by (simp add: fbit_def)
  have "bit (addr_gen_radeon7 chan rank bg bank row col) n
      \<longleftrightarrow> bit (addr_gen chan rank bg bank row col) n \<and> n < 33"
    unfolding addr_gen_radeon7_def m by (auto simp: bit_and_iff bit_mask_iff)
  then show "bit (addr_gen_radeon7 chan rank bg bank row col) n
      \<longleftrightarrow> bit (addr_gen chan 0 bg bank (take_bit 13 row) col) n"
    unfolding bit_addr_gen_ok [OF assms] unfolding bit_addr_gen row bg using zero rest rank by blast
qed

lemma radeon7_alias_witness:
  "addr_gen_radeon7 5 1 2 3 8193 7 = addr_gen 5 0 2 3 (take_bit 13 8193) 7"
  by (rule radeon7_alias) (simp add: coord_ok_def)

text \<open>The debug decoder drops the low column and channel bits before it reads its first field, so
  two addresses of neighbouring columns decode to the same coordinate.\<close>

theorem addressMapping_not_inverse:
  "addressMapping (addr_gen chan rank bg bank row 0) = addressMapping (addr_gen chan rank bg bank row 1)"
proof -
  have "drop_bit 2 (drop_bit 5 (addr_gen chan rank bg bank row 0))
      = drop_bit 2 (drop_bit 5 (addr_gen chan rank bg bank row 1))"
  proof (rule bit_word_eqI)
    fix n :: nat
    have z: "fbit 0 k l d m = False" for k l d m by (simp add: fbit_def)
    have o: "fbit 1 17 3 2 (7 + n) = False" "fbit 1 7 1 1 (7 + n) = False" "fbit 1 5 1 0 (7 + n) = False"
      by (simp_all add: fbit_def bit_1_iff)
    show "bit (drop_bit 2 (drop_bit 5 (addr_gen chan rank bg bank row 0))) n
        \<longleftrightarrow> bit (drop_bit 2 (drop_bit 5 (addr_gen chan rank bg bank row 1))) n"
      by (simp add: bit_drop_bit_eq bit_addr_gen z o del: One_nat_def flip: add.assoc)
  qed
  then show ?thesis by (simp only: addressMapping_def Let_def)
qed

end
