(* ===== verification/SortedMap.thy ===== *)
theory SortedMap
  imports PimPrelude "HOL-Library.Multiset"
begin

text \<open>
  The ordered containers of the C++ library the memory manager uses: \<open>std::map\<close> as an association
  list with ascending keys and \<open>std::multimap\<close> as one with weakly ascending keys, with the
  iterator operations the sources apply to them.
\<close>

section \<open>Maps\<close>

definition map_ok :: "('k::linorder \<times> 'v) list \<Rightarrow> bool" where
  "map_ok xs \<longleftrightarrow> sorted_wrt (<) (map fst xs)"

text \<open>\<open>m[k] = v\<close>\<close>

fun am_insert :: "'k::linorder \<Rightarrow> 'v \<Rightarrow> ('k \<times> 'v) list \<Rightarrow> ('k \<times> 'v) list" where
  "am_insert k v [] = [(k, v)]"
| "am_insert k v ((k', v') # xs) =
     (if k < k' then (k, v) # (k', v') # xs else if k = k' then (k, v) # xs
      else (k', v') # am_insert k v xs)"

definition am_erase :: "'k \<Rightarrow> ('k \<times> 'v) list \<Rightarrow> ('k \<times> 'v) list" where
  "am_erase k xs = filter (\<lambda>e. fst e \<noteq> k) xs"

text \<open>The entry before \<open>upper_bound(k)\<close>, if \<open>upper_bound(k)\<close> is not \<open>begin()\<close>.\<close>

fun floor_entry :: "'k::linorder \<Rightarrow> ('k \<times> 'v) list \<Rightarrow> ('k \<times> 'v) option" where
  "floor_entry k [] = None"
| "floor_entry k ((k', v) # xs) =
     (if k' \<le> k then (case floor_entry k xs of None \<Rightarrow> Some (k', v) | Some e \<Rightarrow> Some e) else None)"

text \<open>\<open>find(k)\<close>: the entries before, the value, and the entries after an iterator.\<close>

fun split_key :: "'k \<Rightarrow> ('k \<times> 'v) list \<Rightarrow> (('k \<times> 'v) list \<times> 'v \<times> ('k \<times> 'v) list) option" where
  "split_key k [] = None"
| "split_key k ((k', v) # xs) =
     (if k' = k then Some ([], v, xs)
      else map_option (\<lambda>(pre, w, post). ((k', v) # pre, w, post)) (split_key k xs))"

section \<open>Multimaps\<close>

text \<open>\<open>insert\<close> puts a new entry behind the entries with the same key.\<close>

fun mm_insert :: "'k::linorder \<times> 'v \<Rightarrow> ('k \<times> 'v) list \<Rightarrow> ('k \<times> 'v) list" where
  "mm_insert e [] = [e]"
| "mm_insert e (x # xs) = (if fst e < fst x then e # x # xs else x # mm_insert e xs)"

definition mm_lower_bound :: "'k::linorder \<Rightarrow> ('k \<times> 'v) list \<Rightarrow> ('k \<times> 'v) option" where
  "mm_lower_bound k xs = find (\<lambda>e. k \<le> fst e) xs"

text \<open>\<open>erase(iterator)\<close>: an iterator that no longer points into the map has no meaning.\<close>

definition mm_erase :: "'k \<times> 'v \<Rightarrow> ('k \<times> 'v) list \<Rightarrow> ('k \<times> 'v) list option" where
  "mm_erase e xs = (if e \<in> set xs then Some (remove1 e xs) else None)"

section \<open>Laws\<close>

lemma am_insert_append:
  "\<forall>x \<in> set xs. fst x < k \<Longrightarrow> am_insert k v (xs @ ys) = xs @ am_insert k v ys"
  by (induction xs) auto

lemma am_insert_replace:
  "\<forall>x \<in> set xs. fst x < k \<Longrightarrow> am_insert k v (xs @ (k, w) # ys) = xs @ (k, v) # ys"
  by (simp add: am_insert_append)

lemma am_insert_after:
  assumes "\<forall>x \<in> set xs. fst x < a" "a < k" "\<forall>y \<in> set ys. k < fst y"
  shows "am_insert k v (xs @ (a, w) # ys) = xs @ (a, w) # (k, v) # ys"
proof -
  have "am_insert k v ys = (k, v) # ys" using assms(3) by (cases ys) auto
  moreover have "\<forall>x \<in> set xs. fst x < k" using assms(1,2) by fastforce
  ultimately show ?thesis using assms(2) by (auto simp: am_insert_append)
qed

lemma mset_am_insert: "k \<notin> fst ` set xs \<Longrightarrow> mset (am_insert k v xs) = add_mset (k, v) (mset xs)"
  by (induction xs) auto

lemma set_am_insert: "k \<notin> fst ` set xs \<Longrightarrow> set (am_insert k v xs) = insert (k, v) (set xs)"
  using mset_am_insert [of k xs v] by (metis set_mset_add_mset_insert set_mset_mset)

lemma keys_am_insert: "fst ` set (am_insert k v xs) = insert k (fst ` set xs)"
  by (induction k v xs rule: am_insert.induct) (simp_all add: insert_commute)

lemma map_ok_am_insert: "map_ok xs \<Longrightarrow> map_ok (am_insert k v xs)"
proof (induction xs)
  case (Cons x xs)
  obtain k' v' where x: "x = (k', v')" by (cases x)
  have "\<forall>y \<in> set (map fst (am_insert k v xs)). k' < y" if "k' < k"
    using Cons.prems that keys_am_insert [of k v xs] by (auto simp: map_ok_def x)
  then show ?case using Cons by (auto simp: map_ok_def x)
qed (simp add: map_ok_def)

lemma length_am_insert: "k \<notin> fst ` set xs \<Longrightarrow> length (am_insert k v xs) = Suc (length xs)"
  by (metis mset_am_insert size_mset size_add_mset)

lemma floor_entry_split:
  assumes "\<forall>x \<in> set xs. fst x \<le> k" "b \<le> k" "\<forall>y \<in> set ys. k < fst y"
  shows "floor_entry k (xs @ (b, v) # ys) = Some (b, v)"
proof -
  have "floor_entry k ys = None" using assms(3) by (cases ys) auto
  then have "floor_entry k ((b, v) # ys) = Some (b, v)" using assms(2) by simp
  then show ?thesis using assms(1) by (induction xs) auto
qed

lemma floor_entry_Some: "floor_entry k xs = Some (b, v) \<Longrightarrow> (b, v) \<in> set xs \<and> b \<le> k"
  by (induction xs) (auto split: if_splits option.splits)

lemma split_key_append:
  "k \<notin> fst ` set xs \<Longrightarrow> split_key k (xs @ (k, v) # ys) = Some (xs, v, ys)"
  by (induction xs) auto

lemma split_key_Some: "split_key k xs = Some (pre, v, post) \<Longrightarrow> xs = pre @ (k, v) # post"
  by (induction xs arbitrary: pre) (auto split: if_splits)

lemma split_key_None: "split_key k xs = None \<longleftrightarrow> k \<notin> fst ` set xs"
  by (induction k xs rule: split_key.induct) simp_all

lemma map_ok_append:
  "map_ok (xs @ ys) \<longleftrightarrow> map_ok xs \<and> map_ok ys \<and> (\<forall>x \<in> set xs. \<forall>y \<in> set ys. fst x < fst y)"
  by (auto simp: map_ok_def sorted_wrt_append)

lemma map_ok_Cons: "map_ok (x # xs) \<longleftrightarrow> map_ok xs \<and> (\<forall>y \<in> set xs. fst x < fst y)"
  by (auto simp: map_ok_def)

lemma map_ok_distinct: "map_ok xs \<Longrightarrow> distinct (map fst xs)"
  by (auto simp: map_ok_def strict_sorted_iff)

lemma mset_mm_insert [simp]: "mset (mm_insert e xs) = add_mset e (mset xs)"
  by (induction xs) auto

lemma set_mm_insert [simp]: "set (mm_insert e xs) = insert e (set xs)"
  by (metis mset_mm_insert set_mset_add_mset_insert set_mset_mset)

lemma sorted_mm_insert: "sorted (map fst xs) \<Longrightarrow> sorted (map fst (mm_insert e xs))"
  by (induction xs) (auto simp: not_less)

lemma mm_lower_bound_Cons:
  "mm_lower_bound k (x # xs) = (if k \<le> fst x then Some x else mm_lower_bound k xs)"
  by (simp add: mm_lower_bound_def)

lemma mm_lower_bound_in: "mm_lower_bound k xs = Some (n, v) \<Longrightarrow> (n, v) \<in> set xs \<and> k \<le> n"
  by (induction xs) (auto simp: mm_lower_bound_Cons mm_lower_bound_def split: if_splits)

lemma mm_lower_bound_least:
  "mm_lower_bound k xs = Some (n, v) \<Longrightarrow> sorted (map fst xs) \<Longrightarrow> (m, w) \<in> set xs \<Longrightarrow> k \<le> m \<Longrightarrow> n \<le> m"
proof (induction xs)
  case (Cons x xs)
  then show ?case
    by (cases "k \<le> fst x") (auto simp: mm_lower_bound_Cons split: if_splits)
qed (simp add: mm_lower_bound_def)

lemma mm_lower_bound_None: "mm_lower_bound k xs = None \<longleftrightarrow> (\<forall>e \<in> set xs. fst e < k)"
  by (auto simp: mm_lower_bound_def find_None_iff not_le)

end
