(* ===== verification/FloatRound.thy ===== *)
theory FloatRound
  imports PimPrelude
begin

text \<open>
  The single-precision arithmetic of the shape and tile computations: every use in the sources is
  \<open>ceil((float)a / b)\<close> on non-negative integers. A \<open>float\<close> has a 24-bit significand and rounds
  to nearest, ties to even; \<open>fl_nat\<close> is the conversion of an integer to \<open>float\<close> and \<open>fl_div_ceil\<close>
  the ceiling of a rounded quotient. The main lemma says that the result is the exact ceiling for
  numerators up to \<open>2 ^ 24\<close>; above that the conversion itself may lose the low bits.
\<close>

section \<open>Rounding\<close>

fun bitlen :: "nat \<Rightarrow> nat" where
  "bitlen n = (if n = 0 then 0 else Suc (bitlen (n div 2)))"

declare bitlen.simps [simp del]

text \<open>The integer nearest to \<open>p / q\<close>, ties to even.\<close>

definition rne :: "nat \<Rightarrow> nat \<Rightarrow> nat" where
  "rne p q = (let d = p div q; r = p mod q
              in if 2 * r < q then d else if q < 2 * r then d + 1
                 else if even d then d else d + 1)"

definition fl_nat :: "nat \<Rightarrow> nat" where
  "fl_nat n = (let e = bitlen n - 24 in rne n (2 ^ e) * 2 ^ e)"

definition ceil_div :: "nat \<Rightarrow> nat \<Rightarrow> nat" where
  "ceil_div a b = (a + b - 1) div b"

text \<open>
  \<open>fl_div_ceil a b\<close> is \<open>ceil(a / b)\<close> for two floats holding the integers \<open>a\<close> and \<open>b\<close>: the
  quotient is rounded to 24 bits, so it is a multiple of \<open>2 ^ - k\<close> (or of \<open>2 ^ e\<close> when it has
  more than 24 integer bits). A quotient in \<open>(0, 1]\<close> stays there when it is rounded.
\<close>

definition fl_div_ceil :: "nat \<Rightarrow> nat \<Rightarrow> nat" where
  "fl_div_ceil a b =
    (if a = 0 then 0 else if a \<le> b then 1
     else let l = bitlen (a div b)
          in if l \<le> 24 then let k = 24 - l in ceil_div (rne (a * 2 ^ k) b) (2 ^ k)
             else let e = l - 24 in rne a (b * 2 ^ e) * 2 ^ e)"

section \<open>Lemmas\<close>

lemma bitlen_0 [simp]: "bitlen 0 = 0"
  by (simp add: bitlen.simps)

lemma bitlen_upper: "n < 2 ^ bitlen n"
proof (induction n rule: bitlen.induct)
  case (1 n)
  show ?case
  proof (cases "n = 0")
    case False
    with 1 have "n div 2 < 2 ^ bitlen (n div 2)" by simp
    with False show ?thesis by (subst bitlen.simps) simp
  qed simp
qed

lemma bitlen_lower: "0 < n \<Longrightarrow> 2 ^ bitlen n \<le> 2 * n"
proof (induction n rule: bitlen.induct)
  case (1 n)
  show ?case
  proof (cases "n div 2 = 0")
    case True
    with 1 show ?thesis by (subst bitlen.simps) simp
  next
    case False
    with 1 have "2 ^ bitlen (n div 2) \<le> 2 * (n div 2)" by simp
    moreover have "2 * (n div 2) \<le> n" by simp
    ultimately have "2 ^ bitlen (n div 2) \<le> n" by linarith
    with 1 show ?thesis by (subst bitlen.simps) simp
  qed
qed

lemma bitlen_le: "n < 2 ^ k \<Longrightarrow> bitlen n \<le> k"
proof (rule ccontr)
  assume n: "n < 2 ^ k" and "\<not> bitlen n \<le> k"
  then have "2 ^ Suc k \<le> (2::nat) ^ bitlen n" by (intro power_increasing) auto
  moreover have "0 < n" using \<open>\<not> bitlen n \<le> k\<close> by (cases n) auto
  ultimately show False using bitlen_lower [of n] n by simp
qed

lemma rne_exact [simp]: "0 < q \<Longrightarrow> rne (d * q) q = d"
  by (simp add: rne_def)

lemma rne_1 [simp]: "rne n (Suc 0) = n"
  using rne_exact [of 1 n] by simp

lemma rne_bounds:
  assumes "0 < q"
  shows "2 * p \<le> 2 * (rne p q * q) + q" "2 * (rne p q * q) \<le> 2 * p + q"
proof -
  define d r where "d = p div q" and "r = p mod q"
  have p: "p = d * q + r" and r: "r < q" using assms by (simp_all add: d_def r_def)
  have m: "rne p q = d \<and> 2 * r \<le> q \<or> rne p q = d + 1 \<and> q \<le> 2 * r"
    by (auto simp: rne_def Let_def d_def r_def)
  then show "2 * p \<le> 2 * (rne p q * q) + q" "2 * (rne p q * q) \<le> 2 * p + q"
    using p r by (auto simp: algebra_simps)
qed

lemma ceil_div_unique:
  assumes "0 < b" "a \<le> c * b" "c * b < a + b"
  shows "ceil_div a b = c"
proof -
  have "c * b \<le> a + b - 1" using assms by simp
  moreover have "a + b - 1 < Suc c * b" using assms by simp
  ultimately show ?thesis unfolding ceil_div_def using assms(1)
    by (intro div_nat_eqI) (simp_all add: mult.commute)
qed

lemma ceil_div_ge: "0 < b \<Longrightarrow> a \<le> ceil_div a b * b"
  using dividend_less_div_times [of b "a + b - 1"] by (simp add: ceil_div_def)

lemma ceil_div_less: "0 < b \<Longrightarrow> ceil_div a b * b < a + b"
  unfolding ceil_div_def
  using div_times_less_eq_dividend [of "a + b - 1" b] by linarith

section \<open>Exactness up to \<open>2 ^ 24\<close>\<close>

lemma fl_nat_exact [cint_simps]: "n \<le> 2 ^ 24 \<Longrightarrow> fl_nat n = n"
proof -
  assume "n \<le> 2 ^ 24"
  then consider "n < 2 ^ 24" | "n = 2 ^ 24" by fastforce
  then show ?thesis
  proof cases
    case 1
    then have "bitlen n - 24 = 0" using bitlen_le [of n 24] by simp
    then show ?thesis by (simp add: fl_nat_def)
  next
    case 2
    have "bitlen (16777216 :: nat) = 25" by (simp add: bitlen.simps)
    with 2 show ?thesis by (simp add: fl_nat_def rne_def)
  qed
qed

lemma fl_div_ceil_scaled:
  assumes "0 < r" "r < b" "a = c * b + r" "b < 2 * 2 ^ k"
  shows "ceil_div (rne (a * 2 ^ k) b) (2 ^ k) = c + 1"
proof (rule ceil_div_unique)
  let ?m = "rne (a * 2 ^ k) b"
  have b: "0 < b" using assms by simp
  have a: "a * 2 ^ k = c * 2 ^ k * b + r * 2 ^ k"
    using assms(3) by (simp add: algebra_simps)
  have r1: "2 ^ k \<le> r * 2 ^ k" using assms(1) by simp
  have r2: "r * 2 ^ k + 2 ^ k \<le> b * 2 ^ k"
    using assms(2) by (metis Suc_leI add.commute mult_Suc mult_le_mono1)
  have "c * 2 ^ k * b < ?m * b"
    using rne_bounds(1) [OF b, of "a * 2 ^ k"] a r1 assms(4) by linarith
  then have lo: "c * 2 ^ k < ?m" by (meson mult_less_cancel2)
  have "?m * b < c * 2 ^ k * b + b * 2 ^ k + b"
    using rne_bounds(2) [OF b, of "a * 2 ^ k"] a r2 assms(4) by linarith
  then have "?m * b < ((c + 1) * 2 ^ k + 1) * b" by (simp add: algebra_simps)
  then have "?m < (c + 1) * 2 ^ k + 1" by (meson mult_less_cancel2)
  then show "?m \<le> (c + 1) * 2 ^ k" by simp
  show "(c + 1) * 2 ^ k < ?m + 2 ^ k" using lo by simp
qed simp

lemma fl_div_ceil_exact: "fl_div_ceil a b = ceil_div a b" if "a \<le> 2 ^ 24" "0 < b"
proof (cases "a \<le> b")
  case True
  moreover have "ceil_div a b = (if a = 0 then 0 else 1)"
    using True that by (intro ceil_div_unique) auto
  ultimately show ?thesis by (simp add: fl_div_ceil_def)
next
  case False
  define c r l where "c = a div b" and "r = a mod b" and "l = bitlen c"
  have a: "a = c * b + r" and r: "r < b" using that by (simp_all add: c_def r_def)
  have c: "0 < c" using False that by (simp add: c_def div_greater_zero_iff)
  have cb: "c * b \<le> 2 ^ 24" using a that by simp
  have l: "2 ^ l \<le> 2 * c" using bitlen_lower [OF c] by (simp add: l_def)
  show ?thesis
  proof (cases "r = 0")
    case True
    have m: "rne (a * 2 ^ k) b = c * 2 ^ k" for k
      using rne_exact [of b "c * 2 ^ k"] a True that by (simp add: mult.assoc mult.left_commute mult.commute)
    have cc: "ceil_div a b = c"
      using that a True by (intro ceil_div_unique) simp_all
    show ?thesis
    proof (cases "l \<le> 24")
      case True
      have "ceil_div (c * 2 ^ (24 - l)) (2 ^ (24 - l)) = c" by (intro ceil_div_unique) simp_all
      with True False cc m show ?thesis
        by (simp add: fl_div_ceil_def Let_def flip: c_def l_def)
    next
      case Fl: False
      have "c \<le> 2 ^ 24" using cb that by (metis One_nat_def Suc_leI dual_order.trans mult.right_neutral mult_le_mono2)
      with Fl have "c = 2 ^ 24" using bitlen_le [of c 24] by (fastforce simp: l_def)
      then have "b = 1" "l = 25" using cb that by (simp_all add: l_def bitlen.simps)
      with \<open>c = 2 ^ 24\<close> show ?thesis
        using False a True by (simp add: fl_div_ceil_def Let_def ceil_div_def bitlen.simps rne_def)
    qed
  next
    case r0: False
    have "c * b < 2 ^ 24" using a r0 that by simp
    moreover have "c * 1 \<le> c * b" using that by (intro mult_le_mono) simp_all
    ultimately have "c < 2 ^ 24" by linarith
    then have l24: "l \<le> 24" using bitlen_le [of c 24] by (simp add: l_def)
    have "2 ^ l * b \<le> 2 * (c * b)" using l mult_le_mono1 [of "2 ^ l" "2 * c" b] by (simp add: mult.assoc)
    then have "2 ^ l * b < 2 * 2 ^ 24" using \<open>c * b < 2 ^ 24\<close> by linarith
    also have "\<dots> = 2 ^ l * (2 * 2 ^ (24 - l))"
      using l24 by (simp only: power_add [symmetric] mult.left_commute) simp
    finally have "b < 2 * 2 ^ (24 - l)" by simp
    with a r r0 have "ceil_div (rne (a * 2 ^ (24 - l)) b) (2 ^ (24 - l)) = c + 1"
      by (intro fl_div_ceil_scaled [of r]) simp_all
    moreover have "ceil_div a b = c + 1"
      using a r r0 that by (intro ceil_div_unique) (simp_all add: algebra_simps)
    ultimately show ?thesis using False l24 c
      by (simp add: fl_div_ceil_def Let_def flip: c_def l_def)
  qed
qed

section \<open>Powers of two\<close>

lemma bitlen_half: "bitlen (n div 2) = bitlen n - 1"
  by (subst (2) bitlen.simps) simp

lemma bitlen_div_pow: "bitlen (n div 2 ^ j) = bitlen n - j"
proof (induction j)
  case (Suc j)
  have "n div 2 ^ Suc j = n div 2 ^ j div 2" by (simp only: power_Suc2 div_mult2_eq)
  then show ?case using Suc by (simp add: bitlen_half)
qed simp

lemma ceil_div_scale:
  assumes "0 < b" "0 < c"
  shows "ceil_div (a * c) (b * c) = ceil_div a b"
proof (rule ceil_div_unique)
  show "a * c \<le> ceil_div a b * (b * c)"
    using mult_le_mono1 [OF ceil_div_ge [OF assms(1)], of a c] by (simp add: mult.assoc)
  have "ceil_div a b * b * c < (a + b) * c" using ceil_div_less [OF assms(1)] assms(2) by simp
  then show "ceil_div a b * (b * c) < a * c + b * c" by (simp add: algebra_simps)
qed (use assms in simp)

text \<open>Dividing a representable number by a power of two is exact, so its ceiling is the true one.\<close>

lemma fl_div_ceil_pow2: "fl_nat a = a \<Longrightarrow> fl_div_ceil a (2 ^ j) = ceil_div a (2 ^ j)"
proof -
  assume rep: "fl_nat a = a"
  consider "a \<le> 2 ^ 24" | "2 ^ 24 < a" "a \<le> 2 ^ j" | "2 ^ 24 < a" "2 ^ j < a" by linarith
  then show ?thesis
  proof cases
    case 1
    then show ?thesis by (rule fl_div_ceil_exact) simp
  next
    case 2
    have "ceil_div a (2 ^ j) = 1" using 2 by (intro ceil_div_unique) simp_all
    then show ?thesis using 2 by (simp add: fl_div_ceil_def)
  next
    case 3
    define e m where "e = bitlen a - 24" and "m = rne a (2 ^ e)"
    have a: "a = m * 2 ^ e" using rep by (simp add: fl_nat_def e_def m_def Let_def)
    have b24: "24 < bitlen a"
    proof (rule ccontr)
      assume "\<not> 24 < bitlen a"
      then have "(2 :: nat) ^ bitlen a \<le> 2 ^ 24" by (intro power_increasing) simp_all
      then show False using bitlen_upper [of a] 3(1) by linarith
    qed
    have bj: "j < bitlen a" using 3(2) bitlen_upper [of a] by (metis less_trans power_less_imp_less_exp one_less_numeral_iff semiring_norm(76))
    have l: "bitlen (a div 2 ^ j) = bitlen a - j" by (rule bitlen_div_pow)
    show ?thesis
    proof (cases "bitlen a - j \<le> 24")
      case True
      define k where "k = 24 - (bitlen a - j)"
      have ek: "e + k = j" using True bj b24 by (simp add: e_def k_def)
      have "a * 2 ^ k = m * 2 ^ j" by (simp add: a mult.assoc ek flip: power_add)
      then have "fl_div_ceil a (2 ^ j) = ceil_div m (2 ^ k)"
        using 3 True by (simp add: fl_div_ceil_def l Let_def flip: k_def)
      also have "\<dots> = ceil_div (m * 2 ^ e) (2 ^ k * 2 ^ e)" by (rule ceil_div_scale [symmetric]) simp_all
      finally show ?thesis by (simp add: a ek add.commute flip: power_add)
    next
      case False
      define d where "d = bitlen a - (j + 24)"
      have jd: "j + d = e" using False by (simp add: e_def d_def)
      have q: "(2 :: nat) ^ j * 2 ^ d = 2 ^ e" by (simp add: jd flip: power_add)
      have "rne a (2 ^ e) = m" by (simp add: m_def)
      then have "fl_div_ceil a (2 ^ j) = m * 2 ^ d"
        using 3 False by (simp add: fl_div_ceil_def l Let_def q flip: d_def)
      moreover have "ceil_div a (2 ^ j) = m * 2 ^ d"
        by (rule ceil_div_unique) (simp_all add: a q [symmetric])
      ultimately show ?thesis by simp
    qed
  qed
qed

end
