(* ===== verification/HeapAlloc.thy ===== *)
theory HeapAlloc
  imports SortedMap FloatRound PimTypes
begin

text \<open>
  The sub-allocator of PIM memory, \<open>SimpleHeap\<close> of \<open>runtime/include/manager/simple_heap.hpp\<close>: best
  fit over a multimap of free fragments, eager merging of neighbours on \<open>free\<close>, and a cache of
  wholly free blocks. The block allocator is the template parameter: a record of operations over its
  own state, with the laws of the locale \<open>block_source\<close>. \<open>None\<close> is a failed \<open>assert\<close> or a use of
  an iterator that does not exist; a null pointer is address 0.
\<close>

section \<open>State\<close>

record Fragment =
  fr_free :: "(nat \<times> addr) option"
  fr_size :: nat

type_synonym fragments = "(addr \<times> Fragment) list"

record 'b BlockOps =
  ba_alloc :: "nat \<Rightarrow> int \<Rightarrow> 'b \<Rightarrow> (addr \<times> nat \<times> 'b) option"
  ba_free :: "addr \<Rightarrow> nat \<Rightarrow> 'b \<Rightarrow> 'b"
  ba_size :: nat
  ba_pim_base :: "'b \<Rightarrow> addr"

record 'b Heap =
  block_alloc :: 'b
  pim_base :: addr
  free_list :: "(nat \<times> addr) list"
  block_list :: "(addr \<times> fragments) list"
  block_cache :: "(addr \<times> nat) list"
  in_use_size :: u64
  cache_size :: u64

definition align_size :: nat where
  "align_size = 2 * 1024 * 1024"

definition heap_init :: "'b \<Rightarrow> 'b Heap" where
  "heap_init b = \<lparr>block_alloc = b, pim_base = 0, free_list = [], block_list = [], block_cache = [],
     in_use_size = 0, cache_size = 0\<rparr>"

definition get_aligned_bytes :: "nat \<Rightarrow> nat" where
  "get_aligned_bytes bytes = align_size * fl_div_ceil (fl_nat bytes) align_size"

definition isFree :: "Fragment \<Rightarrow> bool" where
  "isFree f \<longleftrightarrow> fr_free f \<noteq> None"

definition usedFragment :: "nat \<Rightarrow> Fragment" where
  "usedFragment len = \<lparr>fr_free = None, fr_size = len\<rparr>"

definition freeFragment :: "nat \<times> addr \<Rightarrow> nat \<Rightarrow> Fragment" where
  "freeFragment it len = \<lparr>fr_free = Some it, fr_size = len\<rparr>"

section \<open>Allocation\<close>

text \<open>Sub-allocation from the free fragment \<open>(sz, base)\<close> that \<open>lower_bound\<close> found.\<close>

definition alloc_fragment :: "nat \<Rightarrow> nat \<times> addr \<Rightarrow> 'b Heap \<Rightarrow> (addr \<times> 'b Heap) option" where
  "alloc_fragment aligned found h =
    (let (sz, base) = found; fl = remove1 found (free_list h)
     in if sz < aligned then None
        else case floor_entry base (block_list h) of
          None \<Rightarrow> None
        | Some (bb, frag_map) \<Rightarrow>
            (case split_key base frag_map of
               None \<Rightarrow> None
             | Some (_, fragment, _) \<Rightarrow>
                 if sz \<noteq> fr_size fragment then None
                 else let frag_map = am_insert base (usedFragment aligned) frag_map;
                          rest = (sz - aligned, base + aligned);
                          (fl, frag_map) =
                            (if aligned < sz
                             then (mm_insert rest fl,
                                   am_insert (base + aligned) (freeFragment rest (sz - aligned)) frag_map)
                             else (fl, frag_map))
                      in Some (base, h\<lparr>free_list := fl, block_list := am_insert bb frag_map (block_list h)\<rparr>)))"

definition frags_at :: "addr \<Rightarrow> (addr \<times> fragments) list \<Rightarrow> fragments" where
  "frags_at b blocks = (case split_key b blocks of None \<Rightarrow> [] | Some (_, fs, _) \<Rightarrow> fs)"

text \<open>Sub-allocation from a whole block of \<open>sz\<close> bytes at \<open>base\<close>.\<close>

definition alloc_block :: "nat \<Rightarrow> addr \<Rightarrow> nat \<Rightarrow> 'b Heap \<Rightarrow> (addr \<times> 'b Heap) option" where
  "alloc_block aligned base sz h =
    (let h = h\<lparr>in_use_size := in_use_size h + of_nat sz\<rparr>
     in if sz < aligned then None
        else let rest = (sz - aligned, base + aligned);
                 h = (if aligned < sz
                      then h\<lparr>free_list := mm_insert rest (free_list h),
                             block_list := am_insert base
                               (am_insert (base + aligned) (freeFragment rest (sz - aligned))
                                 (frags_at base (block_list h))) (block_list h)\<rparr>
                      else h);
                 h = h\<lparr>block_list := am_insert base
                         (am_insert base (usedFragment aligned) (frags_at base (block_list h))) (block_list h)\<rparr>
             in Some (base, h))"

definition heap_alloc :: "'b BlockOps \<Rightarrow> nat \<Rightarrow> int \<Rightarrow> 'b Heap \<Rightarrow> (addr \<times> 'b Heap) option" where
  "heap_alloc A bytes device_id h =
    (let aligned = get_aligned_bytes bytes
     in if ba_size A < aligned then Some (0, h)
        else case mm_lower_bound aligned (free_list h) of
          Some found \<Rightarrow> alloc_fragment aligned found h
        | None \<Rightarrow>
            if block_cache h \<noteq> []
            then let (base, sz) = last (block_cache h)
                 in alloc_block aligned base sz
                      (h\<lparr>block_cache := butlast (block_cache h), cache_size := cache_size h - of_nat sz\<rparr>)
            else case ba_alloc A aligned device_id (block_alloc h) of
                None \<Rightarrow> None
              | Some (ptr, sz, b) \<Rightarrow>
                  let h = h\<lparr>block_alloc := b, pim_base := ba_pim_base A b\<rparr>
                  in if ptr = 0 then Some (0, h) else alloc_block aligned ptr sz h)"

section \<open>Release\<close>

type_synonym cursor = "fragments \<times> (addr \<times> Fragment) \<times> fragments"

definition merge_lower :: "(nat \<times> addr) list \<times> cursor \<Rightarrow> ((nat \<times> addr) list \<times> cursor) option" where
  "merge_lower = (\<lambda>(fl, pre, (a, f), post).
     if pre \<noteq> [] then
       (let (la, lf) = last pre
        in case fr_free lf of
             Some e \<Rightarrow> (case mm_erase e fl of
                 None \<Rightarrow> None
               | Some fl \<Rightarrow> Some (fl, butlast pre, (la, lf\<lparr>fr_size := fr_size lf + fr_size f\<rparr>), post))
           | None \<Rightarrow> Some (fl, pre, (a, f), post))
     else Some (fl, pre, (a, f), post))"

definition merge_upper :: "(nat \<times> addr) list \<times> cursor \<Rightarrow> ((nat \<times> addr) list \<times> cursor) option" where
  "merge_upper = (\<lambda>(fl, pre, (a, f), post).
     case post of
       (ua, uf) # post' \<Rightarrow>
         (case fr_free uf of
            Some e \<Rightarrow> (case mm_erase e fl of
                None \<Rightarrow> None
              | Some fl \<Rightarrow> Some (fl, pre, (a, f\<lparr>fr_size := fr_size f + fr_size uf\<rparr>), post'))
          | None \<Rightarrow> Some (fl, pre, (a, f), post))
     | [] \<Rightarrow> Some (fl, pre, (a, f), post))"

text \<open>The eviction loop on the cache, front first.\<close>

fun evict :: "'b BlockOps \<Rightarrow> u64 \<Rightarrow> (addr \<times> nat) list \<times> u64 \<times> 'b \<Rightarrow> (addr \<times> nat) list \<times> u64 \<times> 'b" where
  "evict A in_use ((a, n) # c # cs, csize, b) =
     (if in_use * 2 < csize then evict A in_use (c # cs, csize - of_nat n, ba_free A a n b)
      else ((a, n) # c # cs, csize, b))"
| "evict A in_use (cs, csize, b) = (cs, csize, b)"

definition heap_free :: "'b BlockOps \<Rightarrow> addr \<Rightarrow> 'b Heap \<Rightarrow> (bool \<times> 'b Heap) option" where
  "heap_free A ptr h =
    (if ptr = 0 then Some (True, h)
     else case floor_entry ptr (block_list h) of
       None \<Rightarrow> Some (False, h)
     | Some (bb, frag_map) \<Rightarrow>
         (case split_key ptr frag_map of
            None \<Rightarrow> Some (False, h)
          | Some (pre, fragment, post) \<Rightarrow>
              if isFree fragment then Some (False, h)
              else case Option.bind (merge_lower (free_list h, pre, (ptr, fragment), post)) merge_upper of
                None \<Rightarrow> None
              | Some (fl, pre, (a, f), post) \<Rightarrow>
                  if length (pre @ (a, f) # post) = 1
                  then let in_use = in_use_size h - of_nat (fr_size f);
                           csize = cache_size h + of_nat (fr_size f);
                           (cs, csize, b) = evict A in_use (block_cache h @ [(a, fr_size f)], csize, block_alloc h)
                       in Some (True, h\<lparr>free_list := fl, block_list := am_erase bb (block_list h),
                            in_use_size := in_use, cache_size := csize, block_cache := cs, block_alloc := b\<rparr>)
                  else let e = (fr_size f, a)
                       in Some (True, h\<lparr>free_list := mm_insert e fl,
                            block_list := am_insert bb (pre @ (a, f\<lparr>fr_free := Some e\<rparr>) # post)
                              (block_list h)\<rparr>)))"

definition heap_trim :: "'b BlockOps \<Rightarrow> 'b Heap \<Rightarrow> 'b Heap" where
  "heap_trim A h = h\<lparr>block_alloc := fold (\<lambda>(a, n) b. ba_free A a n b) (block_cache h) (block_alloc h),
     block_cache := [], cache_size := 0\<rparr>"

section \<open>The laws of a block allocator\<close>

text \<open>
  \<open>live b\<close> are the blocks handed out and not released. A successful allocation hands out a block of
  the fixed block size, disjoint from every live one, inside the address space.
\<close>

definition disjoint_blocks :: "nat \<Rightarrow> addr set \<Rightarrow> bool" where
  "disjoint_blocks sz S \<longleftrightarrow> (\<forall>p \<in> S. \<forall>q \<in> S. p \<noteq> q \<longrightarrow> p + sz \<le> q \<or> q + sz \<le> p)"

locale block_source =
  fixes A :: "'b BlockOps" and binv :: "'b \<Rightarrow> bool" and live :: "'b \<Rightarrow> addr set" and dev_ok :: "int \<Rightarrow> bool"
  assumes size_pos: "0 < ba_size A"
    and live_ok: "binv b \<Longrightarrow> disjoint_blocks (ba_size A) (live b) \<and> 0 \<notin> live b"
    and alloc_ok: "binv b \<Longrightarrow> dev_ok d \<Longrightarrow> n \<le> ba_size A \<Longrightarrow>
      \<exists>p sz b'. ba_alloc A n d b = Some (p, sz, b') \<and> binv b'
        \<and> (if p = 0 then live b' = live b
            else p \<notin> live b \<and> sz = ba_size A \<and> live b' = insert p (live b))"
    and free_ok: "binv b \<Longrightarrow> p \<in> live b \<Longrightarrow>
      binv (ba_free A p (ba_size A) b) \<and> live (ba_free A p (ba_size A) b) = live b - {p}"

section \<open>Well-formed heaps\<close>

text \<open>Fragments tile a block: contiguous, non-empty, no two free neighbours.\<close>

fun tiles :: "addr \<Rightarrow> fragments \<Rightarrow> addr \<Rightarrow> bool" where
  "tiles a [] e \<longleftrightarrow> a = e"
| "tiles a ((b, f) # fs) e \<longleftrightarrow> b = a \<and> 0 < fr_size f \<and> tiles (a + fr_size f) fs e"

definition frag_ok :: "addr \<times> Fragment \<Rightarrow> bool" where
  "frag_ok = (\<lambda>(a, f). isFree f \<longrightarrow> fr_free f = Some (fr_size f, a))"

definition apart :: "addr \<times> Fragment \<Rightarrow> addr \<times> Fragment \<Rightarrow> bool" where
  "apart x y \<longleftrightarrow> \<not> (isFree (snd x) \<and> isFree (snd y))"

definition block_ok :: "nat \<Rightarrow> addr \<times> fragments \<Rightarrow> bool" where
  "block_ok sz = (\<lambda>(b, fs). tiles b fs (b + sz) \<and> (\<forall>x \<in> set fs. frag_ok x) \<and> successively apart fs
     \<and> (\<exists>x \<in> set fs. \<not> isFree (snd x)))"

definition frees :: "fragments \<Rightarrow> (nat \<times> addr) multiset" where
  "frees fs = mset (map (\<lambda>(a, f). (fr_size f, a)) (filter (\<lambda>x. isFree (snd x)) fs))"

definition all_frees :: "(addr \<times> fragments) list \<Rightarrow> (nat \<times> addr) multiset" where
  "all_frees bs = (\<Sum>x \<in># mset bs. frees (snd x))"

text \<open>The regions the heap has handed out.\<close>

definition useds :: "fragments \<Rightarrow> (addr \<times> nat) set" where
  "useds fs = (\<lambda>(a, f). (a, fr_size f)) ` {x \<in> set fs. \<not> isFree (snd x)}"

definition used_regions :: "'b Heap \<Rightarrow> (addr \<times> nat) set" where
  "used_regions h = (\<Union>x \<in> set (block_list h). useds (snd x))"

definition heap_inv :: "'b BlockOps \<Rightarrow> ('b \<Rightarrow> bool) \<Rightarrow> ('b \<Rightarrow> addr set) \<Rightarrow> 'b Heap \<Rightarrow> bool" where
  "heap_inv A binv live h \<longleftrightarrow>
     binv (block_alloc h) \<and> map_ok (block_list h) \<and> (\<forall>x \<in> set (block_list h). block_ok (ba_size A) x)
     \<and> sorted (map fst (free_list h)) \<and> mset (free_list h) = all_frees (block_list h)
     \<and> (\<forall>c \<in> set (block_cache h). snd c = ba_size A)
     \<and> distinct (map fst (block_list h) @ map fst (block_cache h))
     \<and> set (map fst (block_list h) @ map fst (block_cache h)) = live (block_alloc h)
     \<and> in_use_size h = of_nat (ba_size A * length (block_list h))
     \<and> cache_size h = of_nat (ba_size A * length (block_cache h))"

section \<open>Lemmas on fragments\<close>

lemma tiles_append: "tiles a (xs @ ys) e \<longleftrightarrow> (\<exists>m. tiles a xs m \<and> tiles m ys e)"
  by (induction xs arbitrary: a) auto

lemma tiles_le: "tiles a fs e \<Longrightarrow> a \<le> e"
  by (induction fs arbitrary: a) fastforce+

lemma tiles_bounds: "tiles a fs e \<Longrightarrow> x \<in> set fs \<Longrightarrow> a \<le> fst x \<and> 0 < fr_size (snd x) \<and> fst x + fr_size (snd x) \<le> e"
proof (induction fs arbitrary: a)
  case (Cons y fs)
  then show ?case using tiles_le by (cases y) fastforce
qed simp

lemma tiles_map_ok: "tiles a fs e \<Longrightarrow> map_ok fs"
proof (induction fs arbitrary: a)
  case (Cons y fs)
  obtain b f where y: "y = (b, f)" by (cases y)
  with Cons.prems have t: "tiles (a + fr_size f) fs e" "b = a" "0 < fr_size f" by simp_all
  have "fst y < fst x" if "x \<in> set fs" for x using tiles_bounds [OF t(1) that] t(2,3) y by simp
  then show ?case using Cons.IH [OF t(1)] by (simp add: map_ok_Cons)
qed (simp add: map_ok_def)

lemma tiles_split:
  assumes "tiles a (xs @ (p, f) # ys) e"
  shows "tiles a xs p" "tiles (p + fr_size f) ys e" "0 < fr_size f"
    "\<forall>x \<in> set xs. fst x < p" "\<forall>y \<in> set ys. p + fr_size f \<le> fst y" "p + fr_size f \<le> e" "a \<le> p"
proof -
  show t: "tiles a xs p" "tiles (p + fr_size f) ys e" "0 < fr_size f"
    using assms by (auto simp: tiles_append)
  show "\<forall>x \<in> set xs. fst x < p" using tiles_bounds [OF t(1)] by fastforce
  show "\<forall>y \<in> set ys. p + fr_size f \<le> fst y" using tiles_bounds [OF t(2)] by blast
  show "p + fr_size f \<le> e" "a \<le> p" using tiles_le [OF t(2)] tiles_le [OF t(1)] by simp_all
qed

lemma frees_simps [simp]:
  "frees [] = {#}" "frees (xs @ ys) = frees xs + frees ys"
  "frees ((a, f) # fs) = (if isFree f then add_mset (fr_size f, a) (frees fs) else frees fs)"
  by (simp_all add: frees_def)

lemma useds_simps [simp]:
  "useds [] = {}" "useds (xs @ ys) = useds xs \<union> useds ys"
  "useds ((a, f) # fs) = (if isFree f then useds fs else insert (a, fr_size f) (useds fs))"
  by (auto simp: useds_def)

lemma all_frees_simps [simp]:
  "all_frees [] = {#}" "all_frees (xs @ ys) = all_frees xs + all_frees ys"
  "all_frees (x # xs) = frees (snd x) + all_frees xs"
  by (simp_all add: all_frees_def)

lemma in_frees: "(n, a) \<in># frees fs \<longleftrightarrow> (\<exists>f. (a, f) \<in> set fs \<and> isFree f \<and> fr_size f = n)"
  by (induction fs) (auto split: if_splits)

lemma in_useds: "(a, n) \<in> useds fs \<longleftrightarrow> (\<exists>f. (a, f) \<in> set fs \<and> \<not> isFree f \<and> fr_size f = n)"
  by (auto simp: useds_def)

lemma in_all_frees: "e \<in># all_frees bs \<longleftrightarrow> (\<exists>x \<in> set bs. e \<in># frees (snd x))"
  by (induction bs) auto

lemma fragment_simps [simp]:
  "isFree (usedFragment n) = False" "isFree (freeFragment e n) = True"
  "fr_size (usedFragment n) = n" "fr_size (freeFragment e n) = n" "fr_free (freeFragment e n) = Some e"
  by (simp_all add: isFree_def usedFragment_def freeFragment_def)

lemma apart_used [simp]: "\<not> isFree (snd x) \<Longrightarrow> apart x y" "\<not> isFree (snd y) \<Longrightarrow> apart x y"
  by (simp_all add: apart_def)

lemma successively_apart_split:
  "successively apart (xs @ x # ys) \<longleftrightarrow> successively apart xs \<and> successively apart ys
     \<and> (xs \<noteq> [] \<longrightarrow> apart (last xs) x) \<and> (ys \<noteq> [] \<longrightarrow> apart x (hd ys))"
  by (cases ys) (auto simp: successively_append_iff)

section \<open>Lemmas on blocks\<close>

lemma floor_block:
  assumes "map_ok (bs1 @ (b, fs) # bs2)" "disjoint_blocks sz S"
    "set (map fst (bs1 @ (b, fs) # bs2)) \<subseteq> S" "b \<le> p" "p < b + sz"
  shows "floor_entry p (bs1 @ (b, fs) # bs2) = Some (b, fs)"
proof (rule floor_entry_split)
  have lt: "\<forall>x \<in> set bs1. fst x < b" "\<forall>y \<in> set bs2. b < fst y"
    using assms(1) by (auto simp: map_ok_append map_ok_Cons)
  then show "\<forall>x \<in> set bs1. fst x \<le> p" using assms(4) by fastforce
  show "\<forall>y \<in> set bs2. p < fst y"
  proof
    fix y assume y: "y \<in> set bs2"
    then have "b < fst y" "b \<in> S" "fst y \<in> S" using lt assms(3) by auto
    then have "b + sz \<le> fst y \<or> fst y + sz \<le> b" using assms(2)
      unfolding disjoint_blocks_def by (metis less_irrefl)
    then show "p < fst y" using \<open>b < fst y\<close> assms(5) by linarith
  qed
qed (rule assms)

lemma replace_block:
  assumes "map_ok (bs1 @ (b, fs) # bs2)"
  shows "am_insert b fs' (bs1 @ (b, fs) # bs2) = bs1 @ (b, fs') # bs2"
  using assms by (intro am_insert_replace) (auto simp: map_ok_append)

lemma heap_inv_replace:
  assumes "heap_inv A binv live h" "block_list h = bs1 @ (b, fs) # bs2" "block_ok (ba_size A) (b, fs')"
    "sorted (map fst fl)" "mset fl = all_frees bs1 + frees fs' + all_frees bs2"
  shows "heap_inv A binv live (h\<lparr>free_list := fl, block_list := bs1 @ (b, fs') # bs2\<rparr>)"
  using assms by (auto simp: heap_inv_def map_ok_def)

lemma block_list_cases:
  assumes "x \<in> set (block_list h)"
  obtains bs1 bs2 where "block_list h = bs1 @ (fst x, snd x) # bs2"
  using split_list [OF assms] that by auto

section \<open>Allocation keeps the heap well formed\<close>

text \<open>The outcome of a sub-allocation at \<open>p\<close>.\<close>

definition alloc_result ::
    "'b BlockOps \<Rightarrow> ('b \<Rightarrow> bool) \<Rightarrow> ('b \<Rightarrow> addr set) \<Rightarrow> nat \<Rightarrow> 'b Heap \<Rightarrow> addr \<Rightarrow> 'b Heap \<Rightarrow> bool" where
  "alloc_result A binv live n h p h' \<longleftrightarrow> heap_inv A binv live h'
     \<and> used_regions h' = insert (p, n) (used_regions h)
     \<and> (\<forall>(q, m) \<in> used_regions h. p + n \<le> q \<or> q + m \<le> p)
     \<and> (\<exists>b \<in> live (block_alloc h'). b \<le> p \<and> p + n \<le> b + ba_size A)"

lemma used_regions_split:
  "block_list h = bs1 @ (b, fs) # bs2 \<Longrightarrow>
     used_regions h = (\<Union>x \<in> set bs1. useds (snd x)) \<union> useds fs \<union> (\<Union>x \<in> set bs2. useds (snd x))"
  by (auto simp: used_regions_def)

lemma useds_in_block:
  assumes "block_ok sz (b, fs)" "(q, m) \<in> useds fs"
  shows "b \<le> q \<and> 0 < m \<and> q + m \<le> b + sz"
proof -
  obtain f where "(q, f) \<in> set fs" "fr_size f = m" using assms(2) by (auto simp: in_useds)
  then show ?thesis using assms(1) tiles_bounds [of b fs "b + sz" "(q, f)"] by (auto simp: block_ok_def)
qed

lemma block_live:
  assumes "heap_inv A binv live h" "x \<in> set (block_list h)"
  shows "fst x \<in> live (block_alloc h)"
proof -
  have "set (map fst (block_list h) @ map fst (block_cache h)) = live (block_alloc h)"
    using assms(1) by (simp add: heap_inv_def)
  with assms(2) show ?thesis by force
qed

lemma others_apart:
  assumes inv: "heap_inv A binv live h" and bl: "block_list h = bs1 @ (b, fs1 @ (p, f) # fs2) # bs2"
    and disj: "disjoint_blocks (ba_size A) (live (block_alloc h))"
    and q: "(q, m) \<in> (\<Union>x \<in> set bs1. useds (snd x)) \<union> (useds fs1 \<union> useds fs2) \<union> (\<Union>x \<in> set bs2. useds (snd x))"
  shows "p + fr_size f \<le> q \<or> q + m \<le> p"
proof -
  let ?sz = "ba_size A"
  have bok: "\<forall>x \<in> set (block_list h). block_ok ?sz x" using inv by (simp add: heap_inv_def)
  have t: "tiles b (fs1 @ (p, f) # fs2) (b + ?sz)" using bok bl by (auto simp: block_ok_def)
  note ts = tiles_split [OF t]
  from q consider "(q, m) \<in> useds fs1" | "(q, m) \<in> useds fs2"
    | x where "x \<in> set bs1 \<union> set bs2" "(q, m) \<in> useds (snd x)" by auto
  then show ?thesis
  proof cases
    case 1
    then obtain g where "(q, g) \<in> set fs1" "fr_size g = m" by (auto simp: in_useds)
    then show ?thesis using tiles_bounds [OF ts(1)] by fastforce
  next
    case 2
    then obtain g where "(q, g) \<in> set fs2" "fr_size g = m" by (auto simp: in_useds)
    then show ?thesis using ts(5) by fastforce
  next
    case 3
    have "map_ok (block_list h)" using inv by (simp add: heap_inv_def)
    then have "fst x \<noteq> b" using 3(1) bl by (auto simp: map_ok_append map_ok_Cons)
    moreover have x: "x \<in> set (block_list h)" using 3(1) bl by auto
    moreover have "fst x \<in> live (block_alloc h)" "b \<in> live (block_alloc h)"
      using block_live [OF inv x] block_live [OF inv, of "(b, fs1 @ (p, f) # fs2)"] bl by simp_all
    ultimately have "fst x + ?sz \<le> b \<or> b + ?sz \<le> fst x" using disj by (simp add: disjoint_blocks_def)
    moreover have "fst x \<le> q" "q + m \<le> fst x + ?sz"
      using useds_in_block [of ?sz "fst x" "snd x" q m] bok x 3(2) by auto
    ultimately show ?thesis using ts(6,7) by linarith
  qed
qed

lemma used_apart_free:
  assumes "heap_inv A binv live h" and bl: "block_list h = bs1 @ (b, fs1 @ (p, f) # fs2) # bs2"
    and "disjoint_blocks (ba_size A) (live (block_alloc h))" and "isFree f" "(q, m) \<in> used_regions h"
  shows "p + fr_size f \<le> q \<or> q + m \<le> p"
proof (rule others_apart [OF assms(1-3)])
  show "(q, m) \<in> (\<Union>x \<in> set bs1. useds (snd x)) \<union> (useds fs1 \<union> useds fs2) \<union> (\<Union>x \<in> set bs2. useds (snd x))"
    using assms(4,5) unfolding used_regions_split [OF bl] by auto
qed

definition split_frags :: "nat \<Rightarrow> addr \<Rightarrow> nat \<Rightarrow> fragments" where
  "split_frags n p m =
    (if n < m then [(p, usedFragment n), (p + n, freeFragment (m - n, p + n) (m - n))]
     else [(p, usedFragment n)])"

lemma split_frags_simps:
  assumes "0 < n" "n \<le> m"
  shows "tiles p (split_frags n p m) (p + m)" "\<forall>x \<in> set (split_frags n p m). frag_ok x"
    "successively apart (split_frags n p m)" "useds (split_frags n p m) = {(p, n)}"
    "frees (split_frags n p m) = (if n < m then {#(m - n, p + n)#} else {#})"
proof -
  show "tiles p (split_frags n p m) (p + m)" using assms by (simp add: split_frags_def)
  show "\<forall>x \<in> set (split_frags n p m). frag_ok x" by (simp add: split_frags_def frag_ok_def)
  show "successively apart (split_frags n p m)" by (simp add: split_frags_def)
  show "useds (split_frags n p m) = {(p, n)}" by (simp add: split_frags_def)
  show "frees (split_frags n p m) = (if n < m then {#(m - n, p + n)#} else {#})"
    by (simp add: split_frags_def)
qed

lemma split_frags_ends:
  "split_frags n p m \<noteq> []" "hd (split_frags n p m) = (p, usedFragment n)"
  by (simp_all add: split_frags_def)

lemma alloc_fragment_spec:
  assumes inv: "heap_inv A binv live h" and disj: "disjoint_blocks (ba_size A) (live (block_alloc h))"
    and found: "(m, p) \<in> set (free_list h)" and n: "0 < n" "n \<le> m"
  shows "\<exists>h'. alloc_fragment n (m, p) h = Some (p, h') \<and> alloc_result A binv live n h p h'
            \<and> block_alloc h' = block_alloc h"
proof -
  let ?sz = "ba_size A"
  have "(m, p) \<in># all_frees (block_list h)" using inv found by (metis heap_inv_def set_mset_mset)
  then obtain x where x: "x \<in> set (block_list h)" "(m, p) \<in># frees (snd x)" by (auto simp: in_all_frees)
  then obtain f where f: "(p, f) \<in> set (snd x)" "isFree f" "fr_size f = m" by (auto simp: in_frees)
  obtain bs1 bs2 where bl0: "block_list h = bs1 @ (fst x, snd x) # bs2" by (rule block_list_cases [OF x(1)])
  obtain fs1 fs2 where fs: "snd x = fs1 @ (p, f) # fs2" using split_list [OF f(1)] by auto
  define b where "b = fst x"
  have bl: "block_list h = bs1 @ (b, fs1 @ (p, f) # fs2) # bs2" using bl0 fs by (simp add: b_def)
  have mok: "map_ok (bs1 @ (b, fs1 @ (p, f) # fs2) # bs2)" using inv bl by (simp add: heap_inv_def)
  have bok: "block_ok ?sz (b, fs1 @ (p, f) # fs2)" using inv bl by (simp add: heap_inv_def)
  then have t: "tiles b (fs1 @ (p, f) # fs2) (b + ?sz)" by (simp add: block_ok_def)
  note ts = tiles_split [OF t]
  have live: "set (map fst (bs1 @ (b, fs1 @ (p, f) # fs2) # bs2)) \<subseteq> live (block_alloc h)"
    using inv bl by (auto simp: heap_inv_def)
  have "p < b + ?sz" using ts(3,6) by simp
  then have floor: "floor_entry p (block_list h) = Some (b, fs1 @ (p, f) # fs2)"
    unfolding bl by (intro floor_block [OF mok disj live ts(7)])
  have "p \<notin> fst ` set fs1" using ts(4) by auto
  then have split: "split_key p (fs1 @ (p, f) # fs2) = Some (fs1, f, fs2)" by (rule split_key_append)
  have ins: "am_insert p (usedFragment n) (fs1 @ (p, f) # fs2) = fs1 @ (p, usedFragment n) # fs2"
    by (rule am_insert_replace [OF ts(4)])
  have ins2: "am_insert (p + n) g (fs1 @ (p, usedFragment n) # fs2) = fs1 @ (p, usedFragment n) # (p + n, g) # fs2"
    if "n < m" for g using ts(4,5) n f(3) that by (intro am_insert_after) fastforce+
  define fl where "fl = (if n < m then mm_insert (m - n, p + n) (remove1 (m, p) (free_list h))
                         else remove1 (m, p) (free_list h))"
  let ?fs = "fs1 @ split_frags n p m @ fs2"
  have res: "alloc_fragment n (m, p) h = Some (p, h\<lparr>free_list := fl, block_list := bs1 @ (b, ?fs) # bs2\<rparr>)"
    using n f(3) replace_block [OF mok]
    by (simp add: alloc_fragment_def floor [unfolded bl] split ins ins2 fl_def split_frags_def bl Let_def)
  note sf = split_frags_simps [OF n]
  have adj: "successively apart (fs1 @ (p, f) # fs2)" using bok by (simp add: block_ok_def)
  then have "fs2 \<noteq> [] \<longrightarrow> apart (p, f) (hd fs2)" "fs1 \<noteq> [] \<longrightarrow> apart (last fs1) (p, f)"
    and adj12: "successively apart fs1" "successively apart fs2"
    by (simp_all add: successively_apart_split)
  then have "fs2 \<noteq> [] \<longrightarrow> \<not> isFree (snd (hd fs2))" "fs1 \<noteq> [] \<longrightarrow> \<not> isFree (snd (last fs1))"
    using f(2) by (simp_all add: apart_def)
  then have adj': "successively apart ?fs"
    using adj12 sf(3) split_frags_ends [of n p m] by (auto simp: successively_append_iff successively_apart_split hd_append)
  have bok': "block_ok ?sz (b, ?fs)"
    using bok sf ts f(3) adj' by (auto simp: block_ok_def tiles_append split_frags_def)
  have sorted: "sorted (map fst fl)" using inv
    by (auto simp: fl_def heap_inv_def sorted_mm_insert sorted_map_remove1)
  have "mset (free_list h) = all_frees bs1 + frees (fs1 @ (p, f) # fs2) + all_frees bs2"
    using inv bl by (simp add: heap_inv_def)
  then have fl: "mset fl = all_frees bs1 + frees ?fs + all_frees bs2"
    using f(2,3) sf(5) by (simp add: fl_def)
  have inv': "heap_inv A binv live (h\<lparr>free_list := fl, block_list := bs1 @ (b, ?fs) # bs2\<rparr>)"
    by (rule heap_inv_replace [OF inv bl bok' sorted fl])
  have used: "used_regions (h\<lparr>free_list := fl, block_list := bs1 @ (b, ?fs) # bs2\<rparr>) = insert (p, n) (used_regions h)"
  proof -
    have "used_regions (h\<lparr>free_list := fl, block_list := bs1 @ (b, ?fs) # bs2\<rparr>)
        = (\<Union>x \<in> set bs1. useds (snd x)) \<union> useds ?fs \<union> (\<Union>x \<in> set bs2. useds (snd x))"
      by (rule used_regions_split) simp
    moreover have "useds ?fs = insert (p, n) (useds (fs1 @ (p, f) # fs2))" using f(2) sf(4) by auto
    ultimately show ?thesis unfolding used_regions_split [OF bl] by simp
  qed
  have "p + n \<le> q \<or> q + k \<le> p" if "(q, k) \<in> used_regions h" for q k
    using used_apart_free [OF inv bl disj f(2) that] n f(3) by linarith
  moreover have "b \<in> live (block_alloc h)" using live by simp
  ultimately show ?thesis
    using res inv' used ts(6,7) n f(3) by (auto simp: alloc_result_def intro!: bexI [of _ b])
qed

lemma am_insert_twice [simp]: "am_insert k v (am_insert k w xs) = am_insert k v xs"
  by (induction xs) auto

lemma split_key_am_insert: "\<exists>pre post. split_key k (am_insert k v xs) = Some (pre, v, post)" if "k \<notin> fst ` set xs"
  using that by (induction k v xs rule: am_insert.induct) auto

lemma frags_at_am_insert [simp]: "k \<notin> fst ` set xs \<Longrightarrow> frags_at k (am_insert k v xs) = v"
  using split_key_am_insert [of k xs v] by (auto simp: frags_at_def)

lemma frags_at_new [simp]: "k \<notin> fst ` set xs \<Longrightarrow> frags_at k xs = []"
  by (simp add: frags_at_def split_key_None [THEN iffD2])

lemma all_frees_mset: "mset xs = mset ys \<Longrightarrow> all_frees xs = all_frees ys"
  by (simp add: all_frees_def)

lemma all_frees_am_insert: "k \<notin> fst ` set xs \<Longrightarrow> all_frees (am_insert k v xs) = frees v + all_frees xs"
  by (simp add: all_frees_def mset_am_insert)

lemma alloc_block_eq:
  assumes "base \<notin> fst ` set (block_list h)" "n \<le> sz" "0 < n"
  shows "alloc_block n base sz h = Some (base,
      h\<lparr>free_list := (if n < sz then mm_insert (sz - n, base + n) (free_list h) else free_list h),
        block_list := am_insert base (split_frags n base sz) (block_list h),
        in_use_size := in_use_size h + of_nat sz\<rparr>)"
  using assms by (cases "n < sz") (simp_all add: alloc_block_def split_frags_def Let_def)

lemma alloc_block_spec:
  assumes inv: "heap_inv A binv (\<lambda>b. live b - {base}) h" and base: "base \<in> live (block_alloc h)"
    and disj: "disjoint_blocks (ba_size A) (live (block_alloc h))" and n: "0 < n" "n \<le> ba_size A"
  shows "\<exists>h'. alloc_block n base (ba_size A) h = Some (base, h') \<and> alloc_result A binv live n h base h'
            \<and> block_alloc h' = block_alloc h"
proof -
  let ?sz = "ba_size A" and ?fs = "split_frags n base (ba_size A)"
  have keys: "set (map fst (block_list h) @ map fst (block_cache h)) = live (block_alloc h) - {base}"
    using inv by (simp add: heap_inv_def)
  then have new: "base \<notin> fst ` set (block_list h)" "base \<notin> fst ` set (block_cache h)" by auto
  define fl where "fl = (if n < ?sz then mm_insert (?sz - n, base + n) (free_list h) else free_list h)"
  define h' where "h' = h\<lparr>free_list := fl, block_list := am_insert base ?fs (block_list h),
      in_use_size := in_use_size h + of_nat ?sz\<rparr>"
  have res: "alloc_block n base ?sz h = Some (base, h')"
    using alloc_block_eq [OF new(1) n(2,1)] by (simp add: h'_def fl_def)
  note sf = split_frags_simps [OF n]
  have "(base, usedFragment n) \<in> set ?fs" by (simp add: split_frags_def)
  then have bok: "block_ok ?sz (base, ?fs)" using sf by (auto simp: block_ok_def intro!: bexI)
  have set': "set (am_insert base ?fs (block_list h)) = insert (base, ?fs) (set (block_list h))"
    by (rule set_am_insert [OF new(1)])
  have dist: "distinct (map fst (am_insert base ?fs (block_list h)) @ map fst (block_cache h))"
  proof -
    have "map_ok (am_insert base ?fs (block_list h))" using inv by (simp add: heap_inv_def map_ok_am_insert)
    then show ?thesis using inv new keys_am_insert [of base ?fs "block_list h"] map_ok_distinct
      by (auto simp: heap_inv_def)
  qed
  have len: "length (am_insert base ?fs (block_list h)) = Suc (length (block_list h))"
    by (rule length_am_insert [OF new(1)])
  have fl: "sorted (map fst fl)" "mset fl = all_frees (am_insert base ?fs (block_list h))"
    using inv sf(5) by (auto simp: fl_def heap_inv_def sorted_mm_insert all_frees_am_insert [OF new(1)])
  have "set (map fst (am_insert base ?fs (block_list h)) @ map fst (block_cache h)) = live (block_alloc h)"
    using keys base keys_am_insert [of base ?fs "block_list h"] by auto
  then have inv': "heap_inv A binv live h'"
    using inv bok set' dist len fl by (auto simp: heap_inv_def h'_def map_ok_am_insert algebra_simps)
  have used: "used_regions h' = insert (base, n) (used_regions h)"
    using sf(4) by (simp add: used_regions_def h'_def set')
  have "base + n \<le> q \<or> q + m \<le> base" if q: "(q, m) \<in> used_regions h" for q m
  proof -
    obtain x where x: "x \<in> set (block_list h)" "(q, m) \<in> useds (snd x)" using q by (auto simp: used_regions_def)
    have "block_ok ?sz (fst x, snd x)" using inv x(1) by (simp add: heap_inv_def)
    from useds_in_block [OF this x(2)] have "fst x \<le> q" "q + m \<le> fst x + ?sz" by simp_all
    moreover have "fst x \<in> live (block_alloc h) - {base}" using block_live [OF inv x(1)] .
    then have "fst x + ?sz \<le> base \<or> base + ?sz \<le> fst x" using disj base by (auto simp: disjoint_blocks_def)
    ultimately show ?thesis using n(2) by linarith
  qed
  then show ?thesis using res inv' used base n(2) by (auto simp: alloc_result_def h'_def)
qed

lemma aligned_pos: "0 < bytes \<Longrightarrow> 0 < get_aligned_bytes bytes"
proof -
  assume b: "0 < bytes"
  have r: "0 < rne n q" if "0 < q" "q \<le> n" for n q :: nat
    using rne_bounds(1) [OF that(1), of n] that by (cases "rne n q") auto
  have "2 ^ (bitlen bytes - 24) \<le> bytes"
  proof (cases "bitlen bytes \<le> 24")
    case False
    then have "(2 :: nat) * 2 ^ (bitlen bytes - 24) \<le> 2 ^ bitlen bytes"
      by (simp flip: power_Suc add: power_increasing)
    with bitlen_lower [OF b] show ?thesis by linarith
  qed (use b in simp)
  then have f: "0 < fl_nat bytes" using r [of "2 ^ (bitlen bytes - 24)" bytes] by (simp add: fl_nat_def Let_def)
  have c: "0 < ceil_div x y" if "0 < x" "0 < y" for x y :: nat
    using ceil_div_ge [OF that(2), of x] that by (cases "ceil_div x y") auto
  have "0 < fl_div_ceil a b" if "0 < a" "0 < b" for a b :: nat
  proof (cases "a \<le> b")
    case False
    then have "0 < a div b" using that by (simp add: div_greater_zero_iff)
    note bl = bitlen_lower [OF this]
    show ?thesis
    proof (cases "bitlen (a div b) \<le> 24")
      case True
      have "b \<le> a * 2 ^ (24 - bitlen (a div b))"
        using False by (metis le_trans linorder_le_cases mult.right_neutral mult_le_mono2 one_le_numeral one_le_power)
      with True False show ?thesis using r that c by (simp add: fl_div_ceil_def Let_def)
    next
      case l: False
      let ?e = "bitlen (a div b) - 24"
      have "(2 :: nat) * 2 ^ ?e \<le> 2 ^ bitlen (a div b)"
        using l by (simp flip: power_Suc add: power_increasing)
      then have "2 ^ ?e \<le> a div b" using bl by linarith
      then have "b * 2 ^ ?e \<le> a"
        by (metis mult_le_mono2 order_trans times_div_less_eq_dividend)
      with l False show ?thesis using r that by (simp add: fl_div_ceil_def Let_def)
    qed
  qed (use that in \<open>simp add: fl_div_ceil_def\<close>)
  with f show ?thesis by (simp add: get_aligned_bytes_def align_size_def)
qed

section \<open>Merging on release\<close>

text \<open>What holds between the steps of a release in block \<open>b\<close>: \<open>rest\<close> are the free entries of the
  other blocks and \<open>U\<close> the regions in use beside the one being released.\<close>

definition cursor_ok :: "addr \<Rightarrow> addr \<Rightarrow> (nat \<times> addr) multiset \<Rightarrow> (addr \<times> nat) set \<Rightarrow> (nat \<times> addr) list \<times> cursor \<Rightarrow> bool" where
  "cursor_ok b e rest U = (\<lambda>(fl, pre, (a, f), post).
     tiles b (pre @ (a, f) # post) e \<and> (\<forall>x \<in> set pre \<union> set post. frag_ok x)
     \<and> successively apart pre \<and> successively apart post
     \<and> sorted (map fst fl) \<and> mset fl = rest + frees pre + frees post
     \<and> U = useds pre \<union> useds post)"

definition lower_done :: "(nat \<times> addr) list \<times> cursor \<Rightarrow> bool" where
  "lower_done = (\<lambda>(fl, pre, x, post). pre \<noteq> [] \<longrightarrow> \<not> isFree (snd (last pre)))"

definition upper_done :: "(nat \<times> addr) list \<times> cursor \<Rightarrow> bool" where
  "upper_done = (\<lambda>(fl, pre, x, post). post \<noteq> [] \<longrightarrow> \<not> isFree (snd (hd post)))"

lemma merge_lower_ok:
  assumes "cursor_ok b e rest U c"
  shows "\<exists>c'. merge_lower c = Some c' \<and> cursor_ok b e rest U c' \<and> lower_done c'"
proof -
  obtain fl pre a f post where c: "c = (fl, pre, (a, f), post)" by (metis prod.collapse)
  show ?thesis
  proof (cases "pre = []")
    case True
    then show ?thesis using assms by (simp add: c merge_lower_def lower_done_def)
  next
    case False
    then obtain pre' la lf where pre: "pre = pre' @ [(la, lf)]" by (metis append_butlast_last_id surj_pair)
    show ?thesis
    proof (cases "fr_free lf")
      case None
      then show ?thesis using assms by (simp add: c merge_lower_def lower_done_def pre isFree_def)
    next
      case (Some it)
      have lf: "isFree lf" "it = (fr_size lf, la)"
        using assms Some by (auto simp: c pre cursor_ok_def frag_ok_def isFree_def)
      have in_fl: "it \<in> set fl"
        using assms lf by (simp add: c pre cursor_ok_def flip: set_mset_mset)
      have t: "tiles b (pre' @ (la, lf) # (a, f) # post) e" using assms by (simp add: c pre cursor_ok_def)
      have adj: "successively apart (pre' @ [(la, lf)])" using assms by (simp add: c pre cursor_ok_def)
      then have "pre' \<noteq> [] \<longrightarrow> apart (last pre') (la, lf)" "successively apart pre'"
        by (auto simp: successively_append_iff)
      then have "pre' \<noteq> [] \<longrightarrow> \<not> isFree (snd (last pre'))" using lf(1) by (simp add: apart_def)
      moreover have "mset (remove1 it fl) = rest + frees pre' + frees post"
        using assms lf by (simp add: c pre cursor_ok_def)
      moreover have "tiles b (pre' @ (la, lf\<lparr>fr_size := fr_size lf + fr_size f\<rparr>) # post) e"
        using t by (auto simp: tiles_append add.assoc)
      ultimately show ?thesis using assms in_fl Some lf \<open>successively apart pre'\<close>
        by (simp add: c merge_lower_def lower_done_def pre mm_erase_def cursor_ok_def sorted_map_remove1)
    qed
  qed
qed

lemma merge_upper_ok:
  assumes "cursor_ok b e rest U c" "lower_done c"
  shows "\<exists>c'. merge_upper c = Some c' \<and> cursor_ok b e rest U c' \<and> lower_done c' \<and> upper_done c'"
proof -
  obtain fl pre a f post where c: "c = (fl, pre, (a, f), post)" by (metis prod.collapse)
  show ?thesis
  proof (cases post)
    case Nil
    then show ?thesis using assms by (simp add: c merge_upper_def upper_done_def)
  next
    case (Cons y post')
    then obtain ua uf where post: "post = (ua, uf) # post'" by (cases y) simp
    show ?thesis
    proof (cases "fr_free uf")
      case None
      then show ?thesis using assms by (simp add: c merge_upper_def upper_done_def post isFree_def)
    next
      case (Some it)
      have uf: "isFree uf" "it = (fr_size uf, ua)"
        using assms Some by (auto simp: c post cursor_ok_def frag_ok_def isFree_def)
      have in_fl: "it \<in> set fl"
        using assms uf by (simp add: c post cursor_ok_def flip: set_mset_mset)
      have t: "tiles b (pre @ (a, f) # (ua, uf) # post') e" using assms by (simp add: c post cursor_ok_def)
      have adj: "successively apart ((ua, uf) # post')" using assms by (simp add: c post cursor_ok_def)
      then have "post' \<noteq> [] \<longrightarrow> apart (ua, uf) (hd post')" "successively apart post'"
        by (cases post'; simp)+
      then have "post' \<noteq> [] \<longrightarrow> \<not> isFree (snd (hd post'))" using uf(1) by (simp add: apart_def)
      moreover have "mset (remove1 it fl) = rest + frees pre + frees post'"
        using assms uf by (simp add: c post cursor_ok_def)
      moreover have "tiles b (pre @ (a, f\<lparr>fr_size := fr_size f + fr_size uf\<rparr>) # post') e"
        using t by (auto simp: tiles_append add.assoc)
      ultimately show ?thesis using assms in_fl Some uf \<open>successively apart post'\<close>
        by (simp add: c merge_upper_def upper_done_def lower_done_def post mm_erase_def cursor_ok_def
            sorted_map_remove1)
    qed
  qed
qed

section \<open>Eviction\<close>

lemma evict_step:
  "evict A iu (cs, csz, b) = (cs, csz, b) \<or>
   (\<exists>a n c cs'. cs = (a, n) # c # cs' \<and> iu * 2 < csz
      \<and> evict A iu (cs, csz, b) = evict A iu (c # cs', csz - of_nat n, ba_free A a n b))"
proof (cases cs)
  case (Cons x xs)
  then show ?thesis by (cases xs; cases x) auto
qed simp

text \<open>The loop drops a prefix of the cache, releases it, never empties the cache, and stops only when
  one block is left or the limit holds.\<close>

lemma evict_limit:
  "evict A iu (cs, csz, b) = (cs', csz', b') \<Longrightarrow> length cs' \<le> 1 \<or> \<not> iu * 2 < csz'"
proof (induction cs arbitrary: csz b)
  case (Cons x xs)
  then show ?case by (cases xs; cases x) (auto split: if_splits)
qed auto

lemma evict_nonempty: "evict A iu (cs, csz, b) = (cs', csz', b') \<Longrightarrow> cs \<noteq> [] \<Longrightarrow> cs' \<noteq> []"
proof (induction cs arbitrary: csz b)
  case (Cons x xs)
  then show ?case by (cases xs; cases x) (auto split: if_splits)
qed simp

context block_source
begin

lemma disj: "binv b \<Longrightarrow> disjoint_blocks (ba_size A) (live b)"
  using live_ok by blast

lemma evict_ok:
  assumes "evict A iu (cs, csz, b) = (cs', csz', b')" "binv b" "\<forall>c \<in> set cs. snd c = ba_size A"
    "distinct (map fst cs)" "fst ` set cs \<subseteq> live b" "csz = of_nat (ba_size A * length cs)"
  shows "binv b' \<and> (\<exists>ds. cs = ds @ cs' \<and> live b' = live b - fst ` set ds)
    \<and> csz' = of_nat (ba_size A * length cs')"
  using assms
proof (induction cs arbitrary: csz b)
  case Nil
  then show ?case by auto
next
  case (Cons x xs)
  obtain a n where x: "x = (a, n)" by (cases x)
  have n: "n = ba_size A" using Cons.prems(3) x by simp
  show ?case
  proof (cases "xs \<noteq> [] \<and> iu * 2 < csz")
    case True
    then have e: "evict A iu (xs, csz - of_nat n, ba_free A a n b) = (cs', csz', b')"
      using Cons.prems(1) x by (cases xs) (simp_all split: if_splits)
    have f: "binv (ba_free A a n b)" "live (ba_free A a n b) = live b - {a}"
      using free_ok [OF Cons.prems(2), of a] Cons.prems(5) x n by simp_all
    have "csz - of_nat n = of_nat (ba_size A * length xs)"
      using Cons.prems(6) n by (simp add: algebra_simps)
    moreover have "fst ` set xs \<subseteq> live (ba_free A a n b)" using Cons.prems(4,5) f(2) x by auto
    ultimately obtain ds where ds: "xs = ds @ cs'" "live b' = live (ba_free A a n b) - fst ` set ds" "binv b'"
        "csz' = of_nat (ba_size A * length cs')"
      using Cons.IH [OF e f(1)] Cons.prems(3,4) by auto
    then show ?thesis using f(2) x by (intro conjI exI [of _ "(a, n) # ds"]) auto
  next
    case False
    then have "(cs', csz', b') = (x # xs, csz, b)" using Cons.prems(1) x by (cases xs) (auto split: if_splits)
    then show ?thesis using Cons.prems by auto
  qed
qed

end

section \<open>Release keeps the heap well formed\<close>

lemma used_split:
  assumes "heap_inv A binv live h" "(p, n) \<in> used_regions h"
  obtains bs1 b fs1 f fs2 bs2 where "block_list h = bs1 @ (b, fs1 @ (p, f) # fs2) # bs2"
    "\<not> isFree f" "fr_size f = n"
proof -
  obtain x where x: "x \<in> set (block_list h)" "(p, n) \<in> useds (snd x)"
    using assms(2) by (auto simp: used_regions_def)
  then obtain f where f: "(p, f) \<in> set (snd x)" "\<not> isFree f" "fr_size f = n" by (auto simp: in_useds)
  obtain bs1 bs2 where bs: "block_list h = bs1 @ (fst x, snd x) # bs2" by (rule block_list_cases [OF x(1)])
  obtain fs1 fs2 where "snd x = fs1 @ (p, f) # fs2" using split_list [OF f(1)] by auto
  then show ?thesis using that [of bs1 "fst x" fs1 f fs2 bs2] bs f by simp
qed

lemma cursor_start:
  assumes inv: "heap_inv A binv live h" and bl: "block_list h = bs1 @ (b, fs1 @ (p, f) # fs2) # bs2"
    and f: "\<not> isFree f"
  shows "cursor_ok b (b + ba_size A) (all_frees bs1 + all_frees bs2) (useds fs1 \<union> useds fs2)
           (free_list h, fs1, (p, f), fs2)"
proof -
  have "block_ok (ba_size A) (b, fs1 @ (p, f) # fs2)" using inv bl by (simp add: heap_inv_def)
  moreover have "mset (free_list h) = all_frees (block_list h)" "sorted (map fst (free_list h))"
    using inv by (simp_all add: heap_inv_def)
  ultimately show ?thesis using f
    by (auto simp: cursor_ok_def block_ok_def successively_apart_split bl)
qed

lemma used_lookup:
  assumes inv: "heap_inv A binv live h" and bl: "block_list h = bs1 @ (b, fs1 @ (p, f) # fs2) # bs2"
    and disj: "disjoint_blocks (ba_size A) (live (block_alloc h))"
  shows "floor_entry p (block_list h) = Some (b, fs1 @ (p, f) # fs2)"
    "split_key p (fs1 @ (p, f) # fs2) = Some (fs1, f, fs2)"
proof -
  have t: "tiles b (fs1 @ (p, f) # fs2) (b + ba_size A)" using inv bl by (auto simp: heap_inv_def block_ok_def)
  note ts = tiles_split [OF t]
  have live: "set (map fst (bs1 @ (b, fs1 @ (p, f) # fs2) # bs2)) \<subseteq> live (block_alloc h)"
    using inv bl by (auto simp: heap_inv_def)
  have mok: "map_ok (bs1 @ (b, fs1 @ (p, f) # fs2) # bs2)" using inv bl by (simp add: heap_inv_def)
  have "p < b + ba_size A" using ts(3,6) by simp
  then show "floor_entry p (block_list h) = Some (b, fs1 @ (p, f) # fs2)"
    unfolding bl by (intro floor_block [OF mok disj live ts(7)])
  have "p \<notin> fst ` set fs1" using ts(4) by auto
  then show "split_key p (fs1 @ (p, f) # fs2) = Some (fs1, f, fs2)" by (rule split_key_append)
qed

lemma am_erase_split: "map_ok (xs @ (k, v) # ys) \<Longrightarrow> am_erase k (xs @ (k, v) # ys) = xs @ ys"
proof -
  assume m: "map_ok (xs @ (k, v) # ys)"
  then have "filter (\<lambda>e. fst e \<noteq> k) xs = xs" "filter (\<lambda>e. fst e \<noteq> k) ys = ys"
    by (intro filter_True; fastforce simp: map_ok_append map_ok_Cons)+
  then show ?thesis by (simp add: am_erase_def)
qed

lemma cursor_final:
  assumes "cursor_ok b e rest U (fl, pre, (a, f), post)" "lower_done (fl, pre, (a, f), post)"
    "upper_done (fl, pre, (a, f), post)" "pre @ post \<noteq> []"
  shows "tiles b (pre @ (a, f\<lparr>fr_free := Some (fr_size f, a)\<rparr>) # post) e"
    "\<forall>x \<in> set (pre @ (a, f\<lparr>fr_free := Some (fr_size f, a)\<rparr>) # post). frag_ok x"
    "successively apart (pre @ (a, f\<lparr>fr_free := Some (fr_size f, a)\<rparr>) # post)"
    "\<exists>x \<in> set (pre @ (a, f\<lparr>fr_free := Some (fr_size f, a)\<rparr>) # post). \<not> isFree (snd x)"
proof -
  show "tiles b (pre @ (a, f\<lparr>fr_free := Some (fr_size f, a)\<rparr>) # post) e"
    "\<forall>x \<in> set (pre @ (a, f\<lparr>fr_free := Some (fr_size f, a)\<rparr>) # post). frag_ok x"
    using assms(1) by (auto simp: cursor_ok_def tiles_append frag_ok_def)
  show "successively apart (pre @ (a, f\<lparr>fr_free := Some (fr_size f, a)\<rparr>) # post)"
    using assms(1-3) unfolding successively_apart_split
    by (auto simp: cursor_ok_def lower_done_def upper_done_def)
  show "\<exists>x \<in> set (pre @ (a, f\<lparr>fr_free := Some (fr_size f, a)\<rparr>) # post). \<not> isFree (snd x)"
    using assms(2-4) by (cases "pre = []") (auto simp: lower_done_def upper_done_def intro: last_in_set hd_in_set)
qed

lemma heap_free_other:
  assumes "heap_inv A binv live h" "p \<noteq> 0" "\<And>n. (p, n) \<notin> used_regions h"
  shows "heap_free A p h = Some (False, h)"
proof (cases "floor_entry p (block_list h)")
  case None
  then show ?thesis using assms(2) by (simp add: heap_free_def)
next
  case (Some e)
  obtain bb fm where e: "e = (bb, fm)" by (cases e)
  have mem: "(bb, fm) \<in> set (block_list h)" using floor_entry_Some [of p "block_list h" bb fm] Some e by simp
  show ?thesis
  proof (cases "split_key p fm")
    case None
    then show ?thesis using assms(2) Some e by (simp add: heap_free_def)
  next
    case k: (Some c)
    obtain pre f post where c: "c = (pre, f, post)" by (cases c)
    have fm: "fm = pre @ (p, f) # post" using split_key_Some [of p fm] k c by simp
    have "isFree f"
    proof (rule ccontr)
      assume "\<not> isFree f"
      then have "(p, fr_size f) \<in> useds (snd (bb, fm))" using fm by simp
      with mem have "(p, fr_size f) \<in> used_regions h" unfolding used_regions_def by (rule UN_I)
      with assms(3) show False by blast
    qed
    then show ?thesis using assms(2) Some e k c by (simp add: heap_free_def)
  qed
qed

context block_source
begin

lemma kept_keys: "K \<inter> insert b C = {} \<Longrightarrow> D \<inter> S = {} \<Longrightarrow> D \<union> S = insert b C \<Longrightarrow> K \<union> S = insert b (K \<union> C) - D"
  by blast

lemma kept_disjoint: "K \<inter> insert b C = {} \<Longrightarrow> D \<union> S = insert b C \<Longrightarrow> K \<inter> S = {}"
  by blast

text \<open>The block became wholly free: it moves to the cache.\<close>

lemma heap_inv_cache_block:
  assumes inv: "heap_inv A binv live h" and bl: "block_list h = bs1 @ (bb, fs) # bs2"
    and fl: "sorted (map fst fl)" "mset fl = all_frees (bs1 @ bs2)"
    and ev: "evict A (in_use_size h - of_nat (ba_size A))
        (block_cache h @ [(bb, ba_size A)], cache_size h + of_nat (ba_size A), block_alloc h) = (cs, csz, b')"
  shows "heap_inv A binv live (h\<lparr>free_list := fl, block_list := bs1 @ bs2,
        in_use_size := in_use_size h - of_nat (ba_size A), cache_size := csz, block_cache := cs, block_alloc := b'\<rparr>)"
proof -
  let ?sz = "ba_size A" and ?cache = "block_cache h @ [(bb, ba_size A)]"
  let ?K = "fst ` set (bs1 @ bs2)" and ?C = "fst ` set (block_cache h)"
  have b: "binv (block_alloc h)" and mok: "map_ok (bs1 @ (bb, fs) # bs2)"
    using inv bl by (simp_all add: heap_inv_def)
  have keys: "insert bb (?K \<union> ?C) = live (block_alloc h)" "?K \<inter> insert bb ?C = {}" "bb \<notin> ?C"
    "distinct (map fst (bs1 @ bs2))" "distinct (map fst (block_cache h))"
    using inv by (auto simp: heap_inv_def bl)
  then have cache: "distinct (map fst ?cache)" "fst ` set ?cache \<subseteq> live (block_alloc h)"
      "\<forall>c \<in> set ?cache. snd c = ?sz"
    using inv by (auto simp: heap_inv_def)
  have "cache_size h + of_nat ?sz = of_nat (?sz * length ?cache)"
    using inv by (simp add: heap_inv_def algebra_simps)
  from evict_ok [OF ev b cache(3,1,2) this] obtain ds where
    ds: "?cache = ds @ cs" "live b' = live (block_alloc h) - fst ` set ds" "binv b'"
      "csz = of_nat (?sz * length cs)" by blast
  have "distinct (map fst (ds @ cs))" "fst ` set (ds @ cs) = insert bb ?C"
    using cache(1) unfolding ds(1) [symmetric] by simp_all
  then have dc: "distinct (map fst cs)" "fst ` set ds \<inter> fst ` set cs = {}" "fst ` set ds \<union> fst ` set cs = insert bb ?C"
    by auto
  have "?K \<union> fst ` set cs = live b'"
    unfolding ds(2) keys(1) [symmetric] by (rule kept_keys [OF keys(2) dc(2,3)])
  moreover have "?K \<inter> fst ` set cs = {}" by (rule kept_disjoint [OF keys(2) dc(3)])
  moreover have "\<forall>x \<in> set cs. snd x = ?sz" using cache(3) ds(1) by auto
  moreover have "in_use_size h - of_nat ?sz = of_nat (?sz * length (bs1 @ bs2))"
    using inv by (simp add: heap_inv_def bl algebra_simps)
  moreover have "map_ok (bs1 @ bs2)" using mok by (auto simp: map_ok_append map_ok_Cons)
  ultimately show ?thesis
    using inv fl keys(4) dc(1) ds(3,4) by (auto simp: heap_inv_def bl)
qed

text \<open>Otherwise the merged fragment is published.\<close>

lemma heap_inv_publish:
  assumes inv: "heap_inv A binv live h" and bl: "block_list h = bs1 @ (bb, fs) # bs2"
    and cur: "cursor_ok bb (bb + ba_size A) (all_frees bs1 + all_frees bs2) U (fl, pre, (a, g), post)"
    and don: "lower_done (fl, pre, (a, g), post)" "upper_done (fl, pre, (a, g), post)" and ne: "pre @ post \<noteq> []"
  defines "h' \<equiv> h\<lparr>free_list := mm_insert (fr_size g, a) fl,
      block_list := bs1 @ (bb, pre @ (a, g\<lparr>fr_free := Some (fr_size g, a)\<rparr>) # post) # bs2\<rparr>"
  shows "heap_inv A binv live h'"
    "used_regions h' = (\<Union>x \<in> set bs1. useds (snd x)) \<union> U \<union> (\<Union>x \<in> set bs2. useds (snd x))"
proof -
  let ?g = "g\<lparr>fr_free := Some (fr_size g, a)\<rparr>"
  let ?fs = "pre @ (a, ?g) # post"
  have g: "isFree ?g" "fr_size ?g = fr_size g" by (simp_all add: isFree_def)
  have bok': "block_ok (ba_size A) (bb, ?fs)" using cursor_final [OF cur don ne] by (simp add: block_ok_def)
  have "sorted (map fst (mm_insert (fr_size g, a) fl))"
    "mset (mm_insert (fr_size g, a) fl) = all_frees bs1 + frees ?fs + all_frees bs2"
    using cur g by (simp_all add: cursor_ok_def sorted_mm_insert)
  from heap_inv_replace [OF inv bl bok' this] show "heap_inv A binv live h'" by (simp add: h'_def)
  have "useds ?fs = U" using cur g by (simp add: cursor_ok_def)
  moreover have "used_regions h' = (\<Union>x \<in> set bs1. useds (snd x)) \<union> useds ?fs \<union> (\<Union>x \<in> set bs2. useds (snd x))"
    by (rule used_regions_split) (simp add: h'_def)
  ultimately show "used_regions h' = (\<Union>x \<in> set bs1. useds (snd x)) \<union> U \<union> (\<Union>x \<in> set bs2. useds (snd x))"
    by simp
qed

lemma others_of_used:
  assumes inv: "heap_inv A binv live h" and bl: "block_list h = bs1 @ (bb, fs1 @ (p, f) # fs2) # bs2"
    and f: "\<not> isFree f"
  shows "used_regions h - {(p, fr_size f)}
    = (\<Union>x \<in> set bs1. useds (snd x)) \<union> (useds fs1 \<union> useds fs2) \<union> (\<Union>x \<in> set bs2. useds (snd x))"
proof -
  let ?O = "(\<Union>x \<in> set bs1. useds (snd x)) \<union> (useds fs1 \<union> useds fs2) \<union> (\<Union>x \<in> set bs2. useds (snd x))"
  have b: "binv (block_alloc h)" using inv by (simp add: heap_inv_def)
  have "block_ok (ba_size A) (bb, fs1 @ (p, f) # fs2)" using inv bl by (simp add: heap_inv_def)
  then have "0 < fr_size f" using tiles_split(3) by (auto simp: block_ok_def)
  then have "(p, fr_size f) \<notin> ?O"
    using others_apart [OF inv bl disj [OF b], of p "fr_size f"] by fastforce
  moreover have "used_regions h = insert (p, fr_size f) ?O"
    unfolding used_regions_split [OF bl] using f by auto
  ultimately show ?thesis by simp
qed

lemma heap_free_used:
  assumes inv: "heap_inv A binv live h" and used: "(p, n) \<in> used_regions h" and p: "p \<noteq> 0"
  shows "\<exists>h'. heap_free A p h = Some (True, h') \<and> heap_inv A binv live h'
           \<and> used_regions h' = used_regions h - {(p, n)}"
proof -
  have b: "binv (block_alloc h)" using inv by (simp add: heap_inv_def)
  obtain bs1 bb fs1 f fs2 bs2 where bl: "block_list h = bs1 @ (bb, fs1 @ (p, f) # fs2) # bs2"
    and f: "\<not> isFree f" "fr_size f = n" by (rule used_split [OF inv used])
  note look = used_lookup [OF inv bl disj [OF b], unfolded bl]
  note U = others_of_used [OF inv bl f(1), unfolded f(2)]
  have mok: "map_ok (bs1 @ (bb, fs1 @ (p, f) # fs2) # bs2)" using inv bl by (simp add: heap_inv_def)
  obtain c1 where c1: "merge_lower (free_list h, fs1, (p, f), fs2) = Some c1"
      "cursor_ok bb (bb + ba_size A) (all_frees bs1 + all_frees bs2) (useds fs1 \<union> useds fs2) c1" "lower_done c1"
    using merge_lower_ok [OF cursor_start [OF inv bl f(1)]] by blast
  obtain c2 where c2: "merge_upper c1 = Some c2"
      "cursor_ok bb (bb + ba_size A) (all_frees bs1 + all_frees bs2) (useds fs1 \<union> useds fs2) c2"
      "lower_done c2" "upper_done c2"
    using merge_upper_ok [OF c1(2,3)] by blast
  obtain fl pre a g post where c: "c2 = (fl, pre, (a, g), post)" by (metis prod.collapse)
  note cur = c2(2) [unfolded c]
  show ?thesis
  proof (cases "pre @ post = []")
    case True
    then have whole: "a = bb" "fr_size g = ba_size A" using cur by (auto simp: cursor_ok_def)
    obtain cs csz b' where ev: "evict A (in_use_size h - of_nat (ba_size A))
        (block_cache h @ [(bb, ba_size A)], cache_size h + of_nat (ba_size A), block_alloc h) = (cs, csz, b')"
      by (metis prod.collapse)
    have fl: "sorted (map fst fl)" "mset fl = all_frees (bs1 @ bs2)"
      using cur True by (simp_all add: cursor_ok_def)
    show ?thesis
      using p f(1) True whole ev am_erase_split [OF mok] heap_inv_cache_block [OF inv bl fl ev] U cur
      by (simp add: heap_free_def look c1(1) c2(1) c Let_def bl) (auto simp: used_regions_def cursor_ok_def)
  next
    case False
    note pub = heap_inv_publish [OF inv bl cur c2(3,4) [unfolded c] False]
    have "heap_free A p h = Some (True, h\<lparr>free_list := mm_insert (fr_size g, a) fl,
        block_list := bs1 @ (bb, pre @ (a, g\<lparr>fr_free := Some (fr_size g, a)\<rparr>) # post) # bs2\<rparr>)"
      using p f(1) replace_block [OF mok] False
      by (cases "pre = []"; simp add: heap_free_def look c1(1) c2(1) c Let_def bl)
    then show ?thesis using pub U by simp
  qed
qed

end

context block_source
begin

lemma used_region_unique:
  assumes inv: "heap_inv A binv live h" and "(p, m) \<in> used_regions h" "(p, n) \<in> used_regions h"
  shows "m = n"
proof (rule ccontr)
  assume ne: "m \<noteq> n"
  have b: "binv (block_alloc h)" using inv by (simp add: heap_inv_def)
  obtain bs1 bb fs1 f fs2 bs2 where bl: "block_list h = bs1 @ (bb, fs1 @ (p, f) # fs2) # bs2"
    and f: "\<not> isFree f" "fr_size f = n" by (rule used_split [OF inv assms(3)])
  have bok: "\<forall>x \<in> set (block_list h). block_ok (ba_size A) x" using inv by (simp add: heap_inv_def)
  then have "block_ok (ba_size A) (bb, fs1 @ (p, f) # fs2)" using bl by simp
  then have pos: "0 < n" using tiles_split(3) f(2) by (auto simp: block_ok_def)
  have mpos: "0 < m"
  proof -
    obtain x where x: "x \<in> set (block_list h)" "(p, m) \<in> useds (snd x)"
      using assms(2) by (auto simp: used_regions_def)
    then show ?thesis using useds_in_block [of "ba_size A" "fst x" "snd x" p m] bok by auto
  qed
  have "(p, m) \<in> used_regions h - {(p, fr_size f)}" using assms(2) ne f(2) by simp
  then have "p + fr_size f \<le> p \<or> p + m \<le> p"
    unfolding others_of_used [OF inv bl f(1)] by (rule others_apart [OF inv bl disj [OF b]])
  then show False using pos mpos f(2) by simp
qed

end

section \<open>Allocation through the block allocator\<close>

context block_source
begin

text \<open>Taking the last cached block, or a new one, out of the pool leaves a spare block.\<close>

lemma spare_from_cache:
  assumes inv: "heap_inv A binv live h" and ne: "block_cache h \<noteq> []"
  defines "base \<equiv> fst (last (block_cache h))"
  defines "h1 \<equiv> h\<lparr>block_cache := butlast (block_cache h), cache_size := cache_size h - of_nat (ba_size A)\<rparr>"
  shows "last (block_cache h) = (base, ba_size A)" "base \<in> live (block_alloc h1)"
    "heap_inv A binv (\<lambda>b. live b - {base}) h1"
proof -
  obtain cs where cs: "block_cache h = cs @ [last (block_cache h)]" using ne by (metis append_butlast_last_id)
  have "snd (last (block_cache h)) = ba_size A" using inv ne by (simp add: heap_inv_def)
  then show l: "last (block_cache h) = (base, ba_size A)" by (simp add: base_def prod_eq_iff)
  have c: "block_cache h = cs @ [(base, ba_size A)]" using cs l by simp
  then have "base \<in> live (block_alloc h)" using inv by (auto simp: heap_inv_def)
  then show "base \<in> live (block_alloc h1)" by (simp add: h1_def)
  show "heap_inv A binv (\<lambda>b. live b - {base}) h1"
    using inv unfolding h1_def heap_inv_def c by (auto simp: algebra_simps)
qed

lemma spare_from_alloc:
  assumes inv: "heap_inv A binv live h" and dev: "dev_ok d" and n: "n \<le> ba_size A"
  obtains p sz b where "ba_alloc A n d (block_alloc h) = Some (p, sz, b)"
    "p = 0 \<longrightarrow> (\<forall>x. heap_inv A binv live (h\<lparr>block_alloc := b, pim_base := x\<rparr>))"
    "p \<noteq> 0 \<longrightarrow> sz = ba_size A \<and> p \<in> live b
       \<and> (\<forall>x. heap_inv A binv (\<lambda>b. live b - {p}) (h\<lparr>block_alloc := b, pim_base := x\<rparr>))"
proof -
  have b: "binv (block_alloc h)" using inv by (simp add: heap_inv_def)
  obtain p sz b where r: "ba_alloc A n d (block_alloc h) = Some (p, sz, b)" "binv b"
      "if p = 0 then live b = live (block_alloc h)
       else p \<notin> live (block_alloc h) \<and> sz = ba_size A \<and> live b = insert p (live (block_alloc h))"
    using alloc_ok [OF b dev n] by blast
  have "heap_inv A binv live (h\<lparr>block_alloc := b, pim_base := x\<rparr>)" if "p = 0" for x
    using inv r that by (simp add: heap_inv_def)
  moreover have "heap_inv A binv (\<lambda>b. live b - {p}) (h\<lparr>block_alloc := b, pim_base := x\<rparr>)" if "p \<noteq> 0" for x
  proof -
    have "live b - {p} = live (block_alloc h)" using r that by auto
    then show ?thesis using inv r that by (simp add: heap_inv_def)
  qed
  ultimately show ?thesis using that r by (cases "p = 0") auto
qed

lemma alloc_result_frame:
  "alloc_result A binv live n h1 p h' \<Longrightarrow> block_list h1 = block_list h \<Longrightarrow> alloc_result A binv live n h p h'"
  by (simp add: alloc_result_def used_regions_def)

text \<open>Every allocation of a positive size either is refused or hands out a fresh region.\<close>

lemma heap_alloc_spec:
  assumes inv: "heap_inv A binv live h" and dev: "dev_ok d" and bytes: "0 < bytes"
  shows "\<exists>p h'. heap_alloc A bytes d h = Some (p, h')
    \<and> (if p = 0 then heap_inv A binv live h' \<and> used_regions h' = used_regions h
        else alloc_result A binv live (get_aligned_bytes bytes) h p h')"
proof -
  let ?n = "get_aligned_bytes bytes" and ?sz = "ba_size A"
  have n: "0 < ?n" by (rule aligned_pos [OF bytes])
  have b: "binv (block_alloc h)" using inv by (simp add: heap_inv_def)
  consider "?sz < ?n" | "?n \<le> ?sz" by linarith
  then show ?thesis
  proof cases
    case 1
    then show ?thesis using inv by (simp add: heap_alloc_def Let_def)
  next
    case small: 2
    show ?thesis
    proof (cases "mm_lower_bound ?n (free_list h)")
      case (Some e)
      obtain m p where e: "e = (m, p)" by (cases e)
      note mm = mm_lower_bound_in [OF Some [unfolded e]]
      obtain h' where h': "alloc_fragment ?n (m, p) h = Some (p, h')" "alloc_result A binv live ?n h p h'"
        using alloc_fragment_spec [OF inv disj [OF b] _ n] mm by blast
      then have "p \<noteq> 0"
      proof -
        obtain c where "c \<in> live (block_alloc h')" "c \<le> p" using h'(2) by (auto simp: alloc_result_def)
        moreover have "0 \<notin> live (block_alloc h')" using live_ok h'(2) by (simp add: alloc_result_def heap_inv_def)
        ultimately show ?thesis by (cases "c = 0") auto
      qed
      with h' small show ?thesis by (simp add: heap_alloc_def Let_def Some e)
    next
      case None
      show ?thesis
      proof (cases "block_cache h = []")
        case False
        obtain p where l: "last (block_cache h) = (p, ?sz)" using spare_from_cache(1) [OF inv False] by blast
        note sp = spare_from_cache(2,3) [OF inv False, unfolded l fst_conv]
        let ?h1 = "h\<lparr>block_cache := butlast (block_cache h), cache_size := cache_size h - of_nat ?sz\<rparr>"
        have "p \<in> live (block_alloc h)" "0 \<notin> live (block_alloc h)" using sp(1) live_ok [OF b] by simp_all
        then have "p \<noteq> 0" by metis
        moreover obtain h' where h': "alloc_block ?n p ?sz ?h1 = Some (p, h')"
            "alloc_result A binv live ?n ?h1 p h'"
          using alloc_block_spec [OF sp(2,1) _ n small] disj [OF b] by auto
        moreover have "alloc_result A binv live ?n h p h'" by (rule alloc_result_frame [OF h'(2)]) simp
        moreover have "heap_alloc A bytes d h = alloc_block ?n p ?sz ?h1"
          using small False None by (simp only: heap_alloc_def Let_def l split) simp
        ultimately show ?thesis by simp
      next
        case True
        obtain p sz b' where r: "ba_alloc A ?n d (block_alloc h) = Some (p, sz, b')"
          and z: "p = 0 \<longrightarrow> (\<forall>x. heap_inv A binv live (h\<lparr>block_alloc := b', pim_base := x\<rparr>))"
          and nz: "p \<noteq> 0 \<longrightarrow> sz = ba_size A \<and> p \<in> live b'
              \<and> (\<forall>x. heap_inv A binv (\<lambda>b. live b - {p}) (h\<lparr>block_alloc := b', pim_base := x\<rparr>))"
          by (rule spare_from_alloc [OF inv dev small])
        let ?h1 = "h\<lparr>block_alloc := b', pim_base := ba_pim_base A b'\<rparr>"
        show ?thesis
        proof (cases "p = 0")
          case True
          then show ?thesis using small None \<open>block_cache h = []\<close> r z
            by (simp add: heap_alloc_def Let_def used_regions_def)
        next
          case False
          have "binv b'" using nz False by (auto simp: heap_inv_def)
          then obtain h' where h': "alloc_block ?n p ?sz ?h1 = Some (p, h')" "alloc_result A binv live ?n ?h1 p h'"
            using alloc_block_spec [of A binv live p ?h1 ?n] nz False disj n small by auto
          moreover have "alloc_result A binv live ?n h p h'" by (rule alloc_result_frame [OF h'(2)]) simp
          moreover have "heap_alloc A bytes d h = alloc_block ?n p ?sz ?h1"
            using False small None \<open>block_cache h = []\<close> r nz False by (simp add: heap_alloc_def Let_def)
          ultimately show ?thesis using False by simp
        qed
      qed
    qed
  qed
qed

text \<open>A release either gives back exactly the region at the pointer or is refused and changes nothing.\<close>

lemma heap_free_spec:
  assumes "heap_inv A binv live h"
  shows "\<exists>ok h'. heap_free A p h = Some (ok, h') \<and> heap_inv A binv live h'
    \<and> used_regions h' = {r \<in> used_regions h. fst r \<noteq> p}
    \<and> (ok \<longleftrightarrow> p = 0 \<or> (\<exists>n. (p, n) \<in> used_regions h))"
proof -
  have nz: "(0, n) \<notin> used_regions h" for n
  proof
    assume u: "(0, n) \<in> used_regions h"
    then obtain x where x: "x \<in> set (block_list h)" "(0, n) \<in> useds (snd x)" by (auto simp: used_regions_def)
    have "block_ok (ba_size A) (fst x, snd x)" using assms x(1) by (simp add: heap_inv_def)
    from useds_in_block [OF this x(2)] have "fst x = 0" by simp
    then have "0 \<in> live (block_alloc h)" using block_live [OF assms x(1)] by simp
    then show False using live_ok assms by (auto simp: heap_inv_def)
  qed
  consider "p = 0" | n where "p \<noteq> 0" "(p, n) \<in> used_regions h" | "p \<noteq> 0" "\<And>n. (p, n) \<notin> used_regions h" by blast
  then show ?thesis
  proof cases
    case 1
    have "fst r \<noteq> 0" if "r \<in> used_regions h" for r using nz [of "snd r"] that by (metis prod.collapse)
    then have "{r \<in> used_regions h. fst r \<noteq> p} = used_regions h" using 1 by blast
    then show ?thesis using 1 assms by (intro exI [of _ True] exI [of _ h]) (simp add: heap_free_def)
  next
    case 2
    have only: "r = (p, n)" if "r \<in> used_regions h" "fst r = p" for r
      using used_region_unique [OF assms _ 2(2), of "snd r"] that by (metis prod.collapse)
    have "used_regions h - {(p, n)} = {r \<in> used_regions h. fst r \<noteq> p}"
    proof (rule set_eqI)
      fix r show "r \<in> used_regions h - {(p, n)} \<longleftrightarrow> r \<in> {r \<in> used_regions h. fst r \<noteq> p}"
        using only [of r] by (cases "fst r = p") auto
    qed
    with heap_free_used [OF assms 2(2,1)] obtain h' where "heap_free A p h = Some (True, h')"
      "heap_inv A binv live h'" "used_regions h' = {r \<in> used_regions h. fst r \<noteq> p}" by auto
    then show ?thesis using 2(2) by auto
  next
    case 3
    then have "{r \<in> used_regions h. fst r \<noteq> p} = used_regions h" by auto
    then show ?thesis using heap_free_other [OF assms 3] 3 assms by (intro exI [of _ False] exI [of _ h]) simp
  qed
qed

end

section \<open>Reachable heaps\<close>

inductive heap_reach :: "'b BlockOps \<Rightarrow> ('b \<Rightarrow> bool) \<Rightarrow> ('b \<Rightarrow> addr set) \<Rightarrow> (int \<Rightarrow> bool) \<Rightarrow> 'b Heap \<Rightarrow> bool"
  for A binv live dev_ok where
  reach_init: "binv b \<Longrightarrow> live b = {} \<Longrightarrow> heap_reach A binv live dev_ok (heap_init b)"
| reach_alloc: "heap_reach A binv live dev_ok h \<Longrightarrow> dev_ok d \<Longrightarrow> 0 < n \<Longrightarrow> heap_alloc A n d h = Some (p, h')
    \<Longrightarrow> heap_reach A binv live dev_ok h'"
| reach_free: "heap_reach A binv live dev_ok h \<Longrightarrow> heap_free A p h = Some (ok, h')
    \<Longrightarrow> heap_reach A binv live dev_ok h'"

context block_source
begin

lemma heap_init_inv: "binv b \<Longrightarrow> live b = {} \<Longrightarrow> heap_inv A binv live (heap_init b)"
  by (simp add: heap_inv_def heap_init_def map_ok_def)

lemma reach_inv: "heap_reach A binv live dev_ok h \<Longrightarrow> heap_inv A binv live h"
proof (induction rule: heap_reach.induct)
  case (reach_init b)
  then show ?case by (rule heap_init_inv)
next
  case (reach_alloc h d n p h')
  then show ?case using heap_alloc_spec [of h d n] by (auto simp: alloc_result_def split: if_splits)
next
  case (reach_free h p ok h')
  then show ?case using heap_free_spec [of h p] by auto
qed

lemma used_disjoint:
  assumes inv: "heap_inv A binv live h" and "(p, m) \<in> used_regions h" "(q, n) \<in> used_regions h" "(p, m) \<noteq> (q, n)"
  shows "p + m \<le> q \<or> q + n \<le> p"
proof -
  have b: "binv (block_alloc h)" using inv by (simp add: heap_inv_def)
  obtain bs1 bb fs1 f fs2 bs2 where bl: "block_list h = bs1 @ (bb, fs1 @ (p, f) # fs2) # bs2"
    and f: "\<not> isFree f" "fr_size f = m" by (rule used_split [OF inv assms(2)])
  have "(q, n) \<in> used_regions h - {(p, fr_size f)}" using assms(3,4) f(2) by auto
  then show ?thesis
    unfolding others_of_used [OF inv bl f(1)] using others_apart [OF inv bl disj [OF b]] f(2) by simp
qed

lemma used_in_live:
  assumes "heap_inv A binv live h" "(p, n) \<in> used_regions h"
  shows "\<exists>b \<in> live (block_alloc h). b \<le> p \<and> p + n \<le> b + ba_size A"
proof -
  obtain x where x: "x \<in> set (block_list h)" "(p, n) \<in> useds (snd x)" using assms(2) by (auto simp: used_regions_def)
  have "block_ok (ba_size A) (fst x, snd x)" using assms(1) x(1) by (simp add: heap_inv_def)
  from useds_in_block [OF this x(2)] block_live [OF assms(1) x(1)] show ?thesis by auto
qed

text \<open>An allocation followed by its release gives back the regions as they were.\<close>

lemma alloc_free_roundtrip:
  assumes inv: "heap_inv A binv live h" and "dev_ok d" "0 < n" "heap_alloc A n d h = Some (p, h')" "p \<noteq> 0"
  shows "\<exists>h''. heap_free A p h' = Some (True, h'') \<and> heap_inv A binv live h''
           \<and> used_regions h'' = used_regions h"
proof -
  have r: "alloc_result A binv live (get_aligned_bytes n) h p h'"
    using heap_alloc_spec [OF assms(1-3)] assms(4,5) by auto
  let ?r = "(p, get_aligned_bytes n)"
  have "?r \<notin> used_regions h"
    using r aligned_pos [OF assms(3)] by (fastforce simp: alloc_result_def)
  then have "used_regions h' - {?r} = used_regions h" using r by (simp add: alloc_result_def)
  moreover have "heap_inv A binv live h'" "?r \<in> used_regions h'" using r by (simp_all add: alloc_result_def)
  ultimately show ?thesis using heap_free_used [OF _ _ assms(5), of h' "get_aligned_bytes n"] by simp
qed

end

end
