(* ===== verification/MemManager.thy ===== *)
theory MemManager
  imports PimTypes
begin

text \<open>
  The interface \<open>IPimMemoryManager\<close> (\<open>runtime/include/manager/IPimMemoryManager.h\<close>) as a record of
  operations on a state of the manager, with the contract its clients rely on as the locale
  \<open>memory_manager\<close>: what allocating and releasing a buffer in PIM memory does to the regions held. The
  HIP and the OpenCL manager interpret the locale; the runtime is its client. \<open>None\<close> is a call that does
  not return: a failed assertion, an abort, an exception or undefined behaviour.
\<close>

section \<open>Parameters of a strided copy\<close>

record PimCopy3D =
  src_x_in_bytes :: nat
  src_y :: nat
  src_z :: nat
  src_mem_type :: PimMemType
  src_ptr :: addr
  src_pitch :: nat
  src_height :: nat
  src_bo :: "PimBo option"
  dst_x_in_bytes :: nat
  dst_y :: nat
  dst_z :: nat
  dst_mem_type :: PimMemType
  dst_ptr :: addr
  dst_pitch :: nat
  dst_height :: nat
  dst_bo :: "PimBo option"
  width_in_bytes :: nat
  slice_height :: nat
  slice_depth :: nat

section \<open>The interface\<close>

text \<open>
  An object passed by pointer and changed by the call is returned; \<open>*ptr\<close> of the pointer form of
  \<open>alloc_memory\<close> is passed in and returned.
\<close>

record 's MemOps =
  mm_initialize :: "'s \<Rightarrow> 's"
  mm_deinitialize :: "'s \<Rightarrow> 's"
  mm_alloc_memory :: "addr \<Rightarrow> nat \<Rightarrow> PimMemType \<Rightarrow> 's \<Rightarrow> (int \<times> addr \<times> 's) option"
  mm_alloc_memory_bo :: "PimBo \<Rightarrow> 's \<Rightarrow> (int \<times> PimBo \<times> 's) option"
  mm_free_memory :: "addr \<Rightarrow> PimMemType \<Rightarrow> 's \<Rightarrow> (int \<times> 's) option"
  mm_free_memory_bo :: "PimBo \<Rightarrow> 's \<Rightarrow> (int \<times> PimBo \<times> 's) option"
  mm_copy_memory :: "addr \<Rightarrow> addr \<Rightarrow> nat \<Rightarrow> PimMemCpyType \<Rightarrow> 's \<Rightarrow> (int \<times> 's) option"
  mm_copy_memory_bo :: "PimBo \<Rightarrow> PimBo \<Rightarrow> PimMemCpyType \<Rightarrow> 's \<Rightarrow> (int \<times> 's) option"
  mm_copy_memory_3d :: "PimCopy3D \<Rightarrow> 's \<Rightarrow> (int \<times> 's) option"
  mm_convert_data_layout :: "PimBo \<Rightarrow> PimBo \<Rightarrow> bool \<Rightarrow> 's \<Rightarrow> (int \<times> PimBo \<times> 's) option"
  mm_set_gemm_order :: "PimGemmOrder \<Rightarrow> 's \<Rightarrow> 's"
  mm_get_base_memobj :: "'s \<Rightarrow> addr option"

section \<open>The contract\<close>

text \<open>
  \<open>held s\<close> maps the handle of a live buffer in PIM memory to its region (start, length). Two handles
  never share a byte.
\<close>

definition regions_apart :: "(addr \<rightharpoonup> addr \<times> nat) \<Rightarrow> bool" where
  "regions_apart H \<longleftrightarrow>
     (\<forall>p q a m b n. H p = Some (a, m) \<and> H q = Some (b, n) \<and> p \<noteq> q \<longrightarrow> a + m \<le> b \<or> b + n \<le> a)"

lemma regions_apartD:
  "regions_apart H \<Longrightarrow> H p = Some (a, m) \<Longrightarrow> H q = Some (b, n) \<Longrightarrow> p \<noteq> q \<Longrightarrow> a + m \<le> b \<or> b + n \<le> a"
  unfolding regions_apart_def by blast

text \<open>The two outcomes of an allocation: memory is exhausted, or a new handle with a region of its own.\<close>

definition alloc_outcome :: "nat \<Rightarrow> (addr \<rightharpoonup> addr \<times> nat) \<Rightarrow> addr \<Rightarrow> (addr \<rightharpoonup> addr \<times> nat) \<Rightarrow> bool" where
  "alloc_outcome n H p H' \<longleftrightarrow>
     (if p = 0 then H' = H else H p = None \<and> (\<exists>a m. n \<le> m \<and> H' = H(p \<mapsto> (a, m))))"

locale memory_manager =
  fixes M :: "'s MemOps" and inv :: "'s \<Rightarrow> bool" and held :: "'s \<Rightarrow> addr \<rightharpoonup> addr \<times> nat" and fits :: "nat \<Rightarrow> bool"
  assumes held_apart: "inv s \<Longrightarrow> regions_apart (held s) \<and> held s 0 = None"
    and alloc_bo_ok: "inv s \<Longrightarrow> mem_type bo = MEM_TYPE_PIM \<Longrightarrow> fits (bo_size bo) \<Longrightarrow>
      mm_alloc_memory_bo M bo s = Some (ret, bo', s') \<Longrightarrow>
      inv s' \<and> ret = 0 \<and> bo' = bo\<lparr>bo_data := bo_data bo'\<rparr> \<and> alloc_outcome (bo_size bo) (held s) (bo_data bo') (held s')"
    and free_bo_ok: "inv s \<Longrightarrow> mem_type bo = MEM_TYPE_PIM \<Longrightarrow> held s (bo_data bo) \<noteq> None \<Longrightarrow>
      \<exists>bo' s'. mm_free_memory_bo M bo s = Some (0, bo', s') \<and> inv s' \<and> held s' = (held s)(bo_data bo := None)"

end
