(* ===== verification/HeapRegions.thy ===== *)
theory HeapRegions
  imports HeapAlloc MemManager
begin

text \<open>
  The regions a heap has handed out, as a map from start address to length: the view of the heap
  that the memory managers need for their contract.
\<close>

definition used_list :: "'b Heap \<Rightarrow> (addr \<times> nat) list" where
  "used_list h = concat (map (\<lambda>(b, fs). map (\<lambda>(a, f). (a, fr_size f)) (filter (\<lambda>x. \<not> isFree (snd x)) fs)) (block_list h))"

definition region_at :: "'b Heap \<Rightarrow> addr \<rightharpoonup> nat" where
  "region_at h = map_of (used_list h)"

lemma set_used_list: "set (used_list h) = used_regions h"
  by (auto simp: used_list_def used_regions_def useds_def image_iff split: prod.splits) force+

lemma map_eqI:
  assumes "\<And>x y. f x = Some y \<longleftrightarrow> g x = Some y"
  shows "f = g"
proof
  fix x show "f x = g x" by (metis assms not_Some_eq)
qed

text \<open>What an operation of the heap does to its block allocator.\<close>

lemma heap_alloc_block:
  assumes "heap_alloc A n d h = Some (p, h')"
  shows "block_alloc h' = block_alloc h \<and> pim_base h' = pim_base h
    \<or> (\<exists>q sz. ba_alloc A (get_aligned_bytes n) d (block_alloc h) = Some (q, sz, block_alloc h')
        \<and> pim_base h' = ba_pim_base A (block_alloc h'))"
  using assms
  by (auto simp: heap_alloc_def alloc_fragment_def alloc_block_def Let_def split: if_splits option.splits prod.splits)

lemma evict_block:
  assumes "P b" "\<And>a n b. P b \<Longrightarrow> P (ba_free A a n b)"
  shows "P (snd (snd (evict A in_use (cs, csize, b))))"
  using assms
  by (induction A in_use "(cs, csize, b)" arbitrary: cs csize b rule: evict.induct) auto

lemma heap_free_block:
  assumes "heap_free A p h = Some (ok, h')" "P (block_alloc h)" "\<And>a n b. P b \<Longrightarrow> P (ba_free A a n b)"
  shows "P (block_alloc h') \<and> pim_base h' = pim_base h"
  using assms(1) evict_block [of P, OF assms(2,3)] assms(2)
  by (auto simp: heap_free_def Let_def split: if_splits option.splits prod.splits) (metis snd_conv)+

context block_source
begin

lemma used_pos:
  assumes "heap_inv A binv live h" "(p, n) \<in> used_regions h"
  shows "0 < n" "0 < p"
proof -
  obtain x where x: "x \<in> set (block_list h)" "(p, n) \<in> useds (snd x)" using assms(2) by (auto simp: used_regions_def)
  then obtain f where f: "(p, f) \<in> set (snd x)" "fr_size f = n" by (auto simp: in_useds)
  have "tiles (fst x) (snd x) (fst x + ba_size A)"
    using assms(1) x(1) by (auto simp: heap_inv_def block_ok_def)
  from tiles_bounds [OF this f(1)] have t: "fst x \<le> p" "0 < n" using f(2) by simp_all
  then show "0 < n" by simp
  have "binv (block_alloc h)" using assms(1) by (simp add: heap_inv_def)
  then have "0 \<notin> live (block_alloc h)" using live_ok by blast
  moreover have "fst x \<in> live (block_alloc h)" by (rule block_live [OF assms(1) x(1)])
  ultimately show "0 < p" using t(1) by (cases "fst x") auto
qed

lemma region_at_iff:
  assumes "heap_inv A binv live h"
  shows "region_at h p = Some n \<longleftrightarrow> (p, n) \<in> used_regions h"
proof
  assume "region_at h p = Some n"
  then show "(p, n) \<in> used_regions h" unfolding region_at_def by (metis map_of_SomeD set_used_list)
next
  assume u: "(p, n) \<in> used_regions h"
  then obtain m where m: "region_at h p = Some m"
    unfolding region_at_def by (metis set_used_list weak_map_of_SomeI)
  then have "(p, m) \<in> used_regions h" unfolding region_at_def by (metis map_of_SomeD set_used_list)
  with u have "m = n" using used_disjoint [OF assms, of p m p n] used_pos(1) [OF assms] by fastforce
  with m show "region_at h p = Some n" by simp
qed

lemma region_at_zero: "heap_inv A binv live h \<Longrightarrow> region_at h 0 = None"
  using region_at_iff used_pos(2) by (metis not_less0 option.exhaust)

lemma region_at_alloc:
  assumes "heap_inv A binv live h" "dev_ok d" "0 < n" "heap_alloc A n d h = Some (p, h')"
  shows "heap_inv A binv live h' \<and>
    (if p = 0 then region_at h' = region_at h
     else region_at h p = None \<and> region_at h' = (region_at h)(p \<mapsto> get_aligned_bytes n))"
proof (cases "p = 0")
  case True
  then have h': "heap_inv A binv live h'" "used_regions h' = used_regions h"
    using heap_alloc_spec [OF assms(1-3)] assms(4) by auto
  have "region_at h' = region_at h"
    by (rule map_eqI) (simp add: region_at_iff [OF h'(1)] region_at_iff [OF assms(1)] h'(2))
  then show ?thesis using True h'(1) by simp
next
  case False
  then have r: "alloc_result A binv live (get_aligned_bytes n) h p h'"
    using heap_alloc_spec [OF assms(1-3)] assms(4) by auto
  then have h': "heap_inv A binv live h'" "used_regions h' = insert (p, get_aligned_bytes n) (used_regions h)"
    by (simp_all add: alloc_result_def)
  have free: "(p, m) \<notin> used_regions h" for m
  proof
    assume m: "(p, m) \<in> used_regions h"
    with r have "p + get_aligned_bytes n \<le> p \<or> p + m \<le> p" by (auto simp: alloc_result_def)
    then show False using aligned_pos [OF assms(3)] used_pos(1) [OF assms(1) m] by simp
  qed
  have none: "region_at h p = None"
    using free region_at_iff [OF assms(1), of p] by (cases "region_at h p") auto
  have "region_at h' = (region_at h)(p \<mapsto> get_aligned_bytes n)"
    by (rule map_eqI) (auto simp: region_at_iff [OF h'(1)] region_at_iff [OF assms(1)] h'(2) free)
  then show ?thesis using False h'(1) none by simp
qed

lemma region_at_free:
  assumes "heap_inv A binv live h" "region_at h p \<noteq> None"
  shows "\<exists>h'. heap_free A p h = Some (True, h') \<and> heap_inv A binv live h' \<and> region_at h' = (region_at h)(p := None)"
proof -
  obtain n where n: "(p, n) \<in> used_regions h" using assms region_at_iff [OF assms(1)] by blast
  obtain ok h' where f: "heap_free A p h = Some (ok, h')" "heap_inv A binv live h'"
    "used_regions h' = {r \<in> used_regions h. fst r \<noteq> p}" "ok \<longleftrightarrow> p = 0 \<or> (\<exists>n. (p, n) \<in> used_regions h)"
    using heap_free_spec [OF assms(1)] by blast
  have "region_at h' = (region_at h)(p := None)"
    by (rule map_eqI) (auto simp: region_at_iff [OF f(2)] region_at_iff [OF assms(1)] f(3))
  then show ?thesis using f(1,2,4) n by auto
qed

text \<open>As a table of regions the heap keeps them apart.\<close>

lemma region_at_apart:
  assumes "heap_inv A binv live h"
  shows "regions_apart (\<lambda>p. map_option (\<lambda>n. (p, n)) (region_at h p))"
  unfolding regions_apart_def
  using used_disjoint [OF assms] by (auto simp: region_at_iff [OF assms])

end

end
