(* ===== verification/BlockAlloc.thy ===== *)
theory BlockAlloc
  imports HeapRegions
begin

text \<open>
  The two block allocators behind the heap: \<open>HipBlockAllocator\<close> and \<open>OclBlockAllocator\<close> (under
  \<open>runtime/source/manager\<close>). Their state is the global tables \<open>pim_alloc_done\<close> and
  \<open>g_pim_base_addr\<close>, the table of host devices, and the outside world: what \<open>hipMalloc\<close>,
  \<open>fmm_map_pim\<close> and \<open>clEnqueueMapBuffer\<close> answer for a device, and which blocks are mapped. Both
  satisfy the laws of \<open>block_source\<close> as long as the outside world hands out disjoint blocks, so the
  heap's properties hold for both back ends.
\<close>

section \<open>The HIP allocator\<close>

definition MAX_NUM_GPUS :: int where
  "MAX_NUM_GPUS = 10"

datatype BuildTarget = EMULATOR | RADEON7 | TARGET_16G

fun hip_block_size :: "BuildTarget \<Rightarrow> nat" where
  "hip_block_size EMULATOR = 536870912"
| "hip_block_size RADEON7 = 8589934592"
| "hip_block_size TARGET_16G = 17179869184"

record HostInfo =
  node_id :: nat
  host_id :: nat

record HipDev =
  pim_alloc_done :: "int \<Rightarrow> bool"
  g_pim_base_addr :: "int \<Rightarrow> addr"
  host_devices :: "int \<Rightarrow> HostInfo option"
  hipMalloc :: "int \<Rightarrow> nat \<Rightarrow> addr option"
  fmm_map_pim :: "nat \<Rightarrow> nat \<Rightarrow> nat \<Rightarrow> addr"
  mapped :: "addr set"

definition in_table :: "int \<Rightarrow> bool" where
  "in_table d \<longleftrightarrow> 0 \<le> d \<and> d < MAX_NUM_GPUS"

text \<open>A failed \<open>hipMalloc\<close> of the emulator build returns -1, the largest address.\<close>

definition map_block :: "BuildTarget \<Rightarrow> HipDev \<Rightarrow> nat \<Rightarrow> int \<Rightarrow> (bool \<times> addr) option" where
  "map_block t s bsize host =
    (if t = EMULATOR then
       (case hipMalloc s host bsize of None \<Rightarrow> Some (False, 2 ^ 64 - 1) | Some ret \<Rightarrow> Some (True, ret))
     else case host_devices s host of
            None \<Rightarrow> None
          | Some hi \<Rightarrow> Some (True, fmm_map_pim s (node_id hi) (host_id hi) bsize))"

definition allocate_pim_block :: "BuildTarget \<Rightarrow> nat \<Rightarrow> int \<Rightarrow> HipDev \<Rightarrow> (addr \<times> HipDev) option" where
  "allocate_pim_block t bsize host s =
    (if \<not> in_table host then None
     else if pim_alloc_done s host then Some (0, s)
     else case map_block t s bsize host of
            None \<Rightarrow> None
          | Some (False, ret) \<Rightarrow> Some (ret, s)
          | Some (True, ret) \<Rightarrow>
              if ret \<noteq> 0
              then Some (ret, s\<lparr>pim_alloc_done := (pim_alloc_done s)(host := True),
                                g_pim_base_addr := (g_pim_base_addr s)(host := ret),
                                mapped := insert ret (mapped s)\<rparr>)
              else Some (ret, s))"

definition hip_ba_alloc :: "BuildTarget \<Rightarrow> nat \<Rightarrow> int \<Rightarrow> HipDev \<Rightarrow> (addr \<times> nat \<times> HipDev) option" where
  "hip_ba_alloc t request host s =
    (if hip_block_size t < request then None
     else case allocate_pim_block t (hip_block_size t) host s of
            None \<Rightarrow> None
          | Some (ret, s') \<Rightarrow> if ret = 0 then Some (0, 0, s') else Some (ret, hip_block_size t, s'))"

text \<open>\<open>free\<close> hands the block to the C library; the tables keep saying it is allocated.\<close>

definition hip_ba_free :: "addr \<Rightarrow> nat \<Rightarrow> HipDev \<Rightarrow> HipDev" where
  "hip_ba_free ptr len s = (if ptr = 0 \<or> len = 0 then s else s\<lparr>mapped := mapped s - {ptr}\<rparr>)"

definition HipBlockAllocator :: "BuildTarget \<Rightarrow> HipDev BlockOps" where
  "HipBlockAllocator t = \<lparr>ba_alloc = hip_ba_alloc t, ba_free = hip_ba_free, ba_size = hip_block_size t,
     ba_pim_base = (\<lambda>_. 0)\<rparr>"

text \<open>The answer the outside world gives for a device, and what is relied on: it succeeds, and
  answers for different devices are different, disjoint blocks.\<close>

definition hip_block_of :: "BuildTarget \<Rightarrow> HipDev \<Rightarrow> int \<Rightarrow> addr" where
  "hip_block_of t s d = (case map_block t s (hip_block_size t) d of Some (True, a) \<Rightarrow> a | _ \<Rightarrow> 0)"

definition hip_world_ok :: "BuildTarget \<Rightarrow> HipDev \<Rightarrow> bool" where
  "hip_world_ok t s \<longleftrightarrow>
     (\<forall>d. in_table d \<longrightarrow> (\<exists>a. map_block t s (hip_block_size t) d = Some (True, a)))
     \<and> (\<forall>d e. in_table d \<and> in_table e \<and> d \<noteq> e \<and> hip_block_of t s d \<noteq> 0 \<and> hip_block_of t s e \<noteq> 0 \<longrightarrow>
          hip_block_of t s d + hip_block_size t \<le> hip_block_of t s e
          \<or> hip_block_of t s e + hip_block_size t \<le> hip_block_of t s d)"

definition hip_binv :: "BuildTarget \<Rightarrow> HipDev \<Rightarrow> bool" where
  "hip_binv t s \<longleftrightarrow> hip_world_ok t s
     \<and> (\<forall>a \<in> mapped s. a \<noteq> 0 \<and> (\<exists>d. in_table d \<and> pim_alloc_done s d \<and> hip_block_of t s d = a))"

lemma hip_block_size_pos [simp]: "0 < hip_block_size t" "hip_block_size t \<noteq> 0"
  by (cases t; simp)+

lemma map_block_frame [simp]:
  "map_block t (s\<lparr>pim_alloc_done := x\<rparr>) = map_block t s"
  "map_block t (s\<lparr>g_pim_base_addr := y\<rparr>) = map_block t s"
  "map_block t (s\<lparr>mapped := z\<rparr>) = map_block t s"
  by (simp_all add: map_block_def fun_eq_iff split: option.splits)

lemma hip_block_of_frame [simp]:
  "hip_block_of t (s\<lparr>pim_alloc_done := x\<rparr>) = hip_block_of t s"
  "hip_block_of t (s\<lparr>g_pim_base_addr := y\<rparr>) = hip_block_of t s"
  "hip_block_of t (s\<lparr>mapped := z\<rparr>) = hip_block_of t s"
  by (simp_all add: hip_block_of_def fun_eq_iff)

lemma hip_world_frame [simp]:
  "hip_world_ok t (s\<lparr>pim_alloc_done := x\<rparr>) = hip_world_ok t s"
  "hip_world_ok t (s\<lparr>g_pim_base_addr := y\<rparr>) = hip_world_ok t s"
  "hip_world_ok t (s\<lparr>mapped := z\<rparr>) = hip_world_ok t s"
  by (simp_all add: hip_world_ok_def)

lemma hip_world_disjoint:
  assumes "hip_binv t s" "in_table d" "in_table e" "d \<noteq> e" "hip_block_of t s d \<noteq> 0" "hip_block_of t s e \<noteq> 0"
  shows "hip_block_of t s d + hip_block_size t \<le> hip_block_of t s e
    \<or> hip_block_of t s e + hip_block_size t \<le> hip_block_of t s d"
  using assms unfolding hip_binv_def hip_world_ok_def by blast

lemma hip_alloc_law:
  assumes "hip_binv t s" "in_table d" "n \<le> hip_block_size t"
  shows "\<exists>p sz s'. hip_ba_alloc t n d s = Some (p, sz, s') \<and> hip_binv t s'
      \<and> (if p = 0 then mapped s' = mapped s
          else p \<notin> mapped s \<and> sz = hip_block_size t \<and> mapped s' = insert p (mapped s))"
proof (cases "pim_alloc_done s d \<or> hip_block_of t s d = 0")
  case True
  obtain a where "map_block t s (hip_block_size t) d = Some (True, a)"
    using assms(1,2) by (auto simp: hip_binv_def hip_world_ok_def)
  with True assms show ?thesis
    by (auto simp: hip_ba_alloc_def allocate_pim_block_def hip_block_of_def)
next
  case False
  obtain a where a: "map_block t s (hip_block_size t) d = Some (True, a)"
    using assms(1,2) by (auto simp: hip_binv_def hip_world_ok_def)
  then have blk: "hip_block_of t s d = a" by (simp add: hip_block_of_def)
  with False have "a \<noteq> 0" by simp
  have "a \<notin> mapped s"
  proof
    assume "a \<in> mapped s"
    then obtain e where e: "in_table e" "pim_alloc_done s e" "hip_block_of t s e = a"
      using assms(1) by (auto simp: hip_binv_def)
    then have "d \<noteq> e" using False by auto
    then show False
      using hip_world_disjoint [OF assms(1,2) e(1)] e(3) blk \<open>a \<noteq> 0\<close> hip_block_size_pos(1) [of t] by simp
  qed
  then show ?thesis using assms False a blk \<open>a \<noteq> 0\<close>
    by (auto simp: hip_ba_alloc_def allocate_pim_block_def hip_binv_def)
qed

interpretation hip: block_source "HipBlockAllocator t" "hip_binv t" mapped in_table for t
proof
  show "0 < ba_size (HipBlockAllocator t)" by (simp add: HipBlockAllocator_def)
next
  fix s assume s: "hip_binv t s"
  have "p + hip_block_size t \<le> q \<or> q + hip_block_size t \<le> p" if pq: "p \<in> mapped s" "q \<in> mapped s" "p \<noteq> q" for p q
  proof -
    obtain d e where "in_table d" "hip_block_of t s d = p" "in_table e" "hip_block_of t s e = q" "p \<noteq> 0" "q \<noteq> 0"
      using s pq(1,2) unfolding hip_binv_def by blast
    with hip_world_disjoint [OF s, of d e] pq(3) show ?thesis by auto
  qed
  then show "disjoint_blocks (ba_size (HipBlockAllocator t)) (mapped s) \<and> 0 \<notin> mapped s"
    using s by (auto simp: disjoint_blocks_def HipBlockAllocator_def hip_binv_def)
next
  fix s d n assume "hip_binv t s" "in_table d" "n \<le> ba_size (HipBlockAllocator t)"
  then show "\<exists>p sz s'. ba_alloc (HipBlockAllocator t) n d s = Some (p, sz, s') \<and> hip_binv t s'
      \<and> (if p = 0 then mapped s' = mapped s
          else p \<notin> mapped s \<and> sz = ba_size (HipBlockAllocator t) \<and> mapped s' = insert p (mapped s))"
    unfolding HipBlockAllocator_def BlockOps.select_convs by (rule hip_alloc_law)
next
  fix s p assume "hip_binv t s" "p \<in> mapped s"
  then show "hip_binv t (ba_free (HipBlockAllocator t) p (ba_size (HipBlockAllocator t)) s)
      \<and> mapped (ba_free (HipBlockAllocator t) p (ba_size (HipBlockAllocator t)) s) = mapped s - {p}"
    by (auto simp: HipBlockAllocator_def hip_ba_free_def hip_binv_def)
qed

section \<open>The OpenCL allocator\<close>

definition ocl_block_size :: nat where
  "ocl_block_size = 1073741824"

text \<open>\<open>cl_map d\<close> gives the buffer object \<open>clCreateBuffer\<close> creates for device \<open>d\<close> and the address at which
  \<open>clEnqueueMapBuffer\<close> maps it; a failed call stops the program in \<open>cl_ok\<close>.\<close>

record OclDev =
  ocl_alloc_done :: "int \<Rightarrow> bool"
  ocl_base_addr :: "int \<Rightarrow> addr"
  cl_map :: "int \<Rightarrow> nat \<Rightarrow> (addr \<times> addr) option"
  base_memobject :: addr
  base_host_address :: addr
  ocl_mapped :: "addr set"

definition ocl_allocate_pim_block :: "nat \<Rightarrow> int \<Rightarrow> OclDev \<Rightarrow> (addr \<times> OclDev) option" where
  "ocl_allocate_pim_block bsize host s =
    (if \<not> in_table host then None
     else if ocl_alloc_done s host then Some (0, s)
     else case cl_map s host bsize of
            None \<Rightarrow> None
          | Some (mem, ret) \<Rightarrow>
              let s = s\<lparr>base_memobject := mem, base_host_address := ret\<rparr>
              in if ret \<noteq> 0
                 then Some (ret, s\<lparr>ocl_alloc_done := (ocl_alloc_done s)(host := True),
                                   ocl_base_addr := (ocl_base_addr s)(host := ret),
                                   ocl_mapped := insert ret (ocl_mapped s)\<rparr>)
                 else Some (ret, s))"

definition ocl_ba_alloc :: "nat \<Rightarrow> int \<Rightarrow> OclDev \<Rightarrow> (addr \<times> nat \<times> OclDev) option" where
  "ocl_ba_alloc request host s =
    (if ocl_block_size < request then None
     else case ocl_allocate_pim_block ocl_block_size host s of
            None \<Rightarrow> None
          | Some (ret, s') \<Rightarrow> if ret = 0 then Some (0, 0, s') else Some (ret, ocl_block_size, s'))"

text \<open>\<open>free\<close> ignores its arguments and releases the block mapped last.\<close>

definition ocl_ba_free :: "addr \<Rightarrow> nat \<Rightarrow> OclDev \<Rightarrow> OclDev" where
  "ocl_ba_free ptr len s = s\<lparr>ocl_mapped := ocl_mapped s - {base_host_address s}\<rparr>"

definition OclBlockAllocator :: "OclDev BlockOps" where
  "OclBlockAllocator = \<lparr>ba_alloc = ocl_ba_alloc, ba_free = ocl_ba_free, ba_size = ocl_block_size,
     ba_pim_base = base_memobject\<rparr>"

text \<open>The OpenCL allocator object belongs to one device, so at most one block of it is mapped, and
  it is the one \<open>base_host_address\<close> remembers.\<close>

definition ocl_binv :: "int \<Rightarrow> OclDev \<Rightarrow> bool" where
  "ocl_binv dev s \<longleftrightarrow> cl_map s dev ocl_block_size \<noteq> None
     \<and> (ocl_mapped s = {} \<or> ocl_alloc_done s dev \<and> ocl_mapped s = {base_host_address s})
     \<and> 0 \<notin> ocl_mapped s"

lemma ocl_alloc_law:
  assumes "ocl_binv dev s" "in_table dev" "n \<le> ocl_block_size"
  shows "\<exists>p sz s'. ocl_ba_alloc n dev s = Some (p, sz, s') \<and> ocl_binv dev s'
      \<and> (if p = 0 then ocl_mapped s' = ocl_mapped s
          else p \<notin> ocl_mapped s \<and> sz = ocl_block_size \<and> ocl_mapped s' = insert p (ocl_mapped s))"
proof -
  obtain m a where a: "cl_map s dev ocl_block_size = Some (m, a)" using assms(1) by (auto simp: ocl_binv_def)
  consider "ocl_alloc_done s dev" | "\<not> ocl_alloc_done s dev" "a = 0" | "\<not> ocl_alloc_done s dev" "a \<noteq> 0" by blast
  then show ?thesis
  proof cases
    case 1
    then show ?thesis using assms a by (simp add: ocl_ba_alloc_def ocl_allocate_pim_block_def)
  next
    case 2
    then show ?thesis using assms a
      by (simp add: ocl_ba_alloc_def ocl_allocate_pim_block_def Let_def ocl_binv_def)
  next
    case 3
    then have "ocl_mapped s = {}" using assms(1) by (simp add: ocl_binv_def)
    with 3 show ?thesis using assms a
      by (simp add: ocl_ba_alloc_def ocl_allocate_pim_block_def Let_def ocl_binv_def)
  qed
qed

interpretation ocl: block_source OclBlockAllocator "ocl_binv dev" ocl_mapped "\<lambda>d. in_table d \<and> d = dev" for dev
proof
  show "0 < ba_size OclBlockAllocator" by (simp add: OclBlockAllocator_def ocl_block_size_def)
next
  fix s assume "ocl_binv dev s"
  then have "(ocl_mapped s = {} \<or> ocl_mapped s = {base_host_address s}) \<and> 0 \<notin> ocl_mapped s"
    unfolding ocl_binv_def by blast
  then show "disjoint_blocks (ba_size OclBlockAllocator) (ocl_mapped s) \<and> 0 \<notin> ocl_mapped s"
    by (elim conjE disjE) (simp_all add: disjoint_blocks_def)
next
  fix s d n assume s: "ocl_binv dev s" and d: "in_table d \<and> d = dev" and n: "n \<le> ba_size OclBlockAllocator"
  have dev: "d = dev" "in_table dev" using d by auto
  show "\<exists>p sz s'. ba_alloc OclBlockAllocator n d s = Some (p, sz, s') \<and> ocl_binv dev s'
      \<and> (if p = 0 then ocl_mapped s' = ocl_mapped s
          else p \<notin> ocl_mapped s \<and> sz = ba_size OclBlockAllocator \<and> ocl_mapped s' = insert p (ocl_mapped s))"
    using ocl_alloc_law [OF s dev(2) n [unfolded OclBlockAllocator_def BlockOps.select_convs]]
    unfolding OclBlockAllocator_def BlockOps.select_convs dev(1) .
next
  fix s p assume s: "ocl_binv dev s" and "p \<in> ocl_mapped s"
  moreover have "ocl_mapped s = {} \<or> ocl_mapped s = {base_host_address s}"
    using s unfolding ocl_binv_def by blast
  ultimately have "ocl_mapped s = {p}" "base_host_address s = p" by auto
  with s show "ocl_binv dev (ba_free OclBlockAllocator p (ba_size OclBlockAllocator) s)
      \<and> ocl_mapped (ba_free OclBlockAllocator p (ba_size OclBlockAllocator) s) = ocl_mapped s - {p}"
    by (simp add: OclBlockAllocator_def ocl_ba_free_def ocl_binv_def)
qed

section \<open>Properties of the heap over the HIP allocator\<close>

text \<open>A world with one 512-MB block per device, for the concrete instances below.\<close>

definition hip_demo :: HipDev where
  "hip_demo = \<lparr>pim_alloc_done = (\<lambda>_. False), g_pim_base_addr = (\<lambda>_. 0), host_devices = (\<lambda>_. None),
     hipMalloc = (\<lambda>d n. Some (4294967296 * (nat d + 1))), fmm_map_pim = (\<lambda>_ _ _. 0), mapped = {}\<rparr>"

lemma hip_demo_block: "hip_block_of EMULATOR hip_demo d = 4294967296 * (nat d + 1)"
  by (simp add: hip_block_of_def map_block_def hip_demo_def)

lemma hip_demo_inv: "hip_binv EMULATOR hip_demo"
proof -
  have w: "\<exists>a. map_block EMULATOR hip_demo (hip_block_size EMULATOR) d = Some (True, a)" for d
    by (simp add: map_block_def hip_demo_def)
  have "4294967296 * (nat d + 1) + 536870912 \<le> 4294967296 * (nat e + 1)
      \<or> 4294967296 * (nat e + 1) + 536870912 \<le> 4294967296 * (nat d + 1)" if "in_table d" "in_table e" "d \<noteq> e" for d e
    using that by (cases "d < e") (auto simp: in_table_def)
  then show ?thesis using w by (simp add: hip_binv_def hip_world_ok_def hip_demo_block) (simp add: hip_demo_def)
qed

lemma hip_demo_reach: "heap_reach (HipBlockAllocator EMULATOR) (hip_binv EMULATOR) mapped in_table (heap_init hip_demo)"
  by (rule reach_init) (rule hip_demo_inv, simp add: hip_demo_def)





section \<open>Properties of the heap over the OpenCL allocator\<close>

definition ocl_demo :: OclDev where
  "ocl_demo = \<lparr>ocl_alloc_done = (\<lambda>_. False), ocl_base_addr = (\<lambda>_. 0), cl_map = (\<lambda>_ _. Some (4096, 8589934592)),
     base_memobject = 0, base_host_address = 0, ocl_mapped = {}\<rparr>"

lemma ocl_demo_inv: "ocl_binv d ocl_demo" "ocl_mapped ocl_demo = {}"
  by (simp_all add: ocl_binv_def ocl_demo_def)

text \<open>C31: All regions a reachable heap has handed out lie inside mapped blocks and are pairwise
  disjoint.\<close>

theorem ocl_regions_disjoint:
  assumes "heap_reach OclBlockAllocator (ocl_binv dev) ocl_mapped (\<lambda>d. in_table d \<and> d = dev) h"
    "(p, m) \<in> used_regions h" "(q, n) \<in> used_regions h"
  shows "(\<exists>b \<in> ocl_mapped (block_alloc h). b \<le> p \<and> p + m \<le> b + ocl_block_size)
    \<and> ((p, m) = (q, n) \<or> p + m \<le> q \<or> q + n \<le> p)"
proof -
  note inv = ocl.reach_inv [OF assms(1)]
  have "ba_size OclBlockAllocator = ocl_block_size" by (simp add: OclBlockAllocator_def)
  then show ?thesis using ocl.used_in_live [OF inv assms(2)] ocl.used_disjoint [OF inv assms(2,3)] by auto
qed

text \<open>Releasing what was just allocated succeeds and restores the regions in use.\<close>

theorem ocl_alloc_free_roundtrip:
  assumes "heap_reach OclBlockAllocator (ocl_binv dev) ocl_mapped (\<lambda>d. in_table d \<and> d = dev) h"
    "in_table dev" "0 < n" "heap_alloc OclBlockAllocator n dev h = Some (p, h')" "p \<noteq> 0"
  shows "\<exists>h''. heap_free OclBlockAllocator p h' = Some (True, h'') \<and> used_regions h'' = used_regions h"
proof -
  have "in_table dev \<and> dev = dev" using assms(2) by simp
  from ocl.alloc_free_roundtrip [OF ocl.reach_inv [OF assms(1)] this assms(3-5)] show ?thesis by blast
qed

text \<open>The first allocation of 1000 bytes on the example device.\<close>

lemma aligned_1000: "get_aligned_bytes 1000 = 2097152"
  by (simp add: get_aligned_bytes_def align_size_def fl_nat_exact fl_div_ceil_def)

definition ocl_demo_1 :: "OclDev Heap" where
  "ocl_demo_1 = snd (the (heap_alloc OclBlockAllocator 1000 0 (heap_init ocl_demo)))"

lemma ocl_demo_alloc: "heap_alloc OclBlockAllocator 1000 0 (heap_init ocl_demo) = Some (8589934592, ocl_demo_1)"
  by (simp add: ocl_demo_1_def heap_alloc_def aligned_1000 OclBlockAllocator_def ocl_block_size_def heap_init_def
      mm_lower_bound_def ocl_ba_alloc_def ocl_allocate_pim_block_def in_table_def MAX_NUM_GPUS_def ocl_demo_def
      alloc_block_def Let_def)

lemma ocl_demo_reach:
  "heap_reach OclBlockAllocator (ocl_binv 0) ocl_mapped (\<lambda>d. in_table d \<and> d = 0) (heap_init ocl_demo)"
  by (rule reach_init) (simp_all add: ocl_demo_inv)

lemma ocl_demo_reach_1:
  "heap_reach OclBlockAllocator (ocl_binv 0) ocl_mapped (\<lambda>d. in_table d \<and> d = 0) ocl_demo_1"
  by (rule reach_alloc [OF ocl_demo_reach _ _ ocl_demo_alloc]) (simp_all add: in_table_def MAX_NUM_GPUS_def)

lemma ocl_demo_used: "(8589934592, 2097152) \<in> used_regions ocl_demo_1"
  using ocl.heap_alloc_spec [OF ocl.reach_inv [OF ocl_demo_reach], of 0 1000] ocl_demo_alloc
  by (simp add: alloc_result_def aligned_1000 in_table_def MAX_NUM_GPUS_def)

lemma ocl_regions_disjoint_witness:
  "(\<exists>b \<in> ocl_mapped (block_alloc ocl_demo_1). b \<le> 8589934592 \<and> 8589934592 + 2097152 \<le> b + ocl_block_size)
    \<and> ((8589934592, 2097152) = (8589934592 :: nat, 2097152 :: nat)
       \<or> 8589934592 + 2097152 \<le> (8589934592 :: nat) \<or> 8589934592 + 2097152 \<le> (8589934592 :: nat))"
  by (rule ocl_regions_disjoint [OF ocl_demo_reach_1 ocl_demo_used ocl_demo_used])

lemma ocl_alloc_free_roundtrip_witness:
  "\<exists>h''. heap_free OclBlockAllocator 8589934592 ocl_demo_1 = Some (True, h'')
      \<and> used_regions h'' = used_regions (heap_init ocl_demo)"
  by (rule ocl_alloc_free_roundtrip [OF ocl_demo_reach _ _ ocl_demo_alloc]) (simp_all add: in_table_def MAX_NUM_GPUS_def)

section \<open>Alignment and odd sizes\<close>

lemma aligned_exact:
  assumes "fl_nat n = n"
  shows "get_aligned_bytes n = ceil_div n align_size * align_size"
proof -
  have al: "align_size = 2 ^ 21" by (simp add: align_size_def)
  show ?thesis using fl_div_ceil_pow2 [OF assms, of 21] assms by (simp add: get_aligned_bytes_def al mult.commute)
qed

lemma aligned_ge: "fl_nat n = n \<Longrightarrow> n \<le> get_aligned_bytes n"
  using aligned_exact ceil_div_ge [of align_size n] by (simp add: align_size_def)

text \<open>For every request that a \<open>float\<close> represents exactly (in particular all up to 16 MB) the
  aligned size is the least multiple of 2 MB that covers it.\<close>

theorem aligned_covers:
  assumes "fl_nat n = n"
  shows "n \<le> get_aligned_bytes n \<and> get_aligned_bytes n < n + align_size \<and> align_size dvd get_aligned_bytes n"
  using aligned_exact [OF assms] ceil_div_ge [of align_size n] ceil_div_less [of align_size n]
  by (simp add: align_size_def)

lemma aligned_covers_witness:
  "3000000 \<le> get_aligned_bytes 3000000 \<and> get_aligned_bytes 3000000 < 3000000 + align_size
     \<and> align_size dvd get_aligned_bytes 3000000"
  by (rule aligned_covers) (simp add: fl_nat_exact)

text \<open>The rounding of the request to \<open>float\<close> can lose bytes: a request of 32 MB and one byte is
  given 32 MB.\<close>

theorem aligned_too_small: "get_aligned_bytes 33554433 = 33554432"
  by (simp add: get_aligned_bytes_def fl_nat_def fl_div_ceil_def align_size_def bitlen.simps rne_def ceil_div_def Let_def)

text \<open>A request of zero bytes on an empty heap records a free entry for the whole block together
  with a used fragment of size 0 at the same address: the heap is no longer well formed and the next
  allocation fails an assertion.\<close>

theorem zero_alloc_breaks_heap:
  "\<exists>p h'. heap_alloc OclBlockAllocator 0 0 (heap_init ocl_demo) = Some (p, h')
     \<and> heap_alloc OclBlockAllocator 1000 0 h' = None"
proof -
  have z: "get_aligned_bytes 0 = 0" by (simp add: get_aligned_bytes_def fl_nat_def fl_div_ceil_def rne_def)
  show ?thesis
    by (simp add: heap_alloc_def z aligned_1000 OclBlockAllocator_def ocl_block_size_def heap_init_def
      mm_lower_bound_def ocl_ba_alloc_def ocl_allocate_pim_block_def in_table_def MAX_NUM_GPUS_def ocl_demo_def
      alloc_block_def alloc_fragment_def frags_at_def Let_def)
qed

text \<open>When the emulator's \<open>hipMalloc\<close> fails, the value -1 is taken for the address of a block: the
  heap hands out the largest address as a region in use.\<close>

theorem emulator_failure_becomes_pointer:
  assumes "hipMalloc s 0 536870912 = None" "\<not> pim_alloc_done s 0"
  shows "\<exists>h'. heap_alloc (HipBlockAllocator EMULATOR) 1000 0 (heap_init s) = Some (2 ^ 64 - 1, h')
    \<and> (2 ^ 64 - 1, 2097152) \<in> used_regions h'"
  using assms
  by (simp add: heap_alloc_def aligned_1000 HipBlockAllocator_def heap_init_def
      mm_lower_bound_def hip_ba_alloc_def allocate_pim_block_def map_block_def in_table_def MAX_NUM_GPUS_def
      alloc_block_def frags_at_def used_regions_def Let_def)

lemma emulator_failure_becomes_pointer_witness:
  "\<exists>h'. heap_alloc (HipBlockAllocator EMULATOR) 1000 0 (heap_init (hip_demo\<lparr>hipMalloc := \<lambda>_ _. None\<rparr>))
      = Some (2 ^ 64 - 1, h') \<and> (2 ^ 64 - 1, 2097152) \<in> used_regions h'"
  by (rule emulator_failure_becomes_pointer) (simp_all add: hip_demo_def)

end
