(* ===== verification/ShapeUtil.thy ===== *)
theory ShapeUtil
  imports PimTypes FloatRound
begin

text \<open>
  The shape helpers of \<open>runtime/source/utility/pim_util.cpp\<close>: padding of operand shapes to the
  alignment the device needs, buffer sizes, transposition of shapes and data, zero padding and the
  tests that select an execution path. \<open>None\<close> stands for an access outside a buffer, a signed
  overflow or a floating-point value that does not fit the integer it is converted to. Buffers of
  \<open>half\<close> are lists of their bit patterns.
\<close>

section \<open>Shapes\<close>

definition shape_len :: "PimBShape \<Rightarrow> nat" where
  "shape_len s = unat (sh_n s) * unat (sh_c s) * unat (sh_h s) * unat (sh_w s)"

text \<open>The product in 32-bit arithmetic and the one in \<open>size_t\<close>.\<close>

definition shape_prod32 :: "PimBShape \<Rightarrow> u32" where
  "shape_prod32 s = sh_n s * sh_c s * sh_h s * sh_w s"

definition shape_prod64 :: "PimBShape \<Rightarrow> u64" where
  "shape_prod64 s = ucast (sh_n s) * ucast (sh_c s) * ucast (sh_h s) * ucast (sh_w s)"

definition swap_hw :: "PimBShape \<Rightarrow> PimBShape" where
  "swap_hw s = s\<lparr>sh_h := sh_w s, sh_w := sh_h s\<rparr>"

definition get_pim_block_info :: PimBlockInfo where
  "get_pim_block_info = vega20_pbi"

text \<open>\<open>None\<close> is a null pointer here.\<close>

definition set_pimbo_t :: "PimBo option \<Rightarrow> PimBo option" where
  "set_pimbo_t inout = map_option (\<lambda>b. b\<lparr>bshape := swap_hw (bshape b), bshape_r := swap_hw (bshape_r b)\<rparr>) inout"

definition set_pimbo_t4 ::
    "PimBo option \<times> PimBo option \<times> PimBo option \<times> PimBo option
     \<Rightarrow> PimBo option \<times> PimBo option \<times> PimBo option \<times> PimBo option" where
  "set_pimbo_t4 bos = (case bos of (bo0, bo1, bo2, bo3) \<Rightarrow>
     (set_pimbo_t bo0, set_pimbo_t bo1, set_pimbo_t bo2, set_pimbo_t bo3))"

definition set_pimbo_t_copy :: "PimBo option \<Rightarrow> PimBo option \<Rightarrow> PimBo option" where
  "set_pimbo_t_copy dst src =
    (case src of None \<Rightarrow> dst
     | Some s \<Rightarrow> (case dst of None \<Rightarrow> None
        | Some d \<Rightarrow> Some (s\<lparr>bshape := (bshape s)\<lparr>sh_w := sh_h (bshape s), sh_h := sh_w (bshape s)\<rparr>,
                            bshape_r := (bshape_r s)\<lparr>sh_w := sh_h (bshape_r s), sh_h := sh_w (bshape_r s)\<rparr>\<rparr>)))"

section \<open>Data\<close>

text \<open>The (destination, source) indices of \<open>transpose_pimbo\<close>, in the order of its loops.\<close>

definition transpose_pairs :: "nat \<Rightarrow> nat \<Rightarrow> nat \<Rightarrow> (int \<times> int) list" where
  "transpose_pairs iters row col =
     concat (map (\<lambda>iter. concat (map (\<lambda>ri. map (\<lambda>ci.
       (int (iter * (row * col) + (ci * row + ri)), int (iter * (row * col) + (ri * col + ci))))
       [0..<col]) [0..<row])) [0..<iters])"

definition transpose_pimbo :: "PimBShape \<Rightarrow> u16 list \<Rightarrow> u16 list \<Rightarrow> u16 list option" where
  "transpose_pimbo s inp out =
     copy_elems inp (transpose_pairs (unat (sh_n s) * unat (sh_c s)) (unat (sh_h s)) (unat (sh_w s))) out"

section \<open>Sizes\<close>

definition aligned_flag_shape :: "PimMemFlag \<Rightarrow> PimBShape \<Rightarrow> PimBShape option" where
  "aligned_flag_shape f s =
    (case f of
       ELT_OP \<Rightarrow> Some s
     | GEMV_INPUT \<Rightarrow> Some (s\<lparr>sh_c := 1, sh_w := sh_h s, sh_h := 1\<rparr>)
     | GEMV_WEIGHT \<Rightarrow> Some (s\<lparr>sh_n := 1, sh_c := 1\<rparr>)
     | GEMV_OUTPUT \<Rightarrow> Some (s\<lparr>sh_c := 1, sh_h := 1\<rparr>)
     | _ \<Rightarrow> None)"

definition get_aligned_size :: "PimDesc \<Rightarrow> PimMemFlag \<Rightarrow> PimBo \<Rightarrow> u64 \<times> PimBo" where
  "get_aligned_size d f bo =
    (case (aligned_flag_shape f (pd_bshape d), aligned_flag_shape f (pd_bshape_r d)) of
       (Some bs, Some bs_r) \<Rightarrow> (shape_prod64 bs, bo\<lparr>bshape_r := bs_r, bshape := bs\<rparr>)
     | _ \<Rightarrow> (0, bo))"

definition gemm_flag_shapes :: "PimGemmDesc \<Rightarrow> PimMemFlag \<Rightarrow> (PimBShape \<times> PimBShape) option" where
  "gemm_flag_shapes d f =
    (case f of
       GEMM_INPUT \<Rightarrow> Some (in_bshape d, in_bshape_r d)
     | GEMM_WEIGHT \<Rightarrow> Some (wei_bshape d, wei_bshape_r d)
     | GEMM_OUTPUT \<Rightarrow> Some (out_bshape d, out_bshape_r d)
     | GEMM_BIAS \<Rightarrow> Some (bias_bshape d, bias_bshape_r d)
     | _ \<Rightarrow> None)"

definition scale_precision :: "PimPrecision \<Rightarrow> u32 \<Rightarrow> nat" where
  "scale_precision p n = (if p = PIM_FP16 then unat n * 2 else unat n)"

definition set_pimbo :: "PimGemmDesc \<Rightarrow> PimMemType \<Rightarrow> PimMemFlag \<Rightarrow> bool \<Rightarrow> PimBo \<Rightarrow> PimBo" where
  "set_pimbo d mt f tr bo =
    (case gemm_flag_shapes d f of
       None \<Rightarrow> bo
     | Some (s, s_r) \<Rightarrow>
         bo\<lparr>bo_size := scale_precision (gd_precision d) (shape_prod32 s),
            bo_size_r := scale_precision (gd_precision d) (shape_prod32 s_r),
            mem_type := mt, precision := gd_precision d, data_layout_type := RAW,
            bshape := s, bshape_r := s_r, transposed := tr\<rparr>)"

section \<open>Alignment\<close>

text \<open>
  \<open>A * ceil((float)x / A)\<close> for a power of two \<open>A\<close>: the division and the product are exact, so only
  the conversion of \<open>x\<close> rounds.
\<close>

definition fl_align :: "nat \<Rightarrow> int \<Rightarrow> int" where
  "fl_align A x =
    (if 0 \<le> x then int (A * ceil_div (fl_nat (nat x)) A) else - int (A * (fl_nat (nat (- x)) div A)))"

definition to_i32 :: "int \<Rightarrow> int option" where
  "to_i32 x = (if i32_range x then Some x else None)"

definition to_u32 :: "int \<Rightarrow> u32 option" where
  "to_u32 x = (if 0 \<le> x \<and> x < 2 ^ 32 then Some (of_int x) else None)"

definition s32 :: "u32 \<Rightarrow> int" where
  "s32 x = sint x"

text \<open>The output extent: kept if the whole channel-wise output is a multiple of the alignment.\<close>

definition align_out :: "int \<Rightarrow> int \<Rightarrow> int \<Rightarrow> int option" where
  "align_out n c out =
    Option.bind (to_i32 (n * c)) (\<lambda>nc. Option.bind (to_i32 (nc * out)) (\<lambda>out_align.
      if cmod out_align PIM_GEMV_OUT_ALIGN = 0 then Some out
      else to_i32 (fl_align 4096 out)))"

definition align_gemm_shape :: "PimGemmDesc \<Rightarrow> PimGemmDesc option" where
  "align_gemm_shape d =
    (let n = s32 (sh_n (in_bshape_r d)); c = s32 (sh_c (in_bshape_r d));
         d0 = d\<lparr>in_bshape := in_bshape_r d, wei_bshape := wei_bshape_r d,
                bias_bshape := bias_bshape_r d, out_bshape := out_bshape_r d\<rparr>
     in if gemm_order d = W_X_I
        then Option.bind (to_i32 (fl_align 256 (s32 (sh_h (in_bshape_r d))))) (\<lambda>ain.
             Option.bind (align_out n c (s32 (sh_h (out_bshape_r d)))) (\<lambda>aout.
               Some (d0\<lparr>in_bshape := (in_bshape d0)\<lparr>sh_h := of_int ain\<rparr>,
                        wei_bshape := (wei_bshape d0)\<lparr>sh_w := of_int ain, sh_h := of_int aout\<rparr>,
                        bias_bshape := (bias_bshape d0)\<lparr>sh_h := of_int aout\<rparr>,
                        out_bshape := (out_bshape d0)\<lparr>sh_h := of_int aout\<rparr>\<rparr>)))
        else Option.bind (to_i32 (fl_align 256 (s32 (sh_w (in_bshape_r d))))) (\<lambda>ain.
             Option.bind (align_out n c (s32 (sh_w (out_bshape_r d)))) (\<lambda>aout.
               Some (d0\<lparr>in_bshape := (in_bshape d0)\<lparr>sh_w := of_int ain\<rparr>,
                        wei_bshape := (wei_bshape d0)\<lparr>sh_h := of_int ain, sh_w := of_int aout\<rparr>,
                        bias_bshape := (bias_bshape d0)\<lparr>sh_w := of_int aout\<rparr>,
                        out_bshape := (out_bshape d0)\<lparr>sh_w := of_int aout\<rparr>\<rparr>))))"

text \<open>
  In the element-wise case the aligned length is a multiple of \<open>2 ^ 18\<close> below \<open>2 ^ 33\<close>, hence exact as
  a \<open>float\<close>; the divisor is converted to \<open>float\<close> and the quotient is rounded.
\<close>

definition align_shape :: "PimDesc \<Rightarrow> PimOpType \<Rightarrow> PimDesc option" where
  "align_shape d op =
    (let bs = pd_bshape_r d
     in if op = OP_GEMV
        then Option.bind (to_u32 (fl_align 256 (uint (sh_h bs)))) (\<lambda>h.
             Option.bind (to_u32 (fl_align 4096 (uint (sh_w bs)))) (\<lambda>w.
               Some (d\<lparr>pd_bshape := bs\<lparr>sh_h := h, sh_w := w\<rparr>\<rparr>)))
        else let aligned_length = nat (fl_align (256 * 1024) (uint (shape_prod32 bs)));
                 nhc = unat (sh_n bs * sh_h bs * sh_c bs)
             in if nhc = 0 then None
                else Option.bind (to_u32 (int (fl_div_ceil aligned_length (fl_nat nhc)))) (\<lambda>w.
                       Some (d\<lparr>pd_bshape := bs\<lparr>sh_w := w\<rparr>\<rparr>)))"

section \<open>Zero padding\<close>

fun zero_at :: "int list \<Rightarrow> u16 list \<Rightarrow> u16 list option" where
  "zero_at [] buf = Some buf"
| "zero_at (i # is) buf = Option.bind (arr_set buf i 0) (zero_at is)"

text \<open>The device branch of the source repeats the host test and is never taken.\<close>

definition pad_gemv :: "u16 list \<Rightarrow> PimDesc \<Rightarrow> u16 list option" where
  "pad_gemv buf d =
     zero_at (concat (map (\<lambda>i. map (\<lambda>j. uint (of_nat i * sh_w (pd_bshape d) + of_nat j))
                [unat (sh_w (pd_bshape_r d))..<unat (sh_w (pd_bshape d))]) [0..<unat (sh_n (pd_bshape d))])) buf"

definition pad_elt :: "u16 list \<Rightarrow> PimDesc \<Rightarrow> u16 list option" where
  "pad_elt buf d =
     zero_at [s32 (shape_prod32 (pd_bshape_r d))..s32 (shape_prod32 (pd_bshape d)) - 1] buf"

definition pad_data :: "u16 list \<Rightarrow> PimDesc \<Rightarrow> PimMemType \<Rightarrow> PimMemFlag \<Rightarrow> u16 list option" where
  "pad_data buf d mt f =
    (if f = GEMV_INPUT \<and> mt = MEM_TYPE_HOST then pad_gemv buf d
     else if f = ELT_OP then pad_elt buf d else Some buf)"

definition pad_data_size :: "u16 list \<Rightarrow> int \<Rightarrow> int \<Rightarrow> int \<Rightarrow> PimMemFlag \<Rightarrow> u16 list option" where
  "pad_data_size buf in_size in_nsize batch_size f =
    (if f = GEMV_INPUT
     then zero_at (concat (map (\<lambda>i. map (\<lambda>j. in_nsize * i + j) [in_size..in_nsize - 1]) [0..batch_size - 1])) buf
     else zero_at [in_size..in_nsize - 1] buf)"

section \<open>Path selection\<close>

definition check_chwise_gemm_bo :: "PimBo \<Rightarrow> PimGemmOrder \<Rightarrow> bool" where
  "check_chwise_gemm_bo bo order =
    (let s = bshape bo; k = (if order = I_X_W then sh_w s else sh_h s)
     in k < of_int PIM_GEMV_OUT_ALIGN \<and> (sh_n s * sh_c s * k) mod of_int PIM_GEMV_OUT_ALIGN = 0)"

definition is_pim_applicable :: "PimBo \<Rightarrow> PimGemmOrder \<Rightarrow> bool" where
  "is_pim_applicable wei order =
    (if data_layout_type wei \<noteq> RAW then True
     else let s = bshape_r wei; wei_dim = (if order = W_X_I then sh_h s else sh_w s)
          in wei_dim \<noteq> 32317 \<and> of_int DIM_OUT_PIM \<le> sh_n s * sh_c s * wei_dim)"

definition is_pim_gemv_list_available :: "PimBo \<Rightarrow> PimBo \<Rightarrow> PimBo \<Rightarrow> bool" where
  "is_pim_gemv_list_available output vec matrix =
    (cmod (i32 (int (bo_size output))) PIM_GEMV_OUT_ALIGN = 0
     \<and> sh_c (bshape output) \<noteq> 1
     \<and> sh_c (bshape output) = sh_c (bshape vec) \<and> sh_c (bshape output) = sh_c (bshape matrix))"

definition PrecisionSize :: "PimBo option \<Rightarrow> nat option" where
  "PrecisionSize b = map_option (\<lambda>x. case precision x of PIM_FP16 \<Rightarrow> 2 | PIM_INT8 \<Rightarrow> 1) b"

section \<open>Lengths without wrap-around\<close>

lemma unat_mult_small: "unat x * unat y < 2 ^ 32 \<Longrightarrow> unat (x * y) = unat x * unat y" for x y :: u32
  using unat_mult_lem [of x y] by simp

lemma shape_prod32_len:
  assumes "shape_len s < 2 ^ 32" and "0 < sh_n s" "0 < sh_c s" "0 < sh_h s" "0 < sh_w s"
  shows "unat (shape_prod32 s) = shape_len s"
    and "unat (sh_n s * sh_h s * sh_c s) = unat (sh_n s) * unat (sh_h s) * unat (sh_c s)"
proof -
  define n c h w where "n = unat (sh_n s)" and "c = unat (sh_c s)" and "h = unat (sh_h s)" and "w = unat (sh_w s)"
  note d = n_def c_def h_def w_def
  have pos: "0 < n" "0 < c" "0 < h" "0 < w"
    using assms by (simp_all add: d unat_gt_0 word_less_nat_alt)
  have len: "n * c * h * w < 2 ^ 32"
    using assms(1) by (simp add: shape_len_def d)
  have nch: "n * c * h < 2 ^ 32"
    using len pos by (metis Suc_leI le_less_trans mult.right_neutral mult_le_mono2 One_nat_def)
  have nc: "n * c < 2 ^ 32"
    using nch pos by (metis Suc_leI le_less_trans mult.right_neutral mult_le_mono2 One_nat_def)
  have nh: "n * h < 2 ^ 32"
    using le_less_trans [OF _ nch, of "n * h"] pos by simp
  have 1: "unat (sh_n s * sh_c s) = n * c"
    using nc by (simp add: unat_mult_small d)
  have 2: "unat (sh_n s * sh_c s * sh_h s) = n * c * h"
    using nch 1 by (simp add: unat_mult_small d)
  show "unat (shape_prod32 s) = shape_len s"
    using len 2 by (simp add: shape_prod32_def shape_len_def unat_mult_small d)
  have 3: "unat (sh_n s * sh_h s) = n * h"
    using nh by (simp add: unat_mult_small d)
  show "unat (sh_n s * sh_h s * sh_c s) = unat (sh_n s) * unat (sh_h s) * unat (sh_c s)"
    using nch 3 by (simp add: unat_mult_small d ac_simps)
qed

lemma fl_align_exact:
  assumes "0 \<le> x" "x \<le> 2 ^ 24"
  shows "fl_align A x = int (A * ceil_div (nat x) A)"
  using assms by (simp add: fl_align_def fl_nat_exact)

lemma ceil_div_mono: "0 < b \<Longrightarrow> a \<le> a' \<Longrightarrow> ceil_div a b \<le> ceil_div a' b"
  by (simp add: ceil_div_def div_le_mono)

lemma ceil_div_mult [simp]: "0 < b \<Longrightarrow> ceil_div (b * k) b = k"
  by (intro ceil_div_unique) auto

lemma ceil_div_mult' [simp]: "0 < b \<Longrightarrow> ceil_div (k * b) b = k"
  by (intro ceil_div_unique) auto

lemma ceil_div_aligned_le:
  assumes "0 < b" and "b dvd m" and "a \<le> m"
  shows "b * ceil_div a b \<le> m"
proof -
  obtain k where "m = b * k" using assms(2) by blast
  then show ?thesis
    using ceil_div_mono [OF assms(1,3)] assms(1) by (simp add: mult_le_mono2)
qed

lemma ceil_div_le: "0 < b \<Longrightarrow> ceil_div a b \<le> a"
proof (rule ccontr)
  assume "0 < b" "\<not> ceil_div a b \<le> a"
  then have "(a + 1) * b \<le> ceil_div a b * b" "a \<le> a * b"
    by (auto intro: mult_le_mono1 simp del: mult_Suc add_mult_distrib)
  with ceil_div_less [OF \<open>0 < b\<close>, of a] show False by simp
qed

section \<open>Properties\<close>

text \<open>for an element-wise operation on a non-empty shape of at most \<open>2 ^ 24\<close> elements
  \<open>align_shape\<close> only changes the width, the aligned shape holds the length rounded up to the next
  multiple of 256 K elements, hence all elements, and exceeds it by less than one unit of width.
\<close>

theorem align_elt_covers:
  assumes "op \<noteq> OP_GEMV" and "0 < shape_len (pd_bshape_r d)" and "shape_len (pd_bshape_r d) \<le> 2 ^ 24"
  shows "\<exists>w. align_shape d op = Some (d\<lparr>pd_bshape := (pd_bshape_r d)\<lparr>sh_w := w\<rparr>\<rparr>)
     \<and> sh_w (pd_bshape_r d) \<le> w
     \<and> (let len = shape_len (pd_bshape_r d); al = shape_len ((pd_bshape_r d)\<lparr>sh_w := w\<rparr>);
            unit = 256 * 1024 * ceil_div len (256 * 1024)
        in len \<le> unit \<and> unit \<le> al
           \<and> al < unit + unat (sh_n (pd_bshape_r d)) * unat (sh_c (pd_bshape_r d)) * unat (sh_h (pd_bshape_r d)))"
proof -
  define s where "s = pd_bshape_r d"
  define nhc where "nhc = unat (sh_n s) * unat (sh_h s) * unat (sh_c s)"
  define unit :: nat where "unit = 256 * 1024 * ceil_div (shape_len s) (256 * 1024)"
  have len: "shape_len s = nhc * unat (sh_w s)"
    by (simp add: shape_len_def nhc_def)
  have pos: "0 < sh_n s" "0 < sh_c s" "0 < sh_h s" "0 < sh_w s"
    using assms(2) by (auto simp: s_def shape_len_def word_neq_0_conv [symmetric])
  have nhc: "0 < nhc" "nhc \<le> 2 ^ 24"
    using assms(2,3) len by (auto simp: s_def intro: order_trans [rotated])
  have small: "shape_len s < 2 ^ 32"
    using assms(3) by (simp add: s_def)
  note words = shape_prod32_len [OF small pos, folded nhc_def]
  have le: "shape_len s \<le> unit" "unit < shape_len s + 256 * 1024" "unit \<le> 2 ^ 24"
    using ceil_div_ge [of "256 * 1024" "shape_len s"] ceil_div_less [of "256 * 1024" "shape_len s"]
      ceil_div_aligned_le [of "256 * 1024" "2 ^ 24" "shape_len s"] assms(3)
    by (simp_all add: unit_def s_def mult.commute)
  have al: "nat (fl_align (256 * 1024) (uint (shape_prod32 s))) = unit"
    using assms(3) words(1) by (simp add: fl_align_exact uint_nat unit_def s_def)
  define w where "w = ceil_div unit nhc"
  have w: "unit \<le> w * nhc" "w * nhc < unit + nhc"
    using nhc ceil_div_ge ceil_div_less by (simp_all add: w_def)
  have w24: "w \<le> 2 ^ 24"
    using ceil_div_le [OF nhc(1), of unit] le(3) by (simp add: w_def)
  then have uw: "unat (of_nat w :: u32) = w"
    by (simp add: unat_of_nat take_bit_nat_eq_self)
  have "unat (sh_w s) * nhc \<le> w * nhc"
    using w(1) le(1) len by (metis mult.commute order_trans)
  then have "unat (sh_w s) \<le> w"
    using nhc(1) by simp
  then have "sh_w s \<le> of_nat w"
    by (simp add: word_le_nat_alt uw)
  moreover have "align_shape d op = Some (d\<lparr>pd_bshape := s\<lparr>sh_w := of_nat w\<rparr>\<rparr>)"
    using assms(1) words(2) al nhc w24 le(3)
    by (simp add: align_shape_def s_def [symmetric] Let_def fl_nat_exact fl_div_ceil_exact w_def [symmetric] to_u32_def)
  moreover have "shape_len (s\<lparr>sh_w := of_nat w\<rparr>) = w * nhc"
    by (simp add: shape_len_def uw nhc_def)
  ultimately show ?thesis
    using w le(1) by (intro exI [of _ "of_nat w"]) (simp add: s_def [symmetric] unit_def Let_def nhc_def ac_simps)
qed

definition elt_desc :: "PimBShape \<Rightarrow> PimDesc" where
  "elt_desc s = \<lparr>pd_bshape = s, pd_bshape_r = s, pd_precision = PIM_FP16, pd_op_type = OP_ELT_ADD\<rparr>"

theorem align_elt_covers_witness:
  "\<exists>w. align_shape (elt_desc (mk_shape 1 3 5 1000)) OP_ELT_ADD
        = Some ((elt_desc (mk_shape 1 3 5 1000))\<lparr>pd_bshape := (mk_shape 1 3 5 1000)\<lparr>sh_w := w\<rparr>\<rparr>)
     \<and> 1000 \<le> w \<and> 262144 \<le> shape_len ((mk_shape 1 3 5 1000)\<lparr>sh_w := w\<rparr>)"
  using align_elt_covers [of OP_ELT_ADD "elt_desc (mk_shape 1 3 5 1000)"]
  by (auto simp: elt_desc_def mk_shape_def shape_len_def ceil_div_def Let_def)

text \<open>beyond \<open>2 ^ 24\<close> elements the conversion to \<open>float\<close> loses elements: a shape of \<open>2 ^ 24 + 1\<close>
  elements is aligned to \<open>2 ^ 24\<close>, fewer than it has.
\<close>

theorem align_elt_too_small:
  "align_shape (elt_desc (mk_shape 1 1 1 (2 ^ 24 + 1))) OP_ELT_ADD
     = Some ((elt_desc (mk_shape 1 1 1 (2 ^ 24 + 1)))\<lparr>pd_bshape := mk_shape 1 1 1 (2 ^ 24)\<rparr>)
   \<and> shape_len (mk_shape 1 1 1 (2 ^ 24)) < shape_len (mk_shape 1 1 1 (2 ^ 24 + 1))"
proof -
  have "fl_nat 16777217 = 16777216" "fl_nat 1 = 1"
    by (simp_all add: fl_nat_def bitlen.simps rne_def Let_def)
  then have "fl_align 262144 16777217 = 16777216"
    by (simp add: fl_align_def ceil_div_def)
  moreover have "fl_div_ceil 16777216 1 = 16777216"
    by (simp add: fl_div_ceil_exact ceil_div_def)
  ultimately show ?thesis
    using \<open>fl_nat 1 = 1\<close>
    by (simp add: align_shape_def elt_desc_def mk_shape_def shape_prod32_def shape_len_def to_u32_def Let_def)
qed

text \<open>
  The operand extents of a matrix product in either order: \<open>in_k\<close> and \<open>wei_k\<close> are contracted,
  \<open>wei_o\<close>, \<open>bias_o\<close> and \<open>out_o\<close> index the output.
\<close>

definition in_k :: "PimGemmDesc \<Rightarrow> u32" where
  "in_k d = (if gemm_order d = W_X_I then sh_h (in_bshape d) else sh_w (in_bshape d))"
definition wei_k :: "PimGemmDesc \<Rightarrow> u32" where
  "wei_k d = (if gemm_order d = W_X_I then sh_w (wei_bshape d) else sh_h (wei_bshape d))"
definition wei_o :: "PimGemmDesc \<Rightarrow> u32" where
  "wei_o d = (if gemm_order d = W_X_I then sh_h (wei_bshape d) else sh_w (wei_bshape d))"
definition bias_o :: "PimGemmDesc \<Rightarrow> u32" where
  "bias_o d = (if gemm_order d = W_X_I then sh_h (bias_bshape d) else sh_w (bias_bshape d))"
definition out_o :: "PimGemmDesc \<Rightarrow> u32" where
  "out_o d = (if gemm_order d = W_X_I then sh_h (out_bshape d) else sh_w (out_bshape d))"
definition in_k_r :: "PimGemmDesc \<Rightarrow> u32" where
  "in_k_r d = (if gemm_order d = W_X_I then sh_h (in_bshape_r d) else sh_w (in_bshape_r d))"
definition out_o_r :: "PimGemmDesc \<Rightarrow> u32" where
  "out_o_r d = (if gemm_order d = W_X_I then sh_h (out_bshape_r d) else sh_w (out_bshape_r d))"

lemmas gemm_extents = in_k_def wei_k_def wei_o_def bias_o_def out_o_def in_k_r_def out_o_r_def

lemma s32_small: "unat x < 2 ^ 31 \<Longrightarrow> s32 x = int (unat x)" for x :: u32
proof -
  assume "unat x < 2 ^ 31"
  then have "uint x < 2 ^ 31" by (metis of_nat_less_iff of_nat_numeral of_nat_power uint_nat)
  moreover have "- (2 ^ 31) \<le> uint x" using uint_ge_0 [of x] by (simp add: order_trans [of _ 0])
  ultimately show ?thesis
    by (simp add: s32_def sint_uint signed_take_bit_int_eq_self)
qed

lemma to_i32_of_nat: "x < 2 ^ 31 \<Longrightarrow> to_i32 (int x) = Some (int x)"
  unfolding to_i32_def i32_range_def by (simp add: order_trans [of _ 0])

lemma fl_align_range:
  assumes "x \<le> 2 ^ 24" "0 < A" "A \<le> 2 ^ 12"
  shows "to_i32 (fl_align A (int x)) = Some (int (A * ceil_div x A))"
    and "x \<le> A * ceil_div x A" and "A * ceil_div x A < x + A"
proof -
  show "x \<le> A * ceil_div x A" and *: "A * ceil_div x A < x + A"
    using assms(2) ceil_div_ge [of A x] ceil_div_less [of A x] by (simp_all add: mult.commute)
  then have "A * ceil_div x A < 2 ^ 31"
    using assms by simp
  then show "to_i32 (fl_align A (int x)) = Some (int (A * ceil_div x A))"
    using assms(1) by (simp add: fl_align_exact to_i32_of_nat del: of_nat_mult)
qed

lemma align_out_cases:
  assumes "n * c * out \<le> 2 ^ 24" "0 < n" "0 < c" "0 < out"
  shows "align_out (int n) (int c) (int out) =
     Some (int (if 4096 dvd n * c * out then out else 4096 * ceil_div out 4096))"
proof -
  have le: "n * c \<le> n * c * out" "out \<le> n * c * out"
    using assms by simp_all
  have "n * c < 2 ^ 31" "n * c * out < 2 ^ 31"
    using le_less_trans [OF order_trans [OF le(1) assms(1)]] le_less_trans [OF assms(1)] by simp_all
  then have small: "to_i32 (int n * int c) = Some (int (n * c))" "to_i32 (int (n * c) * int out) = Some (int (n * c * out))"
    unfolding of_nat_mult [symmetric] by (simp_all add: to_i32_of_nat del: of_nat_mult)
  have "cmod (int (n * c * out)) PIM_GEMV_OUT_ALIGN = 0 \<longleftrightarrow> 4096 dvd n * c * out"
    unfolding PIM_GEMV_OUT_ALIGN_def
    by (simp add: cmod_nonneg del: of_nat_mult flip: dvd_eq_mod_eq_0)
       (metis int_dvd_int_iff of_nat_numeral)
  then show ?thesis
    using small fl_align_range(1) [of out 4096] order_trans [OF le(2) assms(1)] by (simp add: align_out_def del: of_nat_mult)
qed


lemma align_gemm_shape_Some:
  assumes "to_i32 (fl_align 256 (s32 (in_k_r d))) = Some ain"
    and "align_out (s32 (sh_n (in_bshape_r d))) (s32 (sh_c (in_bshape_r d))) (s32 (out_o_r d)) = Some aout"
  shows "\<exists>d'. align_gemm_shape d = Some d' \<and> gemm_order d' = gemm_order d
    \<and> in_k d' = of_int ain \<and> wei_k d' = of_int ain
    \<and> wei_o d' = of_int aout \<and> bias_o d' = of_int aout \<and> out_o d' = of_int aout
    \<and> sh_n (out_bshape d') = sh_n (out_bshape_r d) \<and> sh_c (out_bshape d') = sh_c (out_bshape_r d)"
  using assms by (cases "gemm_order d") (auto simp: align_gemm_shape_def gemm_extents Let_def)

lemma check_chwise_out_o:
  "check_chwise_gemm_bo (bo\<lparr>bshape := out_bshape d\<rparr>) (gemm_order d) \<longleftrightarrow>
     out_o d < 4096 \<and> (sh_n (out_bshape d) * sh_c (out_bshape d) * out_o d) mod 4096 = 0"
  by (cases "gemm_order d") (simp_all add: check_chwise_gemm_bo_def out_o_def PIM_GEMV_OUT_ALIGN_def Let_def)

lemma word_mod_4096: "x mod 4096 = 0 \<longleftrightarrow> 4096 dvd unat x" for x :: u32
  by (simp add: word_arith_nat_mod dvd_eq_mod_eq_0 unat_eq_zero [symmetric] unat_of_nat take_bit_nat_eq_self)



section \<open>Transposition\<close>

lemma transpose_pairs_set:
  "(d, s) \<in> set (transpose_pairs iters row col) \<longleftrightarrow>
     (\<exists>iter ri ci. iter < iters \<and> ri < row \<and> ci < col
        \<and> d = int (iter * (row * col) + (ci * row + ri)) \<and> s = int (iter * (row * col) + (ri * col + ci)))"
  unfolding transpose_pairs_def in_concat_upt in_map_upt prod.inject by blast

lemma transpose_pairsI:
  "iter < iters \<Longrightarrow> ri < row \<Longrightarrow> ci < col \<Longrightarrow>
   (int (iter * (row * col) + (ci * row + ri)), int (iter * (row * col) + (ri * col + ci)))
     \<in> set (transpose_pairs iters row col)"
  unfolding transpose_pairs_set by blast

lemma transpose_pairs_range:
  assumes "iters * (row * col) \<le> n" "iters * (row * col) \<le> m"
  shows "copy_in_range (transpose_pairs iters row col) n m"
proof -
  have "iter * (row * col) + (ci * row + ri) < iters * (row * col)"
    "iter * (row * col) + (ri * col + ci) < iters * (row * col)"
    if "iter < iters" "ri < row" "ci < col" for iter ri ci
    using that radix_bound [of ci col ri row] radix_bound [of ri row ci col]
    by (auto intro!: radix_bound simp: mult.commute)
  note bound = this
  show ?thesis
    unfolding copy_in_range_def
  proof clarify
    fix d s assume "(d, s) \<in> set (transpose_pairs iters row col)"
    then obtain iter ri ci where ix: "iter < iters" "ri < row" "ci < col"
      and ds: "d = int (iter * (row * col) + (ci * row + ri))" "s = int (iter * (row * col) + (ri * col + ci))"
      unfolding transpose_pairs_set by blast
    show "0 \<le> d \<and> d < int n \<and> 0 \<le> s \<and> s < int m"
      using less_le_trans [OF bound(1) [OF ix] assms(1)] less_le_trans [OF bound(2) [OF ix] assms(2)]
      unfolding ds of_nat_less_iff by simp
  qed
qed

lemma transpose_pairs_sv: "single_valued (set (transpose_pairs iters row col))"
proof (rule single_valuedI)
  fix d s s' assume "(d, s) \<in> set (transpose_pairs iters row col)" "(d, s') \<in> set (transpose_pairs iters row col)"
  then obtain i ri ci i' ri' ci' where *: "ri < row" "ci < col" "ri' < row" "ci' < col"
    and d: "i * (row * col) + (ci * row + ri) = i' * (row * col) + (ci' * row + ri')"
    and s: "s = int (i * (row * col) + (ri * col + ci))" "s' = int (i' * (row * col) + (ri' * col + ci'))"
    unfolding transpose_pairs_set by (auto simp del: of_nat_add of_nat_mult)
  have "ci * row + ri < row * col" "ci' * row + ri' < row * col"
    using * radix_bound [of ci col ri row] radix_bound [of ci' col ri' row] by (simp_all add: mult.commute)
  with d have "i = i' \<and> ci * row + ri = ci' * row + ri'"
    by (rule radix_inj)
  with * radix_inj [of ci row ri ci' ri'] s show "s = s'"
    by simp
qed

text \<open>\<open>transpose_pimbo\<close> on buffers that hold the whole shape writes every element \<open>(ri, ci)\<close> of every
  matrix at \<open>(ci, ri)\<close>, and transposing the result with the transposed shape restores the input.
\<close>

theorem transpose_pimbo_twice:
  assumes "length inp = unat (sh_n s) * unat (sh_c s) * (unat (sh_h s) * unat (sh_w s))"
    and "length out = length inp" "length out2 = length inp"
  shows "\<exists>tr. transpose_pimbo s inp out = Some tr
     \<and> (\<forall>i ri ci. i < unat (sh_n s) * unat (sh_c s) \<and> ri < unat (sh_h s) \<and> ci < unat (sh_w s) \<longrightarrow>
          tr ! (i * (unat (sh_h s) * unat (sh_w s)) + (ci * unat (sh_h s) + ri))
          = inp ! (i * (unat (sh_h s) * unat (sh_w s)) + (ri * unat (sh_w s) + ci)))
     \<and> transpose_pimbo (swap_hw s) tr out2 = Some inp"
proof -
  define m row col where "m = unat (sh_n s) * unat (sh_c s)" and "row = unat (sh_h s)" and "col = unat (sh_w s)"
  note defs = m_def row_def col_def
  have len: "length inp = m * (row * col)" "m * (row * col) = m * (col * row)"
    using assms(1) by (simp_all add: defs)
  have "copy_in_range (transpose_pairs m row col) (length out) (length inp)"
    using transpose_pairs_range assms(2) len by simp
  from copy_elems_spec [OF this transpose_pairs_sv]
  obtain tr where tr: "transpose_pimbo s inp out = Some tr" "length tr = length inp"
    and trn: "\<forall>(d, s)\<in>set (transpose_pairs m row col). tr ! nat d = inp ! nat s"
    using assms(2) by (auto simp: transpose_pimbo_def defs)
  have el: "tr ! (i * (row * col) + (ci * row + ri)) = inp ! (i * (row * col) + (ri * col + ci))"
    if "i < m" "ri < row" "ci < col" for i ri ci
    using bspec [OF trn transpose_pairsI [OF that]] by (simp del: of_nat_add of_nat_mult)
  have "copy_in_range (transpose_pairs m col row) (length out2) (length tr)"
    using transpose_pairs_range assms(3) tr(2) len by simp
  from copy_elems_spec [OF this transpose_pairs_sv]
  obtain b where b: "transpose_pimbo (swap_hw s) tr out2 = Some b" "length b = length inp"
    and bn: "\<forall>(d, s)\<in>set (transpose_pairs m col row). b ! nat d = tr ! nat s"
    using assms(3) by (auto simp: transpose_pimbo_def swap_hw_def defs)
  have "b ! j = inp ! j" if "j < length inp" for j
  proof -
    define i x where "i = j div (row * col)" and "x = j mod (row * col)"
    have "row * col \<noteq> 0" using that len by (auto intro: Nat.gr0I)
    then have x: "x < row * col" "j = i * (row * col) + x"
      unfolding i_def x_def by (simp, metis div_mult_mod_eq)
    have i: "i < m"
      using that len(1) by (simp add: i_def less_mult_imp_div_less)
    define ri ci where "ri = x div col" and "ci = x mod col"
    have rc: "ri < row" "ci < col" "x = ri * col + ci"
      using x(1) \<open>row * col \<noteq> 0\<close> by (auto simp: ri_def ci_def less_mult_imp_div_less)
    have "b ! j = tr ! (i * (row * col) + (ci * row + ri))"
      using bspec [OF bn transpose_pairsI [OF i rc(2,1)]] x(2) rc(3)
      by (simp add: mult.commute [of col row] del: of_nat_add of_nat_mult)
    then show ?thesis
      using el [OF i rc(1,2)] rc(3) x(2) by simp
  qed
  then have "b = inp"
    using b(2) by (simp add: list_eq_iff_nth_eq)
  then show ?thesis
    using tr(1) b(1) el by (auto simp: defs)
qed

theorem transpose_pimbo_twice_witness:
  "\<exists>tr. transpose_pimbo (mk_shape 1 2 2 3) [1, 2, 3, 4, 5, 6, 7, 8, 9, 10, 11, 12] (replicate 12 0) = Some tr
     \<and> transpose_pimbo (swap_hw (mk_shape 1 2 2 3)) tr (replicate 12 0) = Some [1, 2, 3, 4, 5, 6, 7, 8, 9, 10, 11, 12]"
  using transpose_pimbo_twice [of "[1, 2, 3, 4, 5, 6, 7, 8, 9, 10, 11, 12]" "mk_shape 1 2 2 3" "replicate 12 0" "replicate 12 0"]
  by (auto simp: mk_shape_def)

section \<open>Sizes and padding\<close>

text \<open>\<open>set_pimbo\<close> computes the buffer sizes in 32-bit arithmetic: below \<open>2 ^ 32\<close> elements they are the
  sizes of the shapes, but a shape of \<open>2 ^ 32\<close> elements gets a buffer of size 0.
\<close>

theorem set_pimbo_size:
  assumes "gemm_flag_shapes d f = Some (s, s_r)"
  shows "bo_size (set_pimbo d mt f tr bo) = (if gd_precision d = PIM_FP16 then 2 else 1) * (shape_len s mod 2 ^ 32)
    \<and> bo_size_r (set_pimbo d mt f tr bo) = (if gd_precision d = PIM_FP16 then 2 else 1) * (shape_len s_r mod 2 ^ 32)
    \<and> shape_len (mk_shape 1 1 65536 65536) mod 2 ^ 32 = 0"
proof -
  have "unat (shape_prod32 t) = shape_len t mod 2 ^ 32" for t
    by (simp add: shape_prod32_def shape_len_def unat_word_ariths mod_mult_left_eq)
  moreover have "shape_len (mk_shape 1 1 65536 65536) = 2 ^ 32"
    by (simp add: shape_len_def mk_shape_def)
  ultimately show ?thesis
    using assms by (simp add: set_pimbo_def scale_precision_def)
qed

lemma zero_at_spec:
  assumes "\<forall>i\<in>set is. 0 \<le> i \<and> i < int (length buf)"
  shows "\<exists>buf'. zero_at is buf = Some buf' \<and> length buf' = length buf
    \<and> (\<forall>i<length buf. buf' ! i = (if int i \<in> set is then 0 else buf ! i))"
  using assms
proof (induction "is" arbitrary: buf)
  case (Cons i "is")
  have "\<forall>j\<in>set is. 0 \<le> j \<and> j < int (length (buf[nat i := 0]))"
    using Cons.prems by simp
  from Cons.IH [OF this] Cons.prems show ?case
    by (auto simp: nth_list_update) 
qed simp

theorem set_pimbo_size_witness:
  "bo_size (set_pimbo \<lparr>in_bshape = mk_shape 1 1 65536 65536, in_bshape_r = mk_shape 1 1 65536 65535,
       wei_bshape = mk_shape 0 0 0 0, wei_bshape_r = mk_shape 0 0 0 0,
       bias_bshape = mk_shape 0 0 0 0, bias_bshape_r = mk_shape 0 0 0 0,
       out_bshape = mk_shape 0 0 0 0, out_bshape_r = mk_shape 0 0 0 0,
       gd_precision = PIM_FP16, gemm_order = I_X_W\<rparr> MEM_TYPE_HOST GEMM_INPUT False undefined) = 0"
  using set_pimbo_size [of "\<lparr>in_bshape = mk_shape 1 1 65536 65536, in_bshape_r = mk_shape 1 1 65536 65535,
       wei_bshape = mk_shape 0 0 0 0, wei_bshape_r = mk_shape 0 0 0 0,
       bias_bshape = mk_shape 0 0 0 0, bias_bshape_r = mk_shape 0 0 0 0,
       out_bshape = mk_shape 0 0 0 0, out_bshape_r = mk_shape 0 0 0 0,
       gd_precision = PIM_FP16, gemm_order = I_X_W\<rparr>" GEMM_INPUT "mk_shape 1 1 65536 65536"]
  by (simp add: gemm_flag_shapes_def)

lemma pad_gemv_set:
  assumes "unat (sh_n (pd_bshape d)) * unat (sh_w (pd_bshape d)) < 2 ^ 32"
  shows "pad_gemv buf d = zero_at (concat (map (\<lambda>i. map (\<lambda>j. int (i * unat (sh_w (pd_bshape d)) + j))
    [unat (sh_w (pd_bshape_r d))..<unat (sh_w (pd_bshape d))]) [0..<unat (sh_n (pd_bshape d))])) buf"
proof -
  have "uint (of_nat i * sh_w (pd_bshape d) + of_nat j) = int (i * unat (sh_w (pd_bshape d)) + j)"
    if "i < unat (sh_n (pd_bshape d))" "j < unat (sh_w (pd_bshape d))" for i j
  proof -
    have "i * unat (sh_w (pd_bshape d)) + j < 2 ^ 32"
      using less_trans [OF radix_bound [OF that] assms] .
    moreover have "of_nat i * sh_w (pd_bshape d) + of_nat j = (of_nat (i * unat (sh_w (pd_bshape d)) + j) :: u32)"
      by simp
    ultimately show ?thesis
      by (metis unat_of_nat_u32 uint_nat)
  qed
  then show ?thesis
    unfolding pad_gemv_def by (intro arg_cong [of _ _ "\<lambda>l. zero_at l buf"] arg_cong [of _ _ concat] map_cong) auto
qed

text \<open>padding a host vector operand clears, in every row of the aligned buffer, exactly the elements
  beyond the real width.
\<close>

theorem pad_gemv_zeroes:
  assumes "unat (sh_n (pd_bshape d)) * unat (sh_w (pd_bshape d)) < 2 ^ 32"
    and "length buf = unat (sh_n (pd_bshape d)) * unat (sh_w (pd_bshape d))"
  shows "\<exists>buf'. pad_data buf d MEM_TYPE_HOST GEMV_INPUT = Some buf' \<and> length buf' = length buf
    \<and> (\<forall>i j. i < unat (sh_n (pd_bshape d)) \<and> j < unat (sh_w (pd_bshape d)) \<longrightarrow>
         buf' ! (i * unat (sh_w (pd_bshape d)) + j)
         = (if unat (sh_w (pd_bshape_r d)) \<le> j then 0 else buf ! (i * unat (sh_w (pd_bshape d)) + j)))"
proof -
  define n w r where "n = unat (sh_n (pd_bshape d))" and "w = unat (sh_w (pd_bshape d))" and "r = unat (sh_w (pd_bshape_r d))"
  note defs = n_def w_def r_def
  let ?is = "concat (map (\<lambda>i. map (\<lambda>j. int (i * w + j)) [r..<w]) [0..<n])"
  have mem: "k \<in> set ?is \<longleftrightarrow> (\<exists>i<n. \<exists>j. r \<le> j \<and> j < w \<and> k = int (i * w + j))" for k
    unfolding in_concat_upt set_map set_upt image_iff by auto
  have "\<forall>k\<in>set ?is. 0 \<le> k \<and> k < int (length buf)"
    unfolding mem assms(2) by (auto simp: defs [symmetric] radix_bound simp del: of_nat_add of_nat_mult)
  from zero_at_spec [OF this] obtain buf' where b: "zero_at ?is buf = Some buf'" "length buf' = length buf"
    "\<forall>k<length buf. buf' ! k = (if int k \<in> set ?is then 0 else buf ! k)" by auto
  have "buf' ! (i * w + j) = (if r \<le> j then 0 else buf ! (i * w + j))" if "i < n" "j < w" for i j
  proof -
    have "int (i * w + j) \<in> set ?is \<longleftrightarrow> r \<le> j"
      unfolding mem of_nat_eq_iff using that by (auto dest: radix_inj)
    then show ?thesis
      using b(3) radix_bound [OF that] assms(2) by (simp add: defs)
  qed
  then show ?thesis
    using b pad_gemv_set [OF assms(1), of buf] by (auto simp: pad_data_def defs)
qed

definition pad_demo :: PimDesc where
  "pad_demo = \<lparr>pd_bshape = mk_shape 2 1 1 3, pd_bshape_r = mk_shape 2 1 1 2, pd_precision = PIM_FP16, pd_op_type = OP_GEMV\<rparr>"

lemma pad_demo_extents: "unat (sh_n (pd_bshape pad_demo)) = 2" "unat (sh_w (pd_bshape pad_demo)) = 3"
  "unat (sh_w (pd_bshape_r pad_demo)) = 2"
  by (simp_all add: pad_demo_def mk_shape_def)

theorem pad_gemv_zeroes_witness:
  "\<exists>buf'. pad_data [1, 2, 3, 4, 5, 6] pad_demo MEM_TYPE_HOST GEMV_INPUT = Some buf' \<and> buf' ! 2 = 0 \<and> buf' ! 3 = 4"
proof -
  obtain b where b: "pad_data [1, 2, 3, 4, 5, 6] pad_demo MEM_TYPE_HOST GEMV_INPUT = Some b"
    and e: "\<forall>i j. i < 2 \<and> j < 3 \<longrightarrow> b ! (i * 3 + j) = (if 2 \<le> j then 0 else [1, 2, 3, 4, 5, 6] ! (i * 3 + j))"
    using pad_gemv_zeroes [of pad_demo "[1, 2, 3, 4, 5, 6]"] unfolding pad_demo_extents by auto
  show ?thesis
    using b spec [OF spec [OF e, of 0], of 2] spec [OF spec [OF e, of 1], of 0] by (simp add: numeral_2_eq_2)
qed

end
