(* ===== verification/WeightLayout.thy ===== *)
theory WeightLayout
  imports AddrMap ShapeUtil
begin

text \<open>
  The reordering of matrix weights into the layout of the PIM banks, from
  \<open>runtime/source/manager/hip/HipMemoryManager.cpp\<close> (the OpenCL manager has the same loop nests): the
  host loops, which move 32-byte chunks along a running DRAM coordinate, the index functions the
  device kernels use, and the two conversion routines. The loops are modelled by the list of
  (address, chunk) pairs they copy, in order. Loop counters are \<open>nat\<close>; offsets the code keeps in an
  \<open>int\<close> go through \<open>i32\<close>; the index functions write \<open>uint32_t\<close> arithmetic out with \<open>mod 2 ^ 32\<close>.
\<close>

section \<open>Host loops\<close>

record LayoutState =
  ls_cidx :: nat
  ls_rank :: nat
  ls_bg :: nat
  ls_bank :: nat
  even_s :: "u32 \<times> u32"
  odd_s :: "u32 \<times> u32"

definition layout_init :: LayoutState where
  "layout_init = \<lparr>ls_cidx = 0, ls_rank = 0, ls_bg = 0, ls_bank = 0, even_s = (0, 0), odd_s = (0, 0)\<rparr>"

definition grf_cnt :: nat where
  "grf_cnt = nat (num_grf vega20_pbi)"

definition out_tile_size :: nat where
  "out_tile_size = nat (num_grf vega20_pbi * num_pim_blocks vega20_pbi * num_pim_chan vega20_pbi * num_pim_rank vega20_pbi)"

text \<open>The values of a counter that starts at 0 and is advanced by \<open>s\<close> while it is below \<open>n\<close>.\<close>

definition steps :: "nat \<Rightarrow> nat \<Rightarrow> nat list" where
  "steps n s = map (\<lambda>k. k * s) [0..<ceil_div n s]"

definition chunk_idx :: "bool \<Rightarrow> nat \<Rightarrow> nat \<Rightarrow> nat \<Rightarrow> nat \<Rightarrow> nat \<Rightarrow> nat" where
  "chunk_idx emulator in_cnt y x grfb_idx grfa_idx =
     (if emulator then (y + grfa_idx) * in_cnt + x + grfb_idx else (y + grfb_idx) * in_cnt + x + grfa_idx)"

text \<open>The two innermost loops: \<open>row\<close> and \<open>col\<close> are carried by \<open>addr_gen_safe\<close> and \<open>col\<close> advances.\<close>

fun grf_loop :: "u32 \<Rightarrow> u32 \<Rightarrow> u32 \<Rightarrow> u32 \<Rightarrow> nat list \<Rightarrow> u32 \<times> u32 \<Rightarrow> (u64 \<times> nat) list \<times> (u32 \<times> u32)" where
  "grf_loop cidx rank bg bank [] rc = ([], rc)"
| "grf_loop cidx rank bg bank (d # ds) rc =
    (let (addr, row, col) = addr_gen_safe cidx rank bg bank (fst rc) (snd rc);
         (cs, rc') = grf_loop cidx rank bg bank ds (row, col + 1)
     in ((addr, d) # cs, rc'))"

text \<open>Advancing to the next block; the position is saved when the last channel is done.\<close>

definition next_block :: "bool \<Rightarrow> u32 \<times> u32 \<Rightarrow> LayoutState \<Rightarrow> LayoutState" where
  "next_block is_odd rc st =
    (let bank = ls_bank st + nat (num_banks vega20_pbi div num_pim_blocks vega20_pbi);
         (bg, bank) = (if nat (num_banks vega20_pbi div num_bank_groups vega20_pbi) \<le> bank then (ls_bg st + 1, 0)
                       else (ls_bg st, bank));
         (bg, rank) = (if nat (num_bank_groups vega20_pbi) \<le> bg then (0, ls_rank st + 1) else (bg, ls_rank st));
         (rank, cidx) = (if nat (num_pim_rank vega20_pbi) \<le> rank then (0, ls_cidx st + 1) else (rank, ls_cidx st));
         st' = st\<lparr>ls_bank := bank, ls_bg := bg, ls_rank := rank, ls_cidx := cidx\<rparr>
     in if nat (num_pim_chan vega20_pbi) \<le> cidx
        then if is_odd then st'\<lparr>ls_cidx := 0, odd_s := rc\<rparr> else st'\<lparr>ls_cidx := 0, even_s := rc\<rparr>
        else st')"

fun tile_loop :: "bool \<Rightarrow> bool \<Rightarrow> nat \<Rightarrow> nat \<Rightarrow> nat \<Rightarrow> nat list \<Rightarrow> LayoutState \<Rightarrow> (u64 \<times> nat) list \<times> LayoutState" where
  "tile_loop emulator is_odd in_cnt y x [] st = ([], st)"
| "tile_loop emulator is_odd in_cnt y x (tiled_y # tys) st =
    (let bank = (if is_odd then ls_bank st + 1 else ls_bank st);
         ds = concat (map (\<lambda>grfb. map (\<lambda>grfa. chunk_idx emulator in_cnt (y + tiled_y) x grfb grfa) [0..<grf_cnt]) [0..<grf_cnt]);
         (cs, rc) = grf_loop (of_nat (ls_cidx st)) (of_nat (ls_rank st)) (of_nat (ls_bg st)) (of_nat bank) ds
                      (if is_odd then odd_s st else even_s st);
         (rest, st') = tile_loop emulator is_odd in_cnt y x tys (next_block is_odd rc st)
     in (cs @ rest, st'))"

fun x_loop :: "bool \<Rightarrow> nat \<Rightarrow> nat \<Rightarrow> nat list \<Rightarrow> LayoutState \<Rightarrow> (u64 \<times> nat) list \<times> LayoutState" where
  "x_loop emulator in_cnt y [] st = ([], st)"
| "x_loop emulator in_cnt y (x # xs) st =
    (let (cs, st') = tile_loop emulator (x div grf_cnt mod 2 = 1) in_cnt y x (steps out_tile_size grf_cnt) st;
         (rest, st'') = x_loop emulator in_cnt y xs st'
     in (cs @ rest, st''))"

fun y_loop :: "bool \<Rightarrow> nat \<Rightarrow> nat list \<Rightarrow> LayoutState \<Rightarrow> (u64 \<times> nat) list \<times> LayoutState" where
  "y_loop emulator in_cnt [] st = ([], st)"
| "y_loop emulator in_cnt (y # ys) st =
    (let (cs, st') = x_loop emulator in_cnt y (steps in_cnt grf_cnt) st;
         (rest, st'') = y_loop emulator in_cnt ys st'
     in (cs @ rest, st''))"

text \<open>The copies of one iteration over a matrix (aligned) or over 4096 outputs (channel-wise).\<close>

definition aligned_copies :: "bool \<Rightarrow> nat \<Rightarrow> nat \<Rightarrow> (u64 \<times> nat) list" where
  "aligned_copies emulator out_cnt in_cnt = fst (y_loop emulator in_cnt (steps out_cnt out_tile_size) layout_init)"

definition chwise_copies :: "bool \<Rightarrow> nat \<Rightarrow> (u64 \<times> nat) list" where
  "chwise_copies emulator in_cnt = fst (x_loop emulator in_cnt 0 (steps in_cnt grf_cnt) layout_init)"

section \<open>Index functions of the device kernels\<close>

abbreviation m32 :: "nat \<Rightarrow> nat" where "m32 x \<equiv> x mod 2 ^ 32"
abbreviation m64 :: "nat \<Rightarrow> nat" where "m64 x \<equiv> x mod 2 ^ 64"

text \<open>
  The common part of both functions: from the number \<open>prev\<close> of chunks in front of the one wanted to
  its address; \<open>num_grf_A\<close> and \<open>num_grf_B\<close> are 8.
\<close>

definition chunk_addr :: "nat \<Rightarrow> nat \<Rightarrow> nat \<Rightarrow> nat \<Rightarrow> u64" where
  "chunk_addr prev x_tile grfb_idx grfa_idx =
    (let A = nat (num_grf_A vega20_pbi); B = nat (num_grf_B vega20_pbi);
         chan = nat (num_pim_chan vega20_pbi); ranks = nat (num_pim_rank vega20_pbi);
         banks = nat (num_banks vega20_pbi); bgs = nat (num_bank_groups vega20_pbi);
         cols = nat (num_col vega20_pbi) div nat (bl vega20_pbi);
         col_s = m32 (prev div (A * B) div (banks * chan * ranks));
         row_s = m32 (col_s * A * B) div cols;
         col_s = m32 (col_s * A * B) mod cols;
         col = m32 (col_s + grfb_idx * A + grfa_idx);
         row = m32 (row_s + col div cols);
         col = col mod cols;
         after = prev mod (A * B * (banks div 2) * chan * ranks) div (A * B);
         cidx = m32 (after div (banks div 2 * ranks));
         after = after mod (banks div 2 * ranks);
         rank = m32 (after div (banks div 2));
         after = after mod (banks div 2);
         bg = m32 (after div (banks div 2 div bgs));
         bank = m32 (after mod (banks div 2 div bgs) * 2 + x_tile mod 2)
     in addr_gen (of_nat cidx) (of_nat rank) (of_nat bg) (of_nat bank) (of_nat row) (of_nat col))"

definition aligned_gemm_weight_idx ::
    "bool \<Rightarrow> nat \<Rightarrow> nat \<Rightarrow> nat \<Rightarrow> nat \<Rightarrow> nat \<Rightarrow> nat \<Rightarrow> nat \<Rightarrow> nat \<Rightarrow> nat \<Rightarrow> nat" where
  "aligned_gemm_weight_idx emulator n c h w n_cord c_cord h_cord w_cord type_size =
    (let A = nat (num_grf_A vega20_pbi); B = nat (num_grf_B vega20_pbi);
         trans = nat (trans_size vega20_pbi);
         in_cnt = m32 (h * type_size div trans);
         out_tile = B * nat (num_pim_blocks vega20_pbi) * nat (num_pim_chan vega20_pbi) * nat (num_pim_rank vega20_pbi);
         n_c_offset = m64 (m32 (m32 (n_cord * c + c_cord) * h * w) * type_size);
         y_tile = w_cord div out_tile;
         x_tile = m32 (h_cord * type_size div trans div A);
         y_off = w_cord mod out_tile;
         y_tile_data_size = m32 (out_tile * in_cnt * A);
         x_tile_data_size = m32 (out_tile * A);
         k = h_cord * type_size div trans mod A;
         grfb_idx = (if emulator then k else y_off mod B);
         grfa_idx = (if emulator then y_off mod B else k);
         prev = m32 (y_tile * y_tile_data_size + x_tile * x_tile_data_size + y_off div B * B * A + grfb_idx * A + grfa_idx)
     in m64 (n_c_offset + unat (chunk_addr prev x_tile grfb_idx grfa_idx) + h_cord * type_size mod trans) div type_size)"

definition chwise_gemm_weight_idx ::
    "bool \<Rightarrow> nat \<Rightarrow> nat \<Rightarrow> nat \<Rightarrow> nat \<Rightarrow> nat \<Rightarrow> nat \<Rightarrow> nat \<Rightarrow> nat \<Rightarrow> nat \<Rightarrow> nat" where
  "chwise_gemm_weight_idx emulator n c h w n_cord c_cord h_cord w_cord type_size =
    (let A = nat (num_grf_A vega20_pbi); B = nat (num_grf_B vega20_pbi);
         trans = nat (trans_size vega20_pbi); out_tile = nat PIM_GEMV_OUT_ALIGN;
         x_tile = m32 (h_cord * type_size div trans div A);
         y = m32 (n_cord * c * w + c_cord * w + w_cord);
         y_off = y mod out_tile;
         n_c_offset = m32 (y div out_tile * out_tile * h * 2);
         x_tile_data_size = m32 (out_tile * A);
         k = h_cord * type_size div trans mod A;
         grfb_idx = (if emulator then k else y_off mod B);
         grfa_idx = (if emulator then y_off mod B else k);
         prev = m32 (x_tile * x_tile_data_size + y_off div B * B * A + grfb_idx * A + grfa_idx)
     in m64 (n_c_offset + unat (chunk_addr prev x_tile grfb_idx grfa_idx) + h_cord * type_size mod trans) div type_size)"

text \<open>
  The kernels visit every coordinate once (grid-stride loops); the pairs are the (destination, source)
  element indices, listed in row-major order.
\<close>

definition fill_pairs ::
    "(nat \<Rightarrow> nat \<Rightarrow> nat \<Rightarrow> nat \<Rightarrow> nat) \<Rightarrow> nat \<Rightarrow> nat \<Rightarrow> nat \<Rightarrow> nat \<Rightarrow> (nat \<times> nat) list" where
  "fill_pairs idx n c h w =
     concat (map (\<lambda>i. concat (map (\<lambda>j. concat (map (\<lambda>k. map (\<lambda>l.
       (idx i j k l, i * c * h * w + j * h * w + k * w + l)) [0..<w]) [0..<h])) [0..<c])) [0..<n])"

definition fill_gemm_weight_chwise :: "bool \<Rightarrow> nat \<Rightarrow> nat \<Rightarrow> nat \<Rightarrow> nat \<Rightarrow> (nat \<times> nat) list" where
  "fill_gemm_weight_chwise emulator n c h w =
     fill_pairs (\<lambda>i j k l. chwise_gemm_weight_idx emulator n c h w i j k l 2) n c h w"

definition fill_gemm_weight_aligned :: "bool \<Rightarrow> nat \<Rightarrow> nat \<Rightarrow> nat \<Rightarrow> nat \<Rightarrow> (nat \<times> nat) list" where
  "fill_gemm_weight_aligned emulator n c h w =
     fill_pairs (\<lambda>i j k l. aligned_gemm_weight_idx emulator n c h w i j k l 2) n c h w"

section \<open>The loops in closed form\<close>

lemmas layout_consts = grf_cnt_def out_tile_size_def

text \<open>A running coordinate as one number, and the address of chunk column \<open>k\<close> of block \<open>b\<close>.\<close>

definition lin :: "u32 \<times> u32 \<Rightarrow> nat" where
  "lin rc = 32 * unat (fst rc) + unat (snd rc)"

definition block_addr :: "bool \<Rightarrow> nat \<Rightarrow> nat \<Rightarrow> u64" where
  "block_addr is_odd b k =
     addr_gen (of_nat (b div 8)) 0 (of_nat (b div 2 mod 4)) (of_nat (if is_odd then b mod 2 * 2 + 1 else b mod 2 * 2))
       (of_nat (k div 32)) (of_nat (k mod 32))"

lemma unat_div_mod_32: "unat (c div 32) = unat c div 32" "unat (c mod 32) = unat c mod 32" for c :: u32
  by (simp_all add: unat_div_distrib unat_mod_distrib)

lemma carry_lin:
  assumes "lin (row, col) < 2 ^ 32"
  shows "row + col div 32 = of_nat (lin (row, col) div 32)" "col mod 32 = of_nat (lin (row, col) mod 32)"
    "lin (row + col div 32, col mod 32 + 1) = lin (row, col) + 1"
proof -
  have l: "lin (row, col) div 32 = unat row + unat col div 32" "lin (row, col) mod 32 = unat col mod 32"
    by (simp_all add: lin_def)
  have "unat row + unat col div 32 < 2 ^ 32"
    using assms by (simp add: lin_def)
  then have u: "unat (row + col div 32) = unat row + unat col div 32"
    by (subst unat_add_lem [THEN iffD1]) (simp_all add: unat_div_mod_32)
  show "row + col div 32 = of_nat (lin (row, col) div 32)" "col mod 32 = of_nat (lin (row, col) mod 32)"
    unfolding l using u unat_div_mod_32(2) [of col] by (simp_all flip: u unat_div_mod_32(2))
  have "unat (col mod 32 + 1) = unat (col mod 32) + 1"
    using unat_div_mod_32(2) [of col] by (subst unat_add_lem [THEN iffD1]) (simp_all add: less_Suc_eq_le order_trans [of _ 31])
  then show "lin (row + col div 32, col mod 32 + 1) = lin (row, col) + 1"
    using u unat_div_mod_32 by (simp add: lin_def)
qed

lemma grf_loop_eq:
  assumes "lin rc + length ds < 2 ^ 32"
  shows "fst (grf_loop c r g b ds rc) =
      map2 (\<lambda>k d. (addr_gen c r g b (of_nat (k div 32)) (of_nat (k mod 32)), d)) [lin rc..<lin rc + length ds] ds
    \<and> lin (snd (grf_loop c r g b ds rc)) = lin rc + length ds"
  using assms
proof (induction ds arbitrary: rc)
  case (Cons d ds)
  obtain row col where rc: "rc = (row, col)" by fastforce
  have small: "lin (row, col) < 2 ^ 32"
    using Cons.prems rc by simp
  note cl = carry_lin [OF small]
  let ?rc = "(row + col div 32, col mod 32 + 1)"
  have "lin ?rc + length ds < 2 ^ 32"
    using Cons.prems rc cl(3) by simp
  note IH = Cons.IH [OF this]
  obtain cs rc' where rest: "grf_loop c r g b ds ?rc = (cs, rc')"
    by (rule prod.exhaust)
  have "[lin rc..<lin rc + length (d # ds)] = lin rc # [lin ?rc..<lin ?rc + length ds]"
    using cl(3) rc by (simp add: upt_conv_Cons del: upt_Suc)
  then show ?case
    using IH rest cl(1,2) cl(3) rc by (simp add: addr_gen_safe_def col_carry_eq)
qed simp

text \<open>The state before block \<open>b\<close> of a tile; a tile has 512 blocks of 64 chunks.\<close>

definition blk :: "nat \<Rightarrow> LayoutState \<Rightarrow> LayoutState" where
  "blk b st = st\<lparr>ls_cidx := b div 8, ls_rank := 0, ls_bg := b div 2 mod 4, ls_bank := b mod 2 * 2\<rparr>"

definition saved :: "bool \<Rightarrow> LayoutState \<Rightarrow> u32 \<times> u32" where
  "saved is_odd st = (if is_odd then odd_s st else even_s st)"

definition save :: "bool \<Rightarrow> u32 \<times> u32 \<Rightarrow> LayoutState \<Rightarrow> LayoutState" where
  "save is_odd rc st = (if is_odd then st\<lparr>odd_s := rc\<rparr> else st\<lparr>even_s := rc\<rparr>)"

lemma saved_save [simp]:
  "saved o1 (save o2 rc st) = (if o1 = o2 then rc else saved o1 st)" "saved o1 (blk b st) = saved o1 st"
  by (auto simp: saved_def save_def blk_def)

lemma blk_save [simp]: "blk b (save is_odd rc st) = save is_odd rc (blk b st)" "blk b (blk b' st) = blk b st"
  by (auto simp: save_def blk_def)

lemma block_carry:
  fixes b :: nat
  shows "b mod 2 = 0 \<Longrightarrow> Suc b div 8 = b div 8 \<and> Suc b div 2 = b div 2 \<and> Suc b mod 2 = 1"
    "b mod 2 = 1 \<Longrightarrow> b div 2 mod 4 < 3 \<Longrightarrow> Suc b div 8 = b div 8 \<and> Suc b div 2 mod 4 = Suc (b div 2 mod 4) \<and> Suc b mod 2 = 0"
    "b mod 2 = 1 \<Longrightarrow> b div 2 mod 4 = 3 \<Longrightarrow> Suc b div 8 = Suc (b div 8) \<and> Suc b div 2 mod 4 = 0 \<and> Suc b mod 2 = 0"
proof -
  have m8: "b mod 8 = 2 * (b div 2 mod 4) + b mod 2"
    using mod_mult2_eq [of b 2 4] by simp
  show "b mod 2 = 0 \<Longrightarrow> Suc b div 8 = b div 8 \<and> Suc b div 2 = b div 2 \<and> Suc b mod 2 = 1"
    "b mod 2 = 1 \<Longrightarrow> b div 2 mod 4 < 3 \<Longrightarrow> Suc b div 8 = b div 8 \<and> Suc b div 2 mod 4 = Suc (b div 2 mod 4) \<and> Suc b mod 2 = 0"
    "b mod 2 = 1 \<Longrightarrow> b div 2 mod 4 = 3 \<Longrightarrow> Suc b div 8 = Suc (b div 8) \<and> Suc b div 2 mod 4 = 0 \<and> Suc b mod 2 = 0"
    by (simp_all only: div_Suc mod_Suc m8) (auto simp: mod_Suc)
qed

lemma block_bounds:
  fixes b :: nat
  assumes "b < 512"
  shows "b div 8 < 64" "b mod 2 = 0 \<or> b div 2 mod 4 < 3 \<Longrightarrow> b < 511" "b < 511 \<Longrightarrow> b mod 2 = 1 \<Longrightarrow> b div 2 mod 4 = 3 \<Longrightarrow> Suc (b div 8) < 64"
proof -
  have m8: "b mod 8 = 2 * (b div 2 mod 4) + b mod 2"
    using mod_mult2_eq [of b 2 4] by simp
  show "b div 8 < 64" using assms by (simp add: less_mult_imp_div_less)
  show "b mod 2 = 0 \<or> b div 2 mod 4 < 3 \<Longrightarrow> b < 511"
    using assms by (cases "b = 511") auto
  show "Suc (b div 8) < 64" if "b < 511" "b mod 2 = 1" "b div 2 mod 4 = 3"
    using that m8 div_mult_mod_eq [of b 8] by linarith
qed

lemma next_block_blk:
  assumes "b < 512"
  shows "next_block is_odd rc (blk b st) = (if b < 511 then blk (b + 1) st else save is_odd rc (blk 0 st))"
proof -
  consider (e) "b mod 2 = 0" | (o) "b mod 2 = 1" "b div 2 mod 4 < 3" | (w) "b mod 2 = 1" "b div 2 mod 4 = 3"
    by linarith
  then show ?thesis
  proof cases
    case e
    have "b div 2 mod 4 < 4" by simp
    moreover have "b div 8 < 64" "b < 511" using block_bounds [OF assms] e by blast+
    ultimately show ?thesis using e block_carry(1) [OF e] by (simp add: next_block_def blk_def)
  next
    case o
    have "b div 8 < 64" "b < 511" using block_bounds [OF assms] o by blast+
    then show ?thesis using o block_carry(2) [OF o] by (simp add: next_block_def blk_def)
  next
    case w
    show ?thesis
    proof (cases "b < 511")
      case True
      then show ?thesis
        using w block_carry(3) [OF w] block_bounds(3) [OF assms True w] by (simp add: next_block_def blk_def)
    next
      case False
      then have "b = 511" using assms by simp
      then show ?thesis by (simp add: next_block_def blk_def save_def)
    qed
  qed
qed

definition tile_chunk :: "bool \<Rightarrow> nat \<Rightarrow> nat \<Rightarrow> nat \<Rightarrow> nat \<Rightarrow> nat \<Rightarrow> nat" where
  "tile_chunk emulator in_cnt y x b j = chunk_idx emulator in_cnt (y + b * 8) x (j div 8) (j mod 8)"

lemma block_chunks:
  "concat (map (\<lambda>grfb. map (\<lambda>grfa. chunk_idx emulator in_cnt (y + b * 8) x grfb grfa) [0..<8]) [0..<8])
   = map (tile_chunk emulator in_cnt y x b) [0..<64]"
  by (subst concat_map_flat) (simp_all add: tile_chunk_def)

definition tile_copies :: "bool \<Rightarrow> bool \<Rightarrow> nat \<Rightarrow> nat \<Rightarrow> nat \<Rightarrow> nat \<Rightarrow> nat \<Rightarrow> (u64 \<times> nat) list" where
  "tile_copies emulator is_odd in_cnt y x base b =
     map (\<lambda>j. (block_addr is_odd b (base + j), tile_chunk emulator in_cnt y x b j)) [0..<64]"

lemma block_copies:
  assumes "lin (saved is_odd st) + 64 < 2 ^ 32"
  shows "\<exists>rc. tile_loop emulator is_odd in_cnt y x (b * 8 # tys) (blk b st) =
      (let (rest, st') = tile_loop emulator is_odd in_cnt y x tys (next_block is_odd rc (blk b st))
       in (tile_copies emulator is_odd in_cnt y x (lin (saved is_odd st)) b @ rest, st'))
    \<and> lin rc = lin (saved is_odd st) + 64"
proof -
  let ?ds = "map (tile_chunk emulator in_cnt y x b) [0..<64]"
  let ?bank = "of_nat (if is_odd then b mod 2 * 2 + 1 else b mod 2 * 2) :: u32"
  define g where "g = grf_loop (of_nat (b div 8)) 0 (of_nat (b div 2 mod 4)) ?bank ?ds (saved is_odd st)"
  have g: "fst g = tile_copies emulator is_odd in_cnt y x (lin (saved is_odd st)) b" "lin (snd g) = lin (saved is_odd st) + 64"
    using assms grf_loop_eq [of "saved is_odd st" ?ds] unfolding g_def
    by (simp_all add: tile_copies_def map_upt_add [of _ "lin (saved is_odd st)" 64] block_addr_def zip_map2 map_equality_iff)
  have "tile_loop emulator is_odd in_cnt y x (b * 8 # tys) (blk b st) =
      (let (rest, st') = tile_loop emulator is_odd in_cnt y x tys (next_block is_odd (snd g) (blk b st))
       in (fst g @ rest, st'))"
    unfolding g_def by (simp add: layout_consts block_chunks blk_def saved_def split_beta Let_def)
  then show ?thesis
    using g by (intro exI [of _ "snd g"]) simp
qed

lemma tile_loop_eq:
  assumes "lin (saved is_odd st) + 64 < 2 ^ 32" "b < 512"
  shows "\<exists>rc. tile_loop emulator is_odd in_cnt y x (map (\<lambda>k. k * 8) [b..<512]) (blk b st)
     = (concat (map (tile_copies emulator is_odd in_cnt y x (lin (saved is_odd st))) [b..<512]), save is_odd rc (blk 0 st))
     \<and> lin rc = lin (saved is_odd st) + 64"
  using assms(2)
proof (induction "511 - b" arbitrary: b)
  case 0
  then have "b = 511" by simp
  then show ?case
    using block_copies [OF assms(1), of emulator in_cnt y x 511 "[]"] by (simp add: next_block_blk)
next
  case (Suc k)
  then have b: "b < 511" and k: "k = 511 - (b + 1)" by simp_all
  obtain rc1 where rc1: "tile_loop emulator is_odd in_cnt y x (b * 8 # map (\<lambda>k. k * 8) [b + 1..<512]) (blk b st) =
      (let (rest, st') = tile_loop emulator is_odd in_cnt y x (map (\<lambda>k. k * 8) [b + 1..<512]) (next_block is_odd rc1 (blk b st))
       in (tile_copies emulator is_odd in_cnt y x (lin (saved is_odd st)) b @ rest, st'))"
    using block_copies [OF assms(1)] by blast
  obtain rc2 where rc2: "tile_loop emulator is_odd in_cnt y x (map (\<lambda>k. k * 8) [b + 1..<512]) (blk (b + 1) st)
     = (concat (map (tile_copies emulator is_odd in_cnt y x (lin (saved is_odd st))) [b + 1..<512]), save is_odd rc2 (blk 0 st))"
    and l: "lin rc2 = lin (saved is_odd st) + 64"
    using Suc.hyps(1) [OF k] b by auto
  have "next_block is_odd rc1 (blk b st) = blk (b + 1) st"
    using next_block_blk b by simp
  then have "tile_loop emulator is_odd in_cnt y x (map (\<lambda>k. k * 8) [b..<512]) (blk b st)
     = (concat (map (tile_copies emulator is_odd in_cnt y x (lin (saved is_odd st))) [b..<512]), save is_odd rc2 (blk 0 st))"
    using rc1 rc2 b by (simp add: upt_conv_Cons del: tile_loop.simps upt_Suc)
  with l show ?case by blast
qed

lemma steps_tile: "steps out_tile_size grf_cnt = map (\<lambda>k. k * 8) [0..<512]"
  by (simp add: steps_def layout_consts ceil_div_def)

lemma steps_exact: "0 < s \<Longrightarrow> steps (n * s) s = map (\<lambda>k. k * s) [0..<n]"
  by (simp add: steps_def)

text \<open>A tile moves one of the two saved positions by 64 chunk columns.\<close>

definition tile :: "bool \<Rightarrow> nat \<Rightarrow> nat \<Rightarrow> nat \<Rightarrow> nat \<Rightarrow> (u64 \<times> nat) list" where
  "tile emulator in_cnt y x base =
     concat (map (tile_copies emulator (odd x) in_cnt (y * 4096) (x * 8) base) [0..<512])"

definition positions :: "LayoutState \<Rightarrow> nat \<Rightarrow> nat \<Rightarrow> bool" where
  "positions st e d \<longleftrightarrow> ls_cidx st = 0 \<and> ls_rank st = 0 \<and> ls_bg st = 0 \<and> ls_bank st = 0
     \<and> lin (even_s st) = e \<and> lin (odd_s st) = d"

lemma tile_step:
  assumes "positions st e d" "(if odd k then d else e) + 64 < 2 ^ 32"
  shows "\<exists>st'. tile_loop emulator (k * 8 div grf_cnt mod 2 = 1) in_cnt (y * 4096) (k * 8) (steps out_tile_size grf_cnt) st
      = (tile emulator in_cnt y k (if odd k then d else e), st')
    \<and> positions st' (if odd k then e else e + 64) (if odd k then d + 64 else d)"
proof -
  have sv: "lin (saved (odd k) st) = (if odd k then d else e)"
    using assms(1) by (auto simp: positions_def saved_def)
  have st: "st = blk 0 st"
    using assms(1) by (cases st) (simp add: positions_def blk_def)
  have par: "(k * 8 div grf_cnt mod 2 = 1) = odd k"
    by (simp add: layout_consts odd_iff_mod_2_eq_one)
  obtain rc where t: "tile_loop emulator (odd k) in_cnt (y * 4096) (k * 8) (map (\<lambda>k. k * 8) [0..<512]) (blk 0 st)
     = (concat (map (tile_copies emulator (odd k) in_cnt (y * 4096) (k * 8) (lin (saved (odd k) st))) [0..<512]), save (odd k) rc (blk 0 st))"
    and l: "lin rc = lin (saved (odd k) st) + 64"
    using tile_loop_eq [of "odd k" st 0] assms(2) sv by fastforce
  have "positions (save (odd k) rc (blk 0 st)) (if odd k then e else e + 64) (if odd k then d + 64 else d)"
    using assms(1) l sv by (auto simp: positions_def save_def blk_def split: if_splits)
  then show ?thesis
    unfolding par steps_tile using t sv by (subst st) (auto simp: tile_def)
qed

lemma x_loop_eq:
  assumes "positions st (e + 64 * ((j + 1) div 2)) (d + 64 * (j div 2))"
    and "e + 32 * X + 64 < 2 ^ 32" "d + 32 * X + 64 < 2 ^ 32" "j \<le> X"
  shows "\<exists>st'. x_loop emulator in_cnt (y * 4096) (map (\<lambda>k. k * 8) [j..<X]) st
      = (concat (map (\<lambda>k. tile emulator in_cnt y k ((if odd k then d else e) + 64 * (k div 2))) [j..<X]), st')
    \<and> positions st' (e + 64 * ((X + 1) div 2)) (d + 64 * (X div 2))"
  using assms(1,4)
proof (induction "X - j" arbitrary: j st)
  case (Suc n)
  then have j: "j < X" and n: "n = X - (j + 1)" by simp_all
  let ?base = "(if odd j then d else e) + 64 * (j div 2)"
  have half: "even j \<Longrightarrow> (j + 1) div 2 = j div 2 \<and> (j + 2) div 2 = j div 2 + 1" "odd j \<Longrightarrow> (j + 1) div 2 = j div 2 + 1 \<and> (j + 2) div 2 = j div 2 + 1"
    by (auto elim!: evenE oddE)
  have b: "(if odd j then d + 64 * (j div 2) else e + 64 * ((j + 1) div 2)) = ?base"
    using half by simp
  have small: "?base + 64 < 2 ^ 32"
  proof -
    have "64 * (j div 2) \<le> 32 * X" using j by simp
    then show ?thesis using assms(2,3) by auto
  qed
  obtain st1 where st1: "tile_loop emulator (j * 8 div grf_cnt mod 2 = 1) in_cnt (y * 4096) (j * 8) (steps out_tile_size grf_cnt) st
      = (tile emulator in_cnt y j ?base, st1)"
    and p1: "positions st1 (e + 64 * ((j + 2) div 2)) (d + 64 * ((j + 1) div 2))"
    using tile_step [OF Suc.prems(1), of j emulator in_cnt y] small b half by (cases "odd j") (auto simp: algebra_simps)
  from Suc.hyps(1) [OF n, of st1] p1 j
  obtain st2 where "x_loop emulator in_cnt (y * 4096) (map (\<lambda>k. k * 8) [j + 1..<X]) st1
      = (concat (map (\<lambda>k. tile emulator in_cnt y k ((if odd k then d else e) + 64 * (k div 2))) [j + 1..<X]), st2)"
    "positions st2 (e + 64 * ((X + 1) div 2)) (d + 64 * (X div 2))"
    by (auto simp: add.commute)
  then show ?case
    using st1 j by (intro exI [of _ st2]) (simp add: upt_conv_Cons del: upt_Suc)
qed simp

definition row_base :: "nat \<Rightarrow> nat \<Rightarrow> nat \<Rightarrow> nat" where
  "row_base X y k = 64 * (y * (if odd k then X div 2 else (X + 1) div 2))"

lemma row_base_bound:
  assumes "y \<le> Y" "64 * ((Y + 1) * (X + 2)) < 2 ^ 32"
  shows "row_base X y k + 32 * X + 64 < 2 ^ 32"
proof -
  have "(if odd k then X div 2 else (X + 1) div 2) \<le> (X + 1) div 2"
    by (simp add: div_le_mono)
  then have "64 * (y * (if odd k then X div 2 else (X + 1) div 2)) \<le> 64 * (Y * ((X + 1) div 2))"
    using assms(1) by (intro mult_le_mono2 mult_le_mono)
  moreover have "64 * (Y * ((X + 1) div 2)) \<le> 64 * (Y * (X + 2))"
    by (intro mult_le_mono2) simp
  ultimately show ?thesis
    using assms(2) by (simp add: row_base_def algebra_simps)
qed

lemma y_loop_eq:
  assumes "positions st (row_base X j 0) (row_base X j 1)" "j \<le> Y" "64 * ((Y + 1) * (X + 2)) < 2 ^ 32"
  shows "\<exists>st'. y_loop emulator (X * 8) (map (\<lambda>y. y * 4096) [j..<Y]) st
    = (concat (map (\<lambda>y. concat (map (\<lambda>k. tile emulator (X * 8) y k (row_base X y k + 64 * (k div 2))) [0..<X])) [j..<Y]), st')"
  using assms(1,2)
proof (induction "Y - j" arbitrary: j st)
  case (Suc n)
  then have j: "j < Y" and n: "n = Y - (j + 1)" by simp_all
  have base: "(if odd k then row_base X j 1 else row_base X j 0) = row_base X j k" for k
    by (simp add: row_base_def)
  have b: "row_base X j 0 + 32 * X + 64 < 2 ^ 32" "row_base X j 1 + 32 * X + 64 < 2 ^ 32"
    using row_base_bound [OF _ assms(3)] j by auto
  have p: "positions st (row_base X j 0 + 64 * ((0 + 1) div 2)) (row_base X j 1 + 64 * (0 div 2))"
    using Suc.prems(1) by simp
  obtain st1 where st1: "x_loop emulator (X * 8) (j * 4096) (map (\<lambda>k. k * 8) [0..<X]) st
      = (concat (map (\<lambda>k. tile emulator (X * 8) j k (row_base X j k + 64 * (k div 2))) [0..<X]), st1)"
    and p1: "positions st1 (row_base X j 0 + 64 * ((X + 1) div 2)) (row_base X j 1 + 64 * (X div 2))"
    using x_loop_eq [OF p b] unfolding base by blast
  have "positions st1 (row_base X (j + 1) 0) (row_base X (j + 1) 1)"
    using p1 by (simp add: row_base_def algebra_simps)
  from Suc.hyps(1) [OF n this] j obtain st2 where
    "y_loop emulator (X * 8) (map (\<lambda>y. y * 4096) [j + 1..<Y]) st1
    = (concat (map (\<lambda>y. concat (map (\<lambda>k. tile emulator (X * 8) y k (row_base X y k + 64 * (k div 2))) [0..<X])) [j + 1..<Y]), st2)"
    by auto
  then show ?case
    using st1 j steps_exact [of 8 X] by (intro exI [of _ st2]) (simp add: upt_conv_Cons layout_consts del: upt_Suc)
qed simp

text \<open>
  Copy number \<open>i\<close> of an iteration: tile row \<open>y\<close>, tile \<open>k\<close>, block \<open>b\<close> and chunk \<open>j\<close> are the digits of
  \<open>i\<close> in mixed radix.
\<close>

definition copy_at :: "bool \<Rightarrow> nat \<Rightarrow> nat \<Rightarrow> u64 \<times> nat" where
  "copy_at emulator X i =
    (let j = i mod 64; b = i div 64 mod 512; k = i div 32768 mod X; y = i div 32768 div X
     in (block_addr (odd k) b (row_base X y k + 64 * (k div 2) + j), tile_chunk emulator (X * 8) (y * 4096) (k * 8) b j))"

lemma tile_flat:
  "tile emulator in_cnt y k base = map (\<lambda>i. (block_addr (odd k) (i div 64) (base + i mod 64),
     tile_chunk emulator in_cnt (y * 4096) (k * 8) (i div 64) (i mod 64))) [0..<32768]"
proof -
  have "tile emulator in_cnt y k base = concat (map (\<lambda>b. map (\<lambda>j. (block_addr (odd k) b (base + j),
      tile_chunk emulator in_cnt (y * 4096) (k * 8) b j)) [0..<64]) [0..<512])"
    unfolding tile_def tile_copies_def ..
  also have "\<dots> = map (\<lambda>i. (block_addr (odd k) (i div 64) (base + i mod 64),
      tile_chunk emulator in_cnt (y * 4096) (k * 8) (i div 64) (i mod 64))) [0..<512 * 64]"
    by (rule concat_map_flat) simp
  finally show ?thesis
    by simp
qed

lemma steps_out: "steps (Y * 4096) out_tile_size = map (\<lambda>y. y * 4096) [0..<Y]"
  using steps_exact [of 4096 Y] by (simp add: layout_consts)

lemma copy_digits:
  fixes i X :: nat
  shows "i div (X * 32768) = i div 32768 div X" "i mod (X * 32768) div 32768 = i div 32768 mod X"
    "i mod (X * 32768) mod 32768 div 64 = i div 64 mod 512" "i mod (X * 32768) mod 32768 mod 64 = i mod 64"
proof -
  have m: "i mod (X * 32768) = 32768 * (i div 32768 mod X) + i mod 32768"
    using mod_mult2_eq [of i 32768 X] by (simp add: mult.commute)
  show "i div (X * 32768) = i div 32768 div X"
    using div_mult2_eq [of i 32768 X] by (simp add: mult.commute)
  show "i mod (X * 32768) div 32768 = i div 32768 mod X"
    unfolding m by simp
  have r: "i mod (X * 32768) mod 32768 = i mod 32768"
    unfolding m by simp
  have "i mod 32768 = 64 * (i div 64 mod 512) + i mod 64"
    using mod_mult2_eq [of i 64 512] by simp
  then show "i mod (X * 32768) mod 32768 div 64 = i div 64 mod 512" "i mod (X * 32768) mod 32768 mod 64 = i mod 64"
    unfolding r by simp_all
qed

lemma aligned_copies_flat:
  assumes "64 * ((Y + 1) * (X + 2)) < 2 ^ 32"
  shows "aligned_copies emulator (Y * 4096) (X * 8) = map (copy_at emulator X) [0..<Y * X * 32768]"
proof (cases "X = 0")
  case True
  obtain st' where "y_loop emulator (X * 8) (map (\<lambda>y. y * 4096) [0..<Y]) layout_init
    = (concat (map (\<lambda>y. concat (map (\<lambda>k. tile emulator (X * 8) y k (row_base X y k + 64 * (k div 2))) [0..<X])) [0..<Y]), st')"
    using y_loop_eq [of layout_init X 0 Y] assms by (auto simp: positions_def layout_init_def row_base_def lin_def)
  then show ?thesis
    using True by (simp add: aligned_copies_def steps_out)
next
  case False
  let ?f = "\<lambda>y k i. (block_addr (odd k) (i div 64) (row_base X y k + 64 * (k div 2) + i mod 64),
     tile_chunk emulator (X * 8) (y * 4096) (k * 8) (i div 64) (i mod 64))"
  obtain st' where "y_loop emulator (X * 8) (map (\<lambda>y. y * 4096) [0..<Y]) layout_init
    = (concat (map (\<lambda>y. concat (map (\<lambda>k. tile emulator (X * 8) y k (row_base X y k + 64 * (k div 2))) [0..<X])) [0..<Y]), st')"
    using y_loop_eq [of layout_init X 0 Y] assms by (auto simp: positions_def layout_init_def row_base_def lin_def)
  then have "aligned_copies emulator (Y * 4096) (X * 8)
    = concat (map (\<lambda>y. concat (map (\<lambda>k. map (?f y k) [0..<32768]) [0..<X])) [0..<Y])"
    by (simp add: aligned_copies_def steps_out tile_flat)
  also have "\<dots> = concat (map (\<lambda>y. map (\<lambda>i. ?f y (i div 32768) (i mod 32768)) [0..<X * 32768]) [0..<Y])"
    by (simp add: concat_map_flat [of 32768])
  also have "\<dots> = map (\<lambda>i. ?f (i div (X * 32768)) (i mod (X * 32768) div 32768) (i mod (X * 32768) mod 32768)) [0..<Y * (X * 32768)]"
    using False by (intro concat_map_flat) simp
  also have "\<dots> = map (copy_at emulator X) [0..<Y * X * 32768]"
    unfolding copy_digits copy_at_def Let_def by (simp add: mult.assoc)
  finally show ?thesis .
qed

section \<open>No chunk is lost and none is overwritten\<close>

lemma of_nat_u32_inj: "of_nat a = (of_nat b :: u32) \<Longrightarrow> a < 2 ^ 32 \<Longrightarrow> b < 2 ^ 32 \<Longrightarrow> a = b"
  by (metis unat_of_nat_u32)

lemma of_nat_u32_less: "a < n \<Longrightarrow> n < 2 ^ 32 \<Longrightarrow> of_nat a < (of_nat n :: u32)"
  by (simp add: word_less_nat_alt unat_of_nat_u32)

lemma bank_bound: "(if p then b mod 2 * 2 + 1 else b mod 2 * 2) < (4::nat)"
proof -
  have "b mod 2 = 0 \<or> b mod 2 = 1" by auto
  then show ?thesis by auto
qed

lemma block_coord_ok:
  assumes "b < 512" "k < 2 ^ 19"
  shows "coord_ok (of_nat (b div 8), 0, of_nat (b div 2 mod 4), of_nat (if p then b mod 2 * 2 + 1 else b mod 2 * 2),
     of_nat (k div 32), of_nat (k mod 32))"
proof -
  have "b div 8 < 64" "k div 32 < 2 ^ 14" "b div 2 mod 4 < 4" "k mod 32 < 32"
    using assms by (simp_all add: less_mult_imp_div_less)
  note this [THEN of_nat_u32_less] and bank_bound [THEN of_nat_u32_less, of p b]
  then show ?thesis
    unfolding coord_ok_def by simp
qed

lemma block_addr_inj:
  assumes "block_addr p b k = block_addr p' b' k'" "b < 512" "b' < 512" "k < 2 ^ 19" "k' < 2 ^ 19"
  shows "p = p' \<and> b = b' \<and> k = k'"
proof -
  let ?bank = "\<lambda>p b. if p then b mod 2 * 2 + 1 else b mod 2 * 2 :: nat"
  let ?c = "\<lambda>p b k. (of_nat (b div 8) :: u32, 0 :: u32, of_nat (b div 2 mod 4) :: u32,
    of_nat (?bank p b) :: u32, of_nat (k div 32) :: u32, of_nat (k mod 32) :: u32)"
  have c: "?c p b k = ?c p' b' k'"
    using assms(1) unfolding block_addr_def
    by (metis (mono_tags, lifting) coord_of_addr [OF block_coord_ok [OF assms(2,4)]] coord_of_addr [OF block_coord_ok [OF assms(3,5)]])
  have "b div 8 = b' div 8" "b div 2 mod 4 = b' div 2 mod 4" "k div 32 = k' div 32" "k mod 32 = k' mod 32"
    using c assms(2-5) by (auto intro!: of_nat_u32_inj simp: less_mult_imp_div_less)
  moreover have "?bank p b = ?bank p' b'"
    using c bank_bound [of p b] bank_bound [of p' b'] by (intro of_nat_u32_inj) (simp_all only: prod.inject, simp_all)
  moreover from this have "p = p'" "b mod 2 = b' mod 2"
    by (simp_all split: if_splits) presburger+
  moreover have "c = 8 * (c div 8) + 2 * (c div 2 mod 4) + c mod 2" for c :: nat
    using mod_mult2_eq [of c 2 4] mult_div_mod_eq [of 8 c] by simp
  ultimately show ?thesis
    by (metis mult_div_mod_eq)
qed

lemma copy_number:
  fixes i :: nat
  shows "i = ((i div 32768 div X * X + i div 32768 mod X) * 512 + i div 64 mod 512) * 64 + i mod 64"
proof -
  have "i div 32768 = i div 64 div 512"
    using div_mult2_eq [of i 64 512] by simp
  then have "i div 64 = (i div 32768) * 512 + i div 64 mod 512"
    by simp
  moreover have "i div 32768 = i div 32768 div X * X + i div 32768 mod X"
    by simp
  ultimately have "i = (i div 64) * 64 + i mod 64" "i div 64 = (i div 32768 div X * X + i div 32768 mod X) * 512 + i div 64 mod 512"
    by simp_all
  then show ?thesis
    by simp
qed

lemma copy_at_position:
  fixes i H Y :: nat
  assumes "i < Y * (2 * H) * 32768"
  defines "k \<equiv> i div 32768 mod (2 * H)" and "y \<equiv> i div 32768 div (2 * H)"
  shows "row_base (2 * H) y k + 64 * (k div 2) + i mod 64 = (y * H + k div 2) * 64 + i mod 64"
    and "y < Y" and "k < 2 * H" and "k div 2 < H"
    and "(y * H + k div 2) * 64 + i mod 64 < Y * H * 64"
proof -
  have H: "0 < H" using assms(1) by (cases H) auto
  show y: "y < Y"
    using assms(1) unfolding y_def by (simp add: less_mult_imp_div_less mult.assoc)
  show "k < 2 * H" "k div 2 < H"
    using H by (simp_all add: k_def less_mult_imp_div_less mult.commute)
  then have "(y * H + k div 2) < Y * H"
    using y radix_bound by blast
  then show "(y * H + k div 2) * 64 + i mod 64 < Y * H * 64"
    using radix_bound [of "y * H + k div 2" "Y * H" "i mod 64" 64] by simp
  show "row_base (2 * H) y k + 64 * (k div 2) + i mod 64 = (y * H + k div 2) * 64 + i mod 64"
    by (simp add: row_base_def algebra_simps)
qed

lemma copy_at_inj:
  assumes "Y * (2 * H) \<le> 2 ^ 14"
  shows "inj_on (\<lambda>i. fst (copy_at emulator (2 * H) i)) {..<Y * (2 * H) * 32768}"
proof (rule inj_onI)
  fix i i' assume "i \<in> {..<Y * (2 * H) * 32768}" "i' \<in> {..<Y * (2 * H) * 32768}"
    and eq: "fst (copy_at emulator (2 * H) i) = fst (copy_at emulator (2 * H) i')"
  then have i: "i < Y * (2 * H) * 32768" and i': "i' < Y * (2 * H) * 32768" by simp_all
  note p = copy_at_position [OF i] and p' = copy_at_position [OF i']
  define k y k' y' where "k = i div 32768 mod (2 * H)" and "y = i div 32768 div (2 * H)"
    and "k' = i' div 32768 mod (2 * H)" and "y' = i' div 32768 div (2 * H)"
  note d = k_def y_def k'_def y'_def
  have "Y * H * 64 \<le> 2 ^ 19" using assms by simp
  then have small: "(y * H + k div 2) * 64 + i mod 64 < 2 ^ 19" "(y' * H + k' div 2) * 64 + i' mod 64 < 2 ^ 19"
    using less_le_trans [OF p(5)] less_le_trans [OF p'(5)] by (simp_all only: d)
  have "block_addr (odd k) (i div 64 mod 512) ((y * H + k div 2) * 64 + i mod 64)
      = block_addr (odd k') (i' div 64 mod 512) ((y' * H + k' div 2) * 64 + i' mod 64)"
    using eq unfolding copy_at_def Let_def fst_conv p(1) p'(1) by (simp add: d)
  from block_addr_inj [OF this _ _ small] have e: "odd k = odd k'" "i div 64 mod 512 = i' div 64 mod 512"
    "(y * H + k div 2) * 64 + i mod 64 = (y' * H + k' div 2) * 64 + i' mod 64"
    by simp_all
  have "y * H + k div 2 = y' * H + k' div 2" "i mod 64 = i' mod 64"
    using radix_inj [OF e(3)] by simp_all
  moreover from this(1) have "y = y'" "k div 2 = k' div 2"
    using radix_inj [of y H "k div 2" y' "k' div 2"] p(4) p'(4) by (simp_all add: d)
  moreover have "k = k'"
    using e(1) \<open>k div 2 = k' div 2\<close> by presburger
  ultimately show "i = i'"
    using copy_number [of i "2 * H"] copy_number [of i' "2 * H"] e(2) unfolding d by metis
qed

lemma block_addr_range:
  assumes "b < 512" "k < 2 ^ 19"
  shows "unat (block_addr p b k) + 32 \<le> 2 ^ 20 * (k div 32 + 1)" "32 dvd unat (block_addr p b k)"
proof -
  have "k div 32 < 2 ^ 32"
    using assms(2) by (simp add: less_mult_imp_div_less)
  then show "unat (block_addr p b k) + 32 \<le> 2 ^ 20 * (k div 32 + 1)" "32 dvd unat (block_addr p b k)"
    using addr_gen_in_row [OF block_coord_ok [OF assms, of p]] by (simp_all add: block_addr_def unat_of_nat_u32)
qed

lemma tile_chunk_radix:
  "tile_chunk emulator (X * 8) (y * 4096) (k * 8) b j =
     ((y * 512 + b) * 8 + (if emulator then j mod 8 else j div 8)) * (X * 8) + (k * 8 + (if emulator then j div 8 else j mod 8))"
  by (simp add: tile_chunk_def chunk_idx_def algebra_simps)

lemma chunk_inj:
  fixes y b k j :: nat
  assumes "((y * 512 + b) * 8 + p) * (X * 8) + (k * 8 + q) = ((y' * 512 + b') * 8 + p') * (X * 8) + (k' * 8 + q')"
    and "b < 512" "b' < 512" "p < 8" "p' < 8" "q < 8" "q' < 8" "k < X" "k' < X"
  shows "y = y' \<and> b = b' \<and> p = p' \<and> k = k' \<and> q = q'"
proof -
  have "k * 8 + q < X * 8" "k' * 8 + q' < X * 8"
    using assms by (simp_all add: radix_bound)
  with assms(1) have 1: "(y * 512 + b) * 8 + p = (y' * 512 + b') * 8 + p'" "k * 8 + q = k' * 8 + q'"
    using radix_inj by blast+
  then show ?thesis
    using radix_inj [OF 1(1)] radix_inj [OF 1(2)] radix_inj [of y 512 b y' b'] assms by simp
qed

lemma copy_chunk_inj:
  assumes "0 < X"
  shows "inj_on (\<lambda>i. snd (copy_at emulator X i)) {..<Y * X * 32768}"
proof (rule inj_onI)
  fix i i' assume eq: "snd (copy_at emulator X i) = snd (copy_at emulator X i')"
  have d: "j mod 64 div 8 < 8" "j mod 64 mod 8 < 8" for j :: nat
    by (simp_all add: less_mult_imp_div_less)
  note e = eq [unfolded copy_at_def Let_def snd_conv tile_chunk_radix]
  have m: "j mod 512 < 512" "j mod X < X" for j :: nat
    using assms by simp_all
  have "i div 32768 div X = i' div 32768 div X \<and> i div 64 mod 512 = i' div 64 mod 512
     \<and> i div 32768 mod X = i' div 32768 mod X \<and> i mod 64 div 8 = i' mod 64 div 8 \<and> i mod 64 mod 8 = i' mod 64 mod 8"
  proof (cases emulator)
    case True
    from chunk_inj [OF e [unfolded if_P [OF True]] m(1) m(1) d(2) d(2) d(1) d(1) m(2) m(2)] show ?thesis by blast
  next
    case False
    from chunk_inj [OF e [unfolded if_not_P [OF False]] m(1) m(1) d(1) d(1) d(2) d(2) m(2) m(2)] show ?thesis by blast
  qed
  moreover from this have "i mod 64 = i' mod 64"
    by (metis mult_div_mod_eq)
  ultimately show "i = i'"
    using copy_number [of i X] copy_number [of i' X] by metis
qed

lemma copy_chunk_bound:
  assumes "i < Y * X * 32768"
  shows "snd (copy_at emulator X i) < Y * X * 32768"
proof -
  have X: "0 < X" using assms by (cases X) auto
  have y: "i div 32768 div X < Y"
    using assms by (simp add: less_mult_imp_div_less mult.assoc)
  have d: "j mod 64 div 8 < 8" "j mod 8 < 8" for j :: nat
    by (simp_all add: less_mult_imp_div_less)
  let ?p = "if emulator then i mod 64 mod 8 else i mod 64 div 8" and ?q = "if emulator then i mod 64 div 8 else i mod 64 mod 8"
  have pq: "?p < 8" "?q < 8" using d by auto
  have "(i div 32768 div X * 512 + i div 64 mod 512) * 8 + ?p < Y * 512 * 8"
    using radix_bound [OF radix_bound [OF y, of "i div 64 mod 512" 512] pq(1)] by simp
  moreover have "i div 32768 mod X * 8 + ?q < X * 8"
    using radix_bound [OF _ pq(2), of "i div 32768 mod X" X] X by simp
  ultimately have "((i div 32768 div X * 512 + i div 64 mod 512) * 8 + ?p) * (X * 8) + (i div 32768 mod X * 8 + ?q) < Y * 512 * 8 * (X * 8)"
    by (rule radix_bound)
  then show ?thesis
    unfolding copy_at_def Let_def snd_conv tile_chunk_radix by (simp add: mult.commute mult.left_commute)
qed

lemma copy_addr_range:
  assumes "i < Y * (2 * H) * 32768" "Y * (2 * H) \<le> 2 ^ 14"
  shows "32 dvd unat (fst (copy_at emulator (2 * H) i))
    \<and> unat (fst (copy_at emulator (2 * H) i)) + 32 \<le> 32 * (Y * (2 * H) * 32768)"
proof -
  note p = copy_at_position [OF assms(1)]
  let ?k = "(i div 32768 div (2 * H) * H + i div 32768 mod (2 * H) div 2) * 64 + i mod 64"
  have k: "?k < Y * H * 64" "Y * H * 64 \<le> 2 ^ 19"
    using p(5) assms(2) by simp_all
  have "?k div 32 < Y * (2 * H)"
    using k(1) by (simp add: less_mult_imp_div_less)
  then have "2 ^ 20 * (?k div 32 + 1) \<le> 2 ^ 20 * (Y * (2 * H))"
    by (intro mult_le_mono2) simp
  then have row: "2 ^ 20 * (?k div 32 + 1) \<le> 32 * (Y * (2 * H) * 32768)"
    by simp
  have "i div 64 mod 512 < 512"
    by simp
  note r = block_addr_range [OF this less_le_trans [OF k], of "odd (i div 32768 mod (2 * H))"]
  show ?thesis
    unfolding copy_at_def Let_def fst_conv p(1) using r(2) order_trans [OF r(1) row] by blast
qed

lemma aligned_copies_empty: "aligned_copies emulator n 0 = []"
proof -
  have "y_loop emulator 0 ys st = ([], st)" for ys st
    by (induction ys) (simp_all add: steps_def ceil_div_def layout_consts)
  then show ?thesis by (simp add: aligned_copies_def)
qed

lemma aligned_copies_permute:
  assumes "Y * (2 * H) \<le> 2 ^ 14"
  shows "let cs = aligned_copies emulator (Y * 4096) (2 * H * 8); chunks = Y * 4096 * (2 * H * 8)
    in length cs = chunks \<and> distinct (map snd cs) \<and> set (map snd cs) = {..<chunks}
     \<and> distinct (map fst cs) \<and> (\<forall>a\<in>set (map fst cs). 32 dvd unat a \<and> unat a + 32 \<le> 32 * chunks)"
proof (cases "H = 0 \<or> Y = 0")
  case True
  have "aligned_copies emulator (Y * 4096) (2 * H * 8) = []"
    using True
  proof
    assume "H = 0"
    then show ?thesis
      using assms aligned_copies_empty by simp
  qed (simp add: aligned_copies_def steps_def ceil_div_def layout_consts)
  then show ?thesis using True by (auto simp: Let_def)
next
  case False
  define N where "N = Y * (2 * H) * 32768"
  have "Y \<le> Y * (2 * H)" "2 * H \<le> Y * (2 * H)" using False by simp_all
  note le = this [THEN order_trans, OF assms]
  define M where "M = Y * (2 * H)"
  have eq: "(Y + 1) * (2 * H + 2) = M + 2 * Y + 2 * H + 2" by (simp add: M_def algebra_simps)
  have "64 * ((Y + 1) * (2 * H + 2)) < 2 ^ 32"
    unfolding eq using le assms [folded M_def] by simp
  then have cs: "aligned_copies emulator (Y * 4096) (2 * H * 8) = map (copy_at emulator (2 * H)) [0..<N]"
    unfolding N_def by (rule aligned_copies_flat)
  have N: "Y * 4096 * (2 * H * 8) = N" by (simp add: N_def)
  have inj: "inj_on (\<lambda>i. snd (copy_at emulator (2 * H) i)) {..<N}"
    unfolding N_def using False by (intro copy_chunk_inj) simp
  have sub: "(\<lambda>i. snd (copy_at emulator (2 * H) i)) ` {..<N} \<subseteq> {..<N}"
    using copy_chunk_bound [of _ Y "2 * H"] unfolding N_def by blast
  then have "(\<lambda>i. snd (copy_at emulator (2 * H) i)) ` {..<N} = {..<N}"
    using inj by (intro endo_inj_surj) simp_all
  moreover have "32 dvd unat (fst (copy_at emulator (2 * H) i)) \<and> unat (fst (copy_at emulator (2 * H) i)) + 32 \<le> 32 * N" if "i < N" for i
    using that assms(1) copy_addr_range N_def by blast
  ultimately show ?thesis
    using inj copy_at_inj [OF assms(1), of emulator, folded N_def]
    unfolding Let_def cs N by (auto simp: distinct_map inj_on_def atLeast0LessThan image_image)
qed

text \<open>C38: one iteration of the host reordering of a weight matrix with \<open>4096 * Y\<close> outputs and
  \<open>16 * H\<close> input chunks (what the alignment of half-precision shapes guarantees), as long as it fits
  the 16384 rows of a bank, copies every 32-byte chunk of the source exactly once; the destinations are
  32-byte aligned, pairwise different and inside the buffer. The layout is a permutation of the matrix.
\<close>

theorem aligned_layout_permutes:
  assumes "Y * (2 * H) \<le> 2 ^ 14"
  shows "let cs = aligned_copies emulator (Y * 4096) (2 * H * 8); chunks = Y * 4096 * (2 * H * 8)
    in length cs = chunks \<and> distinct (map snd cs) \<and> set (map snd cs) = {..<chunks}
     \<and> distinct (map fst cs) \<and> (\<forall>a\<in>set (map fst cs). 32 dvd unat a \<and> unat a + 32 \<le> 32 * chunks)"
  using assms by (rule aligned_copies_permute)

lemma aligned_layout_permutes_witness:
  "distinct (map fst (aligned_copies False 4096 16)) \<and> set (map snd (aligned_copies False 4096 16)) = {..<65536}"
  using aligned_layout_permutes [of 1 1 False] by (simp add: Let_def)

text \<open>
  The channel-wise reordering of 4096 outputs is the aligned one of a single tile row.
\<close>

lemma chwise_copies_aligned: "chwise_copies emulator in_cnt = aligned_copies emulator 4096 in_cnt"
proof -
  have "steps 4096 out_tile_size = [0]"
    using steps_out [of 1] by simp
  then show ?thesis
    by (simp add: chwise_copies_def aligned_copies_def split_beta)
qed

section \<open>Agreement with the device kernels\<close>

lemma device_digits:
  fixes x b p q :: nat
  assumes "b < 512" "p < 8" "q < 8"
  defines "prev \<equiv> x * 32768 + b * 64 + p * 8 + q"
  shows "prev div 64 div 1024 = x div 2" and "prev mod 32768 div 64 = b"
proof -
  have pq: "p * 8 + q < 64" using radix_bound [OF assms(2,3)] by simp
  have e: "prev = (x * 512 + b) * 64 + (p * 8 + q)"
    by (simp add: prev_def algebra_simps)
  have d: "prev div 64 = x * 512 + b" unfolding e using pq by simp
  show "prev div 64 div 1024 = x div 2"
  proof -
    have "(x * 512 + b) div 1024 = (x * 512 + b) div 512 div 2"
      using div_mult2_eq [of "x * 512 + b" 512 2] by simp
    then show ?thesis unfolding d using assms(1) by simp
  qed
  have "prev mod 32768 = 64 * (prev div 64 mod 512) + prev mod 64"
    using mod_mult2_eq [of prev 64 512] by simp
  then show "prev mod 32768 div 64 = b"
    unfolding d using assms(1) by simp
qed

lemma half_row:
  fixes h r :: nat
  shows "(64 * h + r) div 32 = 2 * h + r div 32" "(64 * h + r) mod 32 = r mod 32"
proof -
  have "64 * h + r = 2 * h * 32 + r" by simp
  then show "(64 * h + r) div 32 = 2 * h + r div 32" "(64 * h + r) mod 32 = r mod 32"
    by (metis div_mult_self3 zero_neq_numeral, metis mod_mult_self3)
qed

lemma geometry:
  "nat (num_grf_A vega20_pbi) = 8" "nat (num_grf_B vega20_pbi) = 8" "nat (num_pim_chan vega20_pbi) = 64"
  "nat (num_pim_rank vega20_pbi) = 1" "nat (num_banks vega20_pbi) = 16" "nat (num_bank_groups vega20_pbi) = 4"
  "nat (num_col vega20_pbi) = 128" "nat (bl vega20_pbi) = 4" "nat (trans_size vega20_pbi) = 32"
  "nat (num_pim_blocks vega20_pbi) = 8" "nat PIM_GEMV_OUT_ALIGN = 4096"
  by (simp_all add: PIM_GEMV_OUT_ALIGN_def)

lemma geometry_products:
  "8 * 8 = (64::nat)" "16 * 64 * 1 = (1024::nat)" "128 div 4 = (32::nat)" "16 div 2 = (8::nat)" "8 * 1 = (8::nat)"
  "64 * 8 * 64 * 1 = (32768::nat)" "8 div 4 = (2::nat)" "8 * 8 * 64 * 1 = (4096::nat)"
  by simp_all

text \<open>The index computation with the constants of the device filled in.\<close>

lemma chunk_addr_geometry:
  "chunk_addr prev x p q =
     (let t = m32 (m32 (prev div 64 div 1024) * 8 * 8); a = prev mod 32768 div 64; c = m32 (t mod 32 + p * 8 + q)
      in addr_gen (of_nat (m32 (a div 8))) (of_nat (m32 (a mod 8 div 8))) (of_nat (m32 (a mod 8 mod 8 div 2)))
           (of_nat (m32 (a mod 8 mod 8 mod 2 * 2 + x mod 2))) (of_nat (m32 (t div 32 + c div 32))) (of_nat (c mod 32)))"
  unfolding chunk_addr_def Let_def geometry geometry_products ..

lemma chunk_addr_eq:
  assumes "b < 512" "p < 8" "q < 8" "x < 2 ^ 15"
  shows "chunk_addr (x * 32768 + b * 64 + p * 8 + q) x p q = block_addr (odd x) b (64 * (x div 2) + (p * 8 + q))"
proof -
  note d = device_digits [OF assms(1-3), of x]
  have pq: "p * 8 + q < 64" using radix_bound [OF assms(2,3)] by simp
  have t: "m32 (m32 (x div 2) * 8 * 8) = 64 * (x div 2)"
    using assms(4) by simp
  have col: "64 * (x div 2) mod 32 = 0" "64 * (x div 2) div 32 = 2 * (x div 2)"
    using half_row [of "x div 2" 0] by simp_all
  have c: "m32 (0 + p * 8 + q) = p * 8 + q"
    using pq by simp
  have r: "m32 (2 * (x div 2) + (p * 8 + q) div 32) = 2 * (x div 2) + (p * 8 + q) div 32"
    using assms(4) pq by simp
  have b: "m32 (b div 8) = b div 8" "m32 (b mod 8 div 8) = 0" "m32 (b mod 8 mod 8 div 2) = b div 2 mod 4"
    using mod_mult2_eq [of b 2 4] assms(1) by simp_all
  have "b mod 8 mod 8 mod 2 * 2 + x mod 2 = (if odd x then b mod 2 * 2 + 1 else b mod 2 * 2)"
    by (simp add: mod_mod_cancel odd_iff_mod_2_eq_one)
  then have "m32 (b mod 8 mod 8 mod 2 * 2 + x mod 2) = (if odd x then b mod 2 * 2 + 1 else b mod 2 * 2)"
    using bank_bound [of "odd x" b] by (simp only:) (rule mod_less, rule less_trans, assumption, simp)
  then show ?thesis
    unfolding block_addr_def chunk_addr_geometry Let_def d t col c r b half_row by simp
qed

lemma host_copy:
  assumes "x < X" "b < 512" "p < 8" "q < 8" "X \<le> 2 ^ 14"
  shows "(block_addr (odd x) b (64 * (x div 2) + (p * 8 + q)), chunk_idx emulator (X * 8) (b * 8) (x * 8) p q)
     \<in> set (aligned_copies emulator 4096 (X * 8))"
proof -
  let ?i = "(x * 512 + b) * 64 + (p * 8 + q)"
  have pq: "p * 8 + q < 64" using radix_bound [OF assms(3,4)] by simp
  have "?i < X * 512 * 64"
    using radix_bound [OF radix_bound [OF assms(1,2)] pq] .
  moreover have "((x * 512 + b) * 64 + r) div 64 = x * 512 + b" "((x * 512 + b) * 64 + r) mod 64 = r" if "r < 64" for r
    unfolding mod_mult_self3 using that by simp_all
  note digits = this [OF pq]
  moreover have "?i div 32768 = x"
    using div_mult2_eq [of ?i 64 512] digits(1) assms(2) by simp
  ultimately have "copy_at emulator X ?i =
      (block_addr (odd x) b (64 * (x div 2) + (p * 8 + q)), chunk_idx emulator (X * 8) (b * 8) (x * 8) p q)"
    using assms by (simp add: copy_at_def row_base_def tile_chunk_def)
  moreover have "aligned_copies emulator (1 * 4096) (X * 8) = map (copy_at emulator X) [0..<1 * X * 32768]"
    using assms(5) by (intro aligned_copies_flat) simp
  ultimately show ?thesis
    using \<open>?i < X * 512 * 64\<close> by (auto simp: image_iff intro!: bexI [of _ ?i])
qed

lemma device_index:
  assumes "off < 2 ^ 32" "even off" "32 dvd unat a" "unat (a :: u64) + 32 \<le> 2 ^ 34"
  shows "m64 (off + unat a + h * 2 mod 32) div 2 = (off + unat a) div 2 + h mod 16"
proof -
  have m: "h * 2 mod 32 = h mod 16 * 2"
    using mod_mult_mult2 [of h 2 16] by simp
  have "off + unat a + h mod 16 * 2 < 2 ^ 64"
    using assms(1,4) by simp
  moreover have "even (off + unat a)"
    using assms(2,3) by (auto elim: dvd_trans [rotated])
  ultimately show ?thesis
    unfolding m by (auto elim!: evenE)
qed

text \<open>
  The chunk of output \<open>y\<close> that holds input \<open>k\<close>: the address the index functions compute for it is the
  one the host loops copy it to.
\<close>

definition chunk_slot :: "bool \<Rightarrow> nat \<Rightarrow> nat \<Rightarrow> u64" where
  "chunk_slot emulator y k =
     (let p = if emulator then k div 16 mod 8 else y mod 8; q = if emulator then y mod 8 else k div 16 mod 8
      in block_addr (odd (k div 128)) (y div 8) (64 * (k div 128 div 2) + (p * 8 + q)))"

lemma slot_digits:
  "k * 2 div 32 = k div 16" "k div 16 div 8 = k div 128" "k div 16 = k div 128 * 8 + k div 16 mod 8" for k :: nat
proof -
  show "k * 2 div 32 = k div 16"
    using div_mult_mult2 [of 2 k 16] by simp
  show "k div 16 div 8 = k div 128"
    using div_mult2_eq [of k 16 8] by simp
  then show "k div 16 = k div 128 * 8 + k div 16 mod 8"
    using div_mult_mod_eq [of "k div 16" 8] by simp
qed

lemma chunk_slot_copied:
  assumes "y < 4096" "k < 128 * X" "X \<le> 2 ^ 14"
  shows "(chunk_slot emulator y k, y * (X * 8) + k div 16) \<in> set (aligned_copies emulator 4096 (X * 8))"
proof -
  let ?x = "k div 128" and ?b = "y div 8"
  have x: "?x < X" and b: "?b < 512"
    using assms by (simp_all add: less_mult_imp_div_less mult.commute)
  have e: "(?b * 8 + y mod 8) * (X * 8) + ?x * 8 + k div 16 mod 8 = y * (X * 8) + k div 16"
    using slot_digits(3) [of k] by simp
  have m: "k div 16 mod 8 < 8" "y mod 8 < 8" by simp_all
  show ?thesis
  proof (cases emulator)
    case True
    then show ?thesis
      using host_copy [OF x b m(1) m(2) assms(3), of emulator] e by (simp add: chunk_slot_def chunk_idx_def add.assoc)
  next
    case False
    then show ?thesis
      using host_copy [OF x b m(2) m(1) assms(3), of emulator] e by (simp add: chunk_slot_def chunk_idx_def add.assoc)
  qed
qed

lemma chunk_slot_range:
  assumes "y < 4096" "k < 2 ^ 21"
  shows "32 dvd unat (chunk_slot emulator y k)" "unat (chunk_slot emulator y k) + 32 \<le> 2 ^ 34"
proof -
  define r where "r = (if emulator then k div 16 mod 8 else y mod 8) * 8 + (if emulator then y mod 8 else k div 16 mod 8)"
  define p where "p = 64 * (k div 128 div 2) + r"
  have "r < 8 * 8" unfolding r_def by (rule radix_bound) simp_all
  moreover have "k div 128 div 2 < 2 ^ 13"
    using assms(2) by (simp add: less_mult_imp_div_less)
  ultimately have p: "p < 2 ^ 19" by (simp add: p_def)
  have b: "y div 8 < 512" using assms(1) by (simp add: less_mult_imp_div_less)
  have "p div 32 + 1 \<le> 2 ^ 14" using p by (simp add: Suc_leI less_mult_imp_div_less)
  then have "2 ^ 20 * (p div 32 + 1) \<le> 2 ^ 34" by simp
  moreover have "chunk_slot emulator y k = block_addr (odd (k div 128)) (y div 8) p"
    by (simp add: chunk_slot_def Let_def p_def r_def)
  ultimately show "32 dvd unat (chunk_slot emulator y k)" "unat (chunk_slot emulator y k) + 32 \<le> 2 ^ 34"
    using block_addr_range [OF b p, of "odd (k div 128)"] by simp_all
qed

lemma chunk_addr_slot:
  assumes "y < 4096" "k < 2 ^ 21"
  shows "chunk_addr (m32 (k * 2 div 32 div 8 * m32 (4096 * 8) + y div 8 * 8 * 8
      + (if emulator then k * 2 div 32 mod 8 else y mod 8) * 8 + (if emulator then y mod 8 else k * 2 div 32 mod 8)))
      (k * 2 div 32 div 8) (if emulator then k * 2 div 32 mod 8 else y mod 8) (if emulator then y mod 8 else k * 2 div 32 mod 8)
    = chunk_slot emulator y k"
proof -
  define p q where "p = (if emulator then k div 16 mod 8 else y mod 8)" and "q = (if emulator then y mod 8 else k div 16 mod 8)"
  have pq: "p < 8" "q < 8" by (simp_all add: p_def q_def)
  have b: "y div 8 < 512" using assms(1) by (simp add: less_mult_imp_div_less)
  have x: "k div 128 < 2 ^ 15" using assms(2) by (simp add: less_mult_imp_div_less)
  have "m32 (k div 128 * m32 (4096 * 8) + y div 8 * 8 * 8 + p * 8 + q) = k div 128 * 32768 + y div 8 * 64 + p * 8 + q"
    using x b pq by simp
  then show ?thesis
    unfolding slot_digits(1,2) chunk_slot_def Let_def p_def [symmetric] q_def [symmetric]
    using chunk_addr_eq [OF b pq x] by simp
qed

text \<open>C39: for a channel-wise weight of \<open>128 * X\<close> inputs the device kernel writes every element to the place
  where the host loop of its group of 4096 outputs copies the chunk that holds it: both ways of
  reordering produce the same layout.
\<close>

theorem chwise_device_agrees:
  assumes "X \<le> 2 ^ 14" "h = 128 * X" "h_cord < h"
    and "y = n_cord * c * w + c_cord * w + w_cord" "y < 2 ^ 32" "y div 4096 * 4096 * h * 2 < 2 ^ 32"
  shows "\<exists>a. (a, y mod 4096 * (X * 8) + h_cord div 16) \<in> set (chwise_copies emulator (X * 8))
    \<and> chwise_gemm_weight_idx emulator n c h w n_cord c_cord h_cord w_cord 2
      = (y div 4096 * 4096 * h * 2 + unat a) div 2 + h_cord mod 16"
proof (intro exI conjI)
  let ?a = "chunk_slot emulator (y mod 4096) h_cord"
  have ym: "y mod 4096 < 4096" by simp
  have hc: "h_cord < 2 ^ 21" using assms(1-3) by simp
  have y: "m32 (n_cord * c * w + c_cord * w + w_cord) = y" "m32 (y div 4096 * 4096 * h * 2) = y div 4096 * 4096 * h * 2"
    using assms(4-6) by simp_all
  have "h_cord div 128 < 2 ^ 14" using hc by (simp add: less_mult_imp_div_less)
  then have x: "m32 (h_cord * 2 div 32 div 8) = h_cord * 2 div 32 div 8"
    unfolding slot_digits(1,2) by simp
  have "even (y div 4096 * 4096 * h * 2)" by simp
  note d = device_index [OF assms(6) this chunk_slot_range [OF ym hc, of emulator], of h_cord]
  show "chwise_gemm_weight_idx emulator n c h w n_cord c_cord h_cord w_cord 2
      = (y div 4096 * 4096 * h * 2 + unat ?a) div 2 + h_cord mod 16"
    unfolding chwise_gemm_weight_idx_def Let_def geometry y x chunk_addr_slot [OF ym hc] by (rule d)
  show "(?a, y mod 4096 * (X * 8) + h_cord div 16) \<in> set (chwise_copies emulator (X * 8))"
    using chunk_slot_copied [OF ym] assms(1-3) by (simp add: chwise_copies_aligned)
qed

lemma chwise_device_agrees_witness:
  "\<exists>a. (a, 1234 * 16 + 200 div 16) \<in> set (chwise_copies False 16)
    \<and> chwise_gemm_weight_idx False 8 4 256 256 4 3 200 466 2 = (4096 * 256 * 2 + unat a) div 2 + 200 mod 16"
  using chwise_device_agrees [of 2 256 200 5330 4 4 256 3 466 False 8] by simp

text \<open>C40: the device kernel of the aligned layout agrees with the host loop on the first 4096 outputs.
\<close>

theorem aligned_device_agrees:
  assumes "X \<le> 2 ^ 14" "h = 128 * X" "h_cord < h" "w_cord < 4096" "m = n_cord * c + c_cord" "m < 2 ^ 32" "m * h * w * 2 < 2 ^ 32"
  shows "\<exists>a. (a, w_cord * (X * 8) + h_cord div 16) \<in> set (aligned_copies emulator 4096 (X * 8))
    \<and> aligned_gemm_weight_idx emulator n c h w n_cord c_cord h_cord w_cord 2
      = (m * h * w * 2 + unat a) div 2 + h_cord mod 16"
proof (intro exI conjI)
  let ?a = "chunk_slot emulator w_cord h_cord"
  have hc: "h_cord < 2 ^ 21" using assms(1-3) by simp
  have "m * h * w < 2 ^ 32" by (rule le_less_trans [OF _ assms(7)]) simp
  then have y: "m32 (n_cord * c + c_cord) = m" "m32 (m * h * w) = m * h * w" "m64 (m * h * w * 2) = m * h * w * 2"
    using assms(5-7) by simp_all
  have "h_cord div 128 < 2 ^ 14" using hc by (simp add: less_mult_imp_div_less)
  then have x: "m32 (h_cord * 2 div 32 div 8) = h_cord * 2 div 32 div 8"
    unfolding slot_digits(1,2) by simp
  have w: "w_cord div (8 * 8 * 64 * 1) = 0" "w_cord mod (8 * 8 * 64 * 1) = w_cord" "0 * z + v = v" "8 * 8 * 64 * 1 = (4096::nat)" for z v :: nat
    using assms(4) by simp_all
  have "even (m * h * w * 2)" by simp
  note d = device_index [OF assms(7) this chunk_slot_range [OF assms(4) hc, of emulator], of h_cord]
  show "aligned_gemm_weight_idx emulator n c h w n_cord c_cord h_cord w_cord 2
      = (m * h * w * 2 + unat ?a) div 2 + h_cord mod 16"
    unfolding aligned_gemm_weight_idx_def Let_def geometry y x w(1,2,3) unfolding w(4) chunk_addr_slot [OF assms(4) hc] by (rule d)
  show "(?a, w_cord * (X * 8) + h_cord div 16) \<in> set (aligned_copies emulator 4096 (X * 8))"
    using chunk_slot_copied [OF assms(4)] assms(1-3) by simp
qed

lemma aligned_device_agrees_witness:
  "\<exists>a. (a, 4000 * 16 + 200 div 16) \<in> set (aligned_copies False 4096 16)
    \<and> aligned_gemm_weight_idx False 2 3 256 4096 1 2 200 4000 2 = (5 * 256 * 4096 * 2 + unat a) div 2 + 200 mod 16"
  using aligned_device_agrees [of 2 256 200 4000 5 1 3 2 4096 False 2] by simp

text \<open>beyond the first 4096 outputs it does not: the size of a tile row is counted in elements of a
  chunk instead of chunks, so element (0, 4096) of a 256 x 8192 weight goes to index 8388608, while the
  matrix has 2097152 elements and the host loop copies its chunk to byte 2097152, element 1048576.
\<close>

theorem aligned_device_overruns:
  "aligned_gemm_weight_idx False 1 1 256 8192 0 0 0 4096 2 = 8388608
   \<and> (256::nat) * 8192 = 2097152
   \<and> (2097152, 4096 * 16) \<in> set (aligned_copies False 8192 16)"
proof -
  have "chunk_addr 524288 0 0 0 = addr_gen 0 0 0 0 16 0"
    by (simp add: chunk_addr_geometry)
  moreover have "addr_gen 0 0 0 0 16 0 = 16777216"
    by (simp add: addr_gen_layout)
  ultimately have "chunk_addr 524288 0 0 0 = 16777216"
    by simp
  then have "aligned_gemm_weight_idx False 1 1 256 8192 0 0 0 4096 2 = 8388608"
    unfolding aligned_gemm_weight_idx_def Let_def geometry by simp
  moreover have "copy_at False 2 65536 = (2097152, 4096 * 16)"
    by (simp add: copy_at_def Let_def block_addr_def row_base_def tile_chunk_def chunk_idx_def addr_gen_layout)
  moreover have "copy_at False 2 65536 \<in> set (map (copy_at False 2) [0..<2 * 2 * 32768])"
    unfolding set_map set_upt by (rule imageI) simp
  moreover have "aligned_copies False (2 * 4096) (2 * 8) = map (copy_at False 2) [0..<2 * 2 * 32768]"
    by (rule aligned_copies_flat) simp
  ultimately show ?thesis
    by (simp only:) simp
qed

end
