(* ===== verification/HipMemory.thy ===== *)
theory HipMemory
  imports BlockAlloc WeightLayout
begin

text \<open>
  The HIP memory manager, \<open>runtime/source/manager/hip/HipMemoryManager.cpp\<close>: device discovery in the
  constructor, allocation, release, copies and the conversion of weight layouts. The HIP runtime is a
  parameter: \<open>HipApi\<close> gives its calls as functions on a state of its own. An operation returns \<open>None\<close>
  where the source has no defined behaviour (an index outside a vector, \<open>front\<close> of an empty list) or
  throws; error codes are the \<open>int\<close> results.
\<close>

section \<open>The HIP runtime\<close>

datatype hipMemcpyKind = hipMemcpyHostToHost | hipMemcpyHostToDevice | hipMemcpyDeviceToHost | hipMemcpyDeviceToDevice

record PitchedPtr =
  pp_ptr :: addr
  pp_pitch :: nat
  pp_xsize :: nat
  pp_ysize :: nat

record Memcpy3DParms =
  p3_srcPos :: "nat \<times> nat \<times> nat"
  p3_dstPos :: "nat \<times> nat \<times> nat"
  p3_extent :: "nat \<times> nat \<times> nat"
  p3_srcPtr :: PitchedPtr
  p3_dstPtr :: PitchedPtr
  p3_kind :: hipMemcpyKind

text \<open>
  \<open>Some\<close> address or \<open>True\<close> is \<open>hipSuccess\<close>. \<open>hip_fill\<close> is the launch of a fill kernel: it moves the
  elements with the given (destination, source) indices. \<open>hip_calloc\<close> and \<open>hip_cfree\<close> are the C heap.
\<close>

record 'w HipApi =
  hip_Malloc :: "nat \<Rightarrow> 'w \<Rightarrow> addr option \<times> 'w"
  hip_HostMalloc :: "nat \<Rightarrow> 'w \<Rightarrow> addr option \<times> 'w"
  hip_Free :: "addr \<Rightarrow> 'w \<Rightarrow> bool \<times> 'w"
  hip_HostFree :: "addr \<Rightarrow> 'w \<Rightarrow> 'w"
  hip_Memcpy :: "addr \<Rightarrow> addr \<Rightarrow> nat \<Rightarrow> hipMemcpyKind \<Rightarrow> 'w \<Rightarrow> bool \<times> 'w"
  hip_Memcpy3D :: "Memcpy3DParms \<Rightarrow> 'w \<Rightarrow> bool \<times> 'w"
  hip_GetDevice :: "'w \<Rightarrow> int"
  hip_GetDeviceCount :: "'w \<Rightarrow> nat"
  hip_fill :: "(nat \<times> nat) list \<Rightarrow> addr \<Rightarrow> addr \<Rightarrow> 'w \<Rightarrow> 'w"
  hip_calloc :: "nat \<Rightarrow> 'w \<Rightarrow> addr \<times> 'w"
  hip_cfree :: "addr \<Rightarrow> 'w \<Rightarrow> 'w"

section \<open>Device discovery\<close>

text \<open>\<open>std::stoi\<close> in base 10; no digits or a value outside \<open>int\<close> throw.\<close>

definition dec_digit :: "char \<Rightarrow> int option" where
  "dec_digit c = (let n = of_char c :: int in if 48 \<le> n \<and> n \<le> 57 then Some (n - 48) else None)"

fun dec_value :: "int \<Rightarrow> string \<Rightarrow> int" where
  "dec_value acc [] = acc"
| "dec_value acc (c # cs) = (case dec_digit c of None \<Rightarrow> acc | Some d \<Rightarrow> dec_value (10 * acc + d) cs)"

definition blank :: "char \<Rightarrow> bool" where
  "blank c \<longleftrightarrow> of_char c \<in> {32, 9, 10, 11, 12, 13 :: int}"

definition stoi :: "string \<Rightarrow> int option" where
  "stoi str =
    (let s1 = dropWhile blank str;
         s2 = (if take 1 s1 \<in> {''-'', ''+''} then tl s1 else s1)
     in if s2 = [] \<or> dec_digit (hd s2) = None then None
        else let v = (if take 1 s1 = ''-'' then - dec_value 0 s2 else dec_value 0 s2)
             in if i32_range v then Some v else None)"

function parse_devices :: "string \<Rightarrow> int list option" where
  "parse_devices env =
    (if CHR '','' \<in> set env
     then Option.bind (stoi (takeWhile (\<lambda>c. c \<noteq> CHR '','') env)) (\<lambda>num.
            map_option (\<lambda>rest. num # rest) (parse_devices (tl (dropWhile (\<lambda>c. c \<noteq> CHR '','') env))))
     else map_option (\<lambda>num. [num]) (stoi env))"
  by pat_completeness auto
termination
proof (relation "measure length")
  fix env :: string
  assume "CHR '','' \<in> set env"
  then have "dropWhile (\<lambda>c. c \<noteq> CHR '','') env \<noteq> []"
    by (auto simp: dropWhile_eq_Nil_conv)
  then show "(tl (dropWhile (\<lambda>c. c \<noteq> CHR '','') env), env) \<in> measure length"
    using length_dropWhile_le [of "\<lambda>c. c \<noteq> CHR '',''" env]
    by (cases "dropWhile (\<lambda>c. c \<noteq> CHR '','') env") auto
qed simp

declare parse_devices.simps [simp del]

definition get_env :: "string option \<Rightarrow> (string \<Rightarrow> string option) \<Rightarrow> int list option" where
  "get_env key getenv =
    (case key of
       None \<Rightarrow> Some []
     | Some k \<Rightarrow> if k = [] then Some []
                 else case getenv k of None \<Rightarrow> Some [] | Some v \<Rightarrow> parse_devices v)"

text \<open>
  The scan of the topology: \<open>gpu_id id\<close> is the number read from the file of node \<open>id\<close>, if any. The
  state is \<open>seen\<close>, the visible devices still wanted, and the table of devices found so far.
\<close>

fun scan_topology :: "(nat \<Rightarrow> nat option) \<Rightarrow> nat list \<Rightarrow> int \<times> int list \<times> HostInfo list \<Rightarrow> HostInfo list option" where
  "scan_topology gpu_id [] (seen, visible, found) = Some found"
| "scan_topology gpu_id (nd # nds) (seen, visible, found) =
    (case gpu_id nd of
       None \<Rightarrow> scan_topology gpu_id nds (seen, visible, found)
     | Some g \<Rightarrow>
         (if g = 0 then scan_topology gpu_id nds (seen, visible, found)
          else case visible of
                [] \<Rightarrow> None
              | v # vs \<Rightarrow>
                  (if seen = v
                   then scan_topology gpu_id nds (seen + 1, vs, found @ [\<lparr>node_id = nd, host_id = g\<rparr>])
                   else scan_topology gpu_id nds (seen + 1, visible, found))))"

record HipMM =
  fragment_allocator :: "HipDev Heap list"
  num_gpu_devices :: nat
  mm_host_id :: int
  mm_gemm_order :: PimGemmOrder

definition device_table :: "HostInfo list \<Rightarrow> int \<Rightarrow> HostInfo option" where
  "device_table found d = (if 0 \<le> d \<and> d < int (length found) then Some (found ! nat d) else None)"

text \<open>
  The constructor: \<open>dev\<close> is the initial state of the block allocator's tables, \<open>order\<close> the
  indeterminate initial value of \<open>gemm_order_\<close>. Without a device, or when the count differs, no heap is
  created.
\<close>

definition HipMemoryManager_new ::
    "'w HipApi \<Rightarrow> (string \<Rightarrow> string option) \<Rightarrow> (nat \<Rightarrow> nat option) \<Rightarrow> HipDev \<Rightarrow> PimGemmOrder \<Rightarrow> 'w \<Rightarrow> HipMM option" where
  "HipMemoryManager_new api getenv gpu_id dev order w =
    Option.bind (get_env (Some ''HIP_VISIBLE_DEVICES'') getenv) (\<lambda>env.
      let n = hip_GetDeviceCount api w;
          visible = (if env = [] then map int [0..<n] else env)
      in map_option (\<lambda>found.
           let mm = \<lparr>fragment_allocator = [], num_gpu_devices = n, mm_host_id = 0, mm_gemm_order = order\<rparr>
           in if found = [] \<or> length found \<noteq> n then mm
              else mm\<lparr>fragment_allocator := replicate n (heap_init (dev\<lparr>host_devices := device_table found\<rparr>)),
                      mm_host_id := hip_GetDevice api w\<rparr>)
         (scan_topology gpu_id [0..<32] (0, visible, [])))"

section \<open>Allocation and release\<close>

type_synonym 'w mgr = "HipMM \<times> 'w"

text \<open>The heap of the current device; \<open>host_id_\<close> remembers the device.\<close>

definition current_heap :: "'w HipApi \<Rightarrow> 'w mgr \<Rightarrow> (int \<times> HipDev Heap) option" where
  "current_heap api s =
    (let d = hip_GetDevice api (snd s)
     in map_option (\<lambda>h. (d, h)) (arr_get (fragment_allocator (fst s)) d))"

definition put_heap :: "int \<Rightarrow> HipDev Heap \<Rightarrow> 'w mgr \<Rightarrow> 'w mgr" where
  "put_heap d h s =
    ((fst s)\<lparr>mm_host_id := d, fragment_allocator := (fragment_allocator (fst s))[nat d := h]\<rparr>, snd s)"

text \<open>\<open>*ptr\<close> is passed in, since a failed call leaves it as it was.\<close>

definition hip_alloc_memory ::
    "'w HipApi \<Rightarrow> BuildTarget \<Rightarrow> addr \<Rightarrow> nat \<Rightarrow> PimMemType \<Rightarrow> 'w mgr \<Rightarrow> (int \<times> addr \<times> 'w mgr) option" where
  "hip_alloc_memory api t ptr sz mt s =
    (case mt of
       MEM_TYPE_DEVICE \<Rightarrow>
         (case hip_Malloc api sz (snd s) of
            (None, w) \<Rightarrow> Some (-1, ptr, (fst s, w)) | (Some p, w) \<Rightarrow> Some (0, p, (fst s, w)))
     | MEM_TYPE_HOST \<Rightarrow>
         (case hip_HostMalloc api sz (snd s) of
            (None, w) \<Rightarrow> Some (-1, ptr, (fst s, w)) | (Some p, w) \<Rightarrow> Some (0, p, (fst s, w)))
     | MEM_TYPE_PIM \<Rightarrow>
         Option.bind (current_heap api s) (\<lambda>(d, h).
           map_option (\<lambda>(p, h'). (0, p, put_heap d h' s)) (heap_alloc (HipBlockAllocator t) sz d h)))"

definition hip_alloc_memory_bo ::
    "'w HipApi \<Rightarrow> BuildTarget \<Rightarrow> PimBo \<Rightarrow> 'w mgr \<Rightarrow> (int \<times> PimBo \<times> 'w mgr) option" where
  "hip_alloc_memory_bo api t bo s =
     map_option (\<lambda>(ret, p, s'). (ret, bo\<lparr>bo_data := p\<rparr>, s'))
       (hip_alloc_memory api t (bo_data bo) (bo_size bo) (mem_type bo) s)"

text \<open>The pointer form returns the heap's \<open>bool\<close> as the result.\<close>

definition hip_free_memory ::
    "'w HipApi \<Rightarrow> BuildTarget \<Rightarrow> addr \<Rightarrow> PimMemType \<Rightarrow> 'w mgr \<Rightarrow> (int \<times> 'w mgr) option" where
  "hip_free_memory api t ptr mt s =
    (case mt of
       MEM_TYPE_DEVICE \<Rightarrow>
         (case hip_Free api ptr (snd s) of (ok, w) \<Rightarrow> Some (if ok then 0 else -1, (fst s, w)))
     | MEM_TYPE_HOST \<Rightarrow> Some (0, (fst s, hip_HostFree api ptr (snd s)))
     | MEM_TYPE_PIM \<Rightarrow>
         Option.bind (current_heap api s) (\<lambda>(d, h).
           map_option (\<lambda>(ok, h'). (if ok then 1 else 0, put_heap d h' s)) (heap_free (HipBlockAllocator t) ptr h)))"

definition hip_free_memory_bo ::
    "'w HipApi \<Rightarrow> BuildTarget \<Rightarrow> PimBo \<Rightarrow> 'w mgr \<Rightarrow> (int \<times> PimBo \<times> 'w mgr) option" where
  "hip_free_memory_bo api t bo s =
    (case mem_type bo of
       MEM_TYPE_DEVICE \<Rightarrow>
         (case hip_Free api (bo_data bo) (snd s) of (ok, w) \<Rightarrow> Some (if ok then 0 else -1, bo, (fst s, w)))
     | MEM_TYPE_HOST \<Rightarrow> Some (0, bo\<lparr>bo_data := 0\<rparr>, (fst s, hip_HostFree api (bo_data bo) (snd s)))
     | MEM_TYPE_PIM \<Rightarrow>
         Option.bind (current_heap api s) (\<lambda>(d, h).
           map_option (\<lambda>(ok, h'). (if ok then 0 else -1, bo, put_heap d h' s))
             (heap_free (HipBlockAllocator t) (bo_data bo) h)))"

section \<open>Copies\<close>

definition hip_copy :: "'w HipApi \<Rightarrow> addr \<Rightarrow> addr \<Rightarrow> nat \<Rightarrow> hipMemcpyKind option \<Rightarrow> 'w \<Rightarrow> int \<times> 'w" where
  "hip_copy api dst src sz kind w =
    (case kind of
       None \<Rightarrow> (0, w)
     | Some k \<Rightarrow> (case hip_Memcpy api dst src sz k w of (ok, w') \<Rightarrow> (if ok then 0 else -1, w')))"

fun memcpy_kind :: "PimMemCpyType \<Rightarrow> hipMemcpyKind" where
  "memcpy_kind HOST_TO_PIM = hipMemcpyHostToDevice"
| "memcpy_kind HOST_TO_DEVICE = hipMemcpyHostToDevice"
| "memcpy_kind PIM_TO_HOST = hipMemcpyDeviceToHost"
| "memcpy_kind DEVICE_TO_HOST = hipMemcpyDeviceToHost"
| "memcpy_kind PIM_TO_PIM = hipMemcpyDeviceToDevice"
| "memcpy_kind DEVICE_TO_PIM = hipMemcpyDeviceToDevice"
| "memcpy_kind PIM_TO_DEVICE = hipMemcpyDeviceToDevice"
| "memcpy_kind DEVICE_TO_DEVICE = hipMemcpyDeviceToDevice"
| "memcpy_kind HOST_TO_HOST = hipMemcpyHostToHost"

definition hip_copy_memory :: "'w HipApi \<Rightarrow> addr \<Rightarrow> addr \<Rightarrow> nat \<Rightarrow> PimMemCpyType \<Rightarrow> 'w \<Rightarrow> int \<times> 'w" where
  "hip_copy_memory api dst src sz cpy_type w = hip_copy api dst src sz (Some (memcpy_kind cpy_type)) w"

text \<open>The form on buffer objects copies the size of the destination and ignores \<open>PIM_TO_PIM\<close>.\<close>

definition hip_copy_memory_bo :: "'w HipApi \<Rightarrow> PimBo \<Rightarrow> PimBo \<Rightarrow> PimMemCpyType \<Rightarrow> 'w \<Rightarrow> int \<times> 'w" where
  "hip_copy_memory_bo api dst src cpy_type w =
     hip_copy api (bo_data dst) (bo_data src) (bo_size dst)
       (if cpy_type = PIM_TO_PIM then None else Some (memcpy_kind cpy_type)) w"

text \<open>A buffer object as a pitched pointer; a null object fails the assertion in \<open>PrecisionSize\<close>.\<close>

definition bo_pitched :: "PimBo option \<Rightarrow> PitchedPtr option" where
  "bo_pitched b =
    (case b of
       None \<Rightarrow> None
     | Some bo \<Rightarrow>
         let row = unat (sh_w (bshape bo)) * (case precision bo of PIM_FP16 \<Rightarrow> 2 | PIM_INT8 \<Rightarrow> 1)
         in Some \<lparr>pp_ptr = bo_data bo, pp_pitch = row, pp_xsize = row, pp_ysize = unat (sh_h (bshape bo))\<rparr>)"

definition raw_pitched :: "addr \<Rightarrow> nat \<Rightarrow> nat \<Rightarrow> PitchedPtr" where
  "raw_pitched p pitch height = \<lparr>pp_ptr = p, pp_pitch = pitch, pp_xsize = pitch, pp_ysize = height\<rparr>"

definition copy3d_side :: "PimMemType \<Rightarrow> addr \<Rightarrow> nat \<Rightarrow> nat \<Rightarrow> PimBo option \<Rightarrow> PitchedPtr option" where
  "copy3d_side mt p pitch height bo = (if mt = MEM_TYPE_HOST then Some (raw_pitched p pitch height) else bo_pitched bo)"

definition copy3d_kind :: "PimMemType \<Rightarrow> PimMemType \<Rightarrow> hipMemcpyKind" where
  "copy3d_kind s d =
    (if s = MEM_TYPE_HOST then if d = MEM_TYPE_HOST then hipMemcpyHostToHost else hipMemcpyHostToDevice
     else if d = MEM_TYPE_HOST then hipMemcpyDeviceToHost else hipMemcpyDeviceToDevice)"

definition hip_copy_memory_3d :: "'w HipApi \<Rightarrow> PimCopy3D \<Rightarrow> 'w \<Rightarrow> (int \<times> 'w) option" where
  "hip_copy_memory_3d api c w =
    Option.bind (copy3d_side (src_mem_type c) (src_ptr c) (src_pitch c) (src_height c) (src_bo c)) (\<lambda>sp.
    Option.bind (copy3d_side (dst_mem_type c) (dst_ptr c) (dst_pitch c) (dst_height c) (dst_bo c)) (\<lambda>dp.
      case hip_Memcpy3D api
             \<lparr>p3_srcPos = (src_x_in_bytes c, src_y c, src_z c), p3_dstPos = (dst_x_in_bytes c, dst_y c, dst_z c),
              p3_extent = (width_in_bytes c, slice_height c, slice_depth c), p3_srcPtr = sp, p3_dstPtr = dp,
              p3_kind = copy3d_kind (src_mem_type c) (dst_mem_type c)\<rparr> w of
        (ok, w') \<Rightarrow> Some (if ok then 0 else -1, w')))"

section \<open>Conversion of weight layouts\<close>

text \<open>Pointer arithmetic on 64-bit addresses.\<close>

definition ptr_add :: "addr \<Rightarrow> int \<Rightarrow> addr" where
  "ptr_add p off = nat ((int p + off) mod 2 ^ 64)"

fun run_copies :: "'w HipApi \<Rightarrow> addr \<Rightarrow> addr \<Rightarrow> (int \<times> int) list \<Rightarrow> 'w \<Rightarrow> int \<times> 'w" where
  "run_copies api dst src [] w = (0, w)"
| "run_copies api dst src ((d, s) # cs) w =
    (case hip_Memcpy api (ptr_add dst d) (ptr_add src s) (nat (trans_size vega20_pbi)) hipMemcpyDeviceToDevice w of
       (ok, w') \<Rightarrow> if ok then run_copies api dst src cs w' else (-1, w'))"

text \<open>The values of \<open>data_offset\<close>, an \<open>int\<close>, over the iterations.\<close>

fun data_offsets :: "nat \<Rightarrow> int \<Rightarrow> nat \<Rightarrow> int list" where
  "data_offsets 0 off inc = []"
| "data_offsets (Suc n) off inc = off # data_offsets n (i32 (off + int inc)) inc"

definition offset_copies :: "(u64 \<times> nat) list \<Rightarrow> int \<Rightarrow> (int \<times> int) list" where
  "offset_copies cs off =
     map (\<lambda>(a, d). (off + uint a, off + i32 (int d * trans_size vega20_pbi))) cs"

definition type_size :: "PimPrecision \<Rightarrow> u32" where
  "type_size p = (if p = PIM_FP16 then 2 else 1)"

definition in_chunks :: "PimGemmOrder \<Rightarrow> PimBo \<Rightarrow> nat" where
  "in_chunks order src =
     unat ((if order = I_X_W then sh_h (bshape src) else sh_w (bshape src)) * type_size (precision src))
       div nat (trans_size vega20_pbi)"

definition fill_shape :: "(nat \<Rightarrow> nat \<Rightarrow> nat \<Rightarrow> nat \<Rightarrow> (nat \<times> nat) list) \<Rightarrow> PimBShape \<Rightarrow> (nat \<times> nat) list" where
  "fill_shape f s = f (unat (sh_n s)) (unat (sh_c s)) (unat (sh_h s)) (unat (sh_w s))"

definition hip_convert_chwise ::
    "'w HipApi \<Rightarrow> bool \<Rightarrow> PimGemmOrder \<Rightarrow> PimBo \<Rightarrow> PimBo \<Rightarrow> bool \<Rightarrow> 'w \<Rightarrow> int \<times> PimBo \<times> 'w" where
  "hip_convert_chwise api emulator order dst src on_device w =
    (let dst' = dst\<lparr>data_layout_type := CHWISE_GEMM_WEIGHT\<rparr>
     in if on_device
        then (0, dst', hip_fill api (fill_shape (fill_gemm_weight_chwise emulator) (bshape_r src)) (bo_data dst) (bo_data src) w)
        else let s = bshape src;
                 iter_cnt = unat (sh_n s * sh_c s * (if order = I_X_W then sh_w s else sh_h s)) div nat PIM_GEMV_OUT_ALIGN;
                 inc = unat (sh_h s * of_int PIM_GEMV_OUT_ALIGN) * 2;
                 cs = concat (map (offset_copies (chwise_copies emulator (in_chunks order src))) (data_offsets iter_cnt 0 inc))
             in case run_copies api (bo_data dst) (bo_data src) cs w of
                  (ret, w') \<Rightarrow> (ret, if ret = 0 then dst' else dst, w'))"

text \<open>
  The preparation of padded weights: the rows are gathered in a host buffer, which is then copied to
  \<open>src_data\<close>, a null pointer at this point.
\<close>

fun gather_rows :: "'w HipApi \<Rightarrow> addr \<Rightarrow> PimBo \<Rightarrow> nat list \<Rightarrow> 'w \<Rightarrow> bool \<times> 'w" where
  "gather_rows api tmp src [] w = (True, w)"
| "gather_rows api tmp src (i # is) w =
    (case hip_Memcpy api (ptr_add tmp (2 * uint (of_nat i * sh_h (bshape src))))
            (ptr_add (bo_data src) (2 * uint (of_nat i * sh_h (bshape_r src))))
            (unat (sh_h (bshape_r src)) * 2) hipMemcpyDeviceToHost w of
       (ok, w') \<Rightarrow> if ok then gather_rows api tmp src is w' else (False, w'))"

definition unpad_source :: "'w HipApi \<Rightarrow> PimBo \<Rightarrow> 'w \<Rightarrow> bool \<times> 'w" where
  "unpad_source api src w =
    (if sh_w (bshape src) \<noteq> sh_w (bshape_r src) \<or> sh_h (bshape src) \<noteq> sh_h (bshape_r src)
     then let src_size = nat (i32 (int (bo_size src)) mod 2 ^ 64);
              (tmp, w) = hip_calloc api (2 * src_size) w;
              (ok, w) = gather_rows api tmp src [0..<unat (sh_w (bshape_r src))] w
          in if \<not> ok then (False, w)
             else case hip_Memcpy api 0 tmp src_size hipMemcpyHostToDevice w of
                    (ok, w) \<Rightarrow> if ok then (True, hip_cfree api tmp w) else (False, w)
     else (True, w))"

definition hip_convert_aligned ::
    "'w HipApi \<Rightarrow> bool \<Rightarrow> PimGemmOrder \<Rightarrow> PimBo \<Rightarrow> PimBo \<Rightarrow> bool \<Rightarrow> 'w \<Rightarrow> int \<times> PimBo \<times> 'w" where
  "hip_convert_aligned api emulator order dst src on_device w =
    (let dst' = dst\<lparr>data_layout_type := ALIGNED_GEMM_WEIGHT\<rparr>; (ok, w) = unpad_source api src w
     in if \<not> ok then (-1, dst, w)
        else if on_device
        then (0, dst', hip_fill api (fill_shape (fill_gemm_weight_aligned emulator) (bshape_r src)) (bo_data dst) (bo_data src) w)
        else let s = bshape src;
                 iter_cnt = nat (i32 (uint (sh_n s * sh_c s)));
                 out_cnt = nat (i32 (uint (if order = I_X_W then sh_w s else sh_h s)));
                 inc = unat (sh_h s * sh_w s) * 2;
                 cs = concat (map (offset_copies (aligned_copies emulator out_cnt (in_chunks order src))) (data_offsets iter_cnt 0 inc))
             in case run_copies api (bo_data dst) (bo_data src) cs w of
                  (ret, w') \<Rightarrow> (ret, if ret = 0 then dst' else dst, w'))"

definition hip_convert_data_layout ::
    "'w HipApi \<Rightarrow> bool \<Rightarrow> PimBo \<Rightarrow> PimBo \<Rightarrow> bool \<Rightarrow> 'w mgr \<Rightarrow> int \<times> PimBo \<times> 'w mgr" where
  "hip_convert_data_layout api emulator dst src on_device s =
    (let order = mm_gemm_order (fst s);
         (ret, dst', w) =
           (if check_chwise_gemm_bo src order then hip_convert_chwise api emulator order dst src on_device (snd s)
            else hip_convert_aligned api emulator order dst src on_device (snd s))
     in (ret, dst', (fst s, w)))"

definition hip_set_gemm_order :: "PimGemmOrder \<Rightarrow> 'w mgr \<Rightarrow> 'w mgr" where
  "hip_set_gemm_order order s = ((fst s)\<lparr>mm_gemm_order := order\<rparr>, snd s)"

definition HipManager :: "'w HipApi \<Rightarrow> BuildTarget \<Rightarrow> 'w mgr MemOps" where
  "HipManager api t =
    \<lparr>mm_initialize = (\<lambda>s. s), mm_deinitialize = (\<lambda>s. s),
     mm_alloc_memory = hip_alloc_memory api t, mm_alloc_memory_bo = hip_alloc_memory_bo api t,
     mm_free_memory = hip_free_memory api t, mm_free_memory_bo = hip_free_memory_bo api t,
     mm_copy_memory = (\<lambda>dst src sz k s. case hip_copy_memory api dst src sz k (snd s) of (ret, w) \<Rightarrow> Some (ret, (fst s, w))),
     mm_copy_memory_bo = (\<lambda>dst src k s. case hip_copy_memory_bo api dst src k (snd s) of (ret, w) \<Rightarrow> Some (ret, (fst s, w))),
     mm_copy_memory_3d = (\<lambda>c s. map_option (\<lambda>(ret, w). (ret, (fst s, w))) (hip_copy_memory_3d api c (snd s))),
     mm_convert_data_layout = (\<lambda>dst src on_device s. Some (hip_convert_data_layout api (t = EMULATOR) dst src on_device s)),
     mm_set_gemm_order = hip_set_gemm_order, mm_get_base_memobj = (\<lambda>s. Some 0)\<rparr>"

section \<open>The contract of the memory manager\<close>

text \<open>
  \<open>d\<close> is the current device. The manager's heap for it is well formed; the regions held are those of
  that heap, under their own start address.
\<close>

definition hip_mgr_inv :: "'w HipApi \<Rightarrow> BuildTarget \<Rightarrow> int \<Rightarrow> 'w mgr \<Rightarrow> bool" where
  "hip_mgr_inv api t d s \<longleftrightarrow> hip_GetDevice api (snd s) = d \<and> in_table d
     \<and> (\<exists>h. arr_get (fragment_allocator (fst s)) d = Some h \<and> heap_inv (HipBlockAllocator t) (hip_binv t) mapped h)"

definition hip_held :: "int \<Rightarrow> 'w mgr \<Rightarrow> addr \<rightharpoonup> addr \<times> nat" where
  "hip_held d s p = Option.bind (arr_get (fragment_allocator (fst s)) d) (\<lambda>h. map_option (Pair p) (region_at h p))"

definition exact_size :: "nat \<Rightarrow> bool" where
  "exact_size n \<longleftrightarrow> 0 < n \<and> fl_nat n = n"

lemma put_heap_simps [simp]:
  "0 \<le> d \<Longrightarrow> d < int (length (fragment_allocator (fst s))) \<Longrightarrow>
     arr_get (fragment_allocator (fst (put_heap d h s))) d = Some h"
  "snd (put_heap d h s) = snd s"
  by (simp_all add: put_heap_def arr_get_def)

lemma hip_mgr_invE:
  assumes "hip_mgr_inv api t d s"
  obtains h where "current_heap api s = Some (d, h)" "heap_inv (HipBlockAllocator t) (hip_binv t) mapped h"
    "in_table d" "hip_held d s = (\<lambda>p. map_option (Pair p) (region_at h p))"
    "\<And>h'. heap_inv (HipBlockAllocator t) (hip_binv t) mapped h' \<Longrightarrow> hip_mgr_inv api t d (put_heap d h' s)
       \<and> hip_held d (put_heap d h' s) = (\<lambda>p. map_option (Pair p) (region_at h' p))"
proof -
  obtain h where h: "hip_GetDevice api (snd s) = d" "in_table d" "arr_get (fragment_allocator (fst s)) d = Some h"
    "heap_inv (HipBlockAllocator t) (hip_binv t) mapped h" using assms by (auto simp: hip_mgr_inv_def)
  then have "0 \<le> d" "d < int (length (fragment_allocator (fst s)))" by (simp_all add: arr_get_Some_iff)
  then show ?thesis
    by (intro that [of h]) (auto simp: h current_heap_def hip_held_def hip_mgr_inv_def Let_def)
qed

lemma map_option_Pair_upd:
  "(\<lambda>p. map_option (Pair p) ((f(q \<mapsto> n)) p)) = (\<lambda>p. map_option (Pair p) (f p))(q \<mapsto> (q, n))"
  "(\<lambda>p. map_option (Pair p) ((f(q := None)) p)) = (\<lambda>p. map_option (Pair p) (f p))(q := None)"
  by auto

interpretation hip_mgr: memory_manager "HipManager api t" "hip_mgr_inv api t d" "hip_held d" exact_size for api t d
proof
  fix s assume "hip_mgr_inv api t d s"
  then obtain h where "heap_inv (HipBlockAllocator t) (hip_binv t) mapped h"
    "hip_held d s = (\<lambda>p. map_option (Pair p) (region_at h p))" by (rule hip_mgr_invE)
  then show "regions_apart (hip_held d s) \<and> hip_held d s 0 = None"
    using hip.region_at_apart [of t h] hip.region_at_zero [of t h] by simp
next
  fix s bo ret bo' s'
  assume s: "hip_mgr_inv api t d s" and bo: "mem_type bo = MEM_TYPE_PIM" "exact_size (bo_size bo)"
    and call: "mm_alloc_memory_bo (HipManager api t) bo s = Some (ret, bo', s')"
  obtain h where h: "current_heap api s = Some (d, h)" "heap_inv (HipBlockAllocator t) (hip_binv t) mapped h"
    "in_table d" "hip_held d s = (\<lambda>p. map_option (Pair p) (region_at h p))"
    "\<And>h'. heap_inv (HipBlockAllocator t) (hip_binv t) mapped h' \<Longrightarrow> hip_mgr_inv api t d (put_heap d h' s)
       \<and> hip_held d (put_heap d h' s) = (\<lambda>p. map_option (Pair p) (region_at h' p))" by (rule hip_mgr_invE [OF s]) blast
  from call obtain p h' where p: "heap_alloc (HipBlockAllocator t) (bo_size bo) d h = Some (p, h')"
    "ret = 0" "bo' = bo\<lparr>bo_data := p\<rparr>" "s' = put_heap d h' s"
    by (auto simp: HipManager_def hip_alloc_memory_bo_def hip_alloc_memory_def bo(1) h(1))
  have n: "0 < bo_size bo" "bo_size bo \<le> get_aligned_bytes (bo_size bo)" using bo(2) aligned_ge by (auto simp: exact_size_def)
  note r = hip.region_at_alloc [OF h(2,3) n(1) p(1)]
  show "hip_mgr_inv api t d s' \<and> ret = 0 \<and> bo' = bo\<lparr>bo_data := bo_data bo'\<rparr>
      \<and> alloc_outcome (bo_size bo) (hip_held d s) (bo_data bo') (hip_held d s')"
  proof (cases "p = 0")
    case True
    then show ?thesis using r h(5) [of h'] by (simp add: p(2-4) alloc_outcome_def h(4))
  next
    case False
    then have "hip_held d s' = (hip_held d s)(p \<mapsto> (p, get_aligned_bytes (bo_size bo)))"
      using r h(5) [of h'] unfolding p(4) h(4) by (auto simp: map_option_Pair_upd(1) [symmetric])
    then show ?thesis using False r h(5) [of h'] n(2) by (auto simp: p(2-4) alloc_outcome_def h(4))
  qed
next
  fix s and bo :: PimBo assume s: "hip_mgr_inv api t d s" and bo: "mem_type bo = MEM_TYPE_PIM" "hip_held d s (bo_data bo) \<noteq> None"
  obtain h where h: "current_heap api s = Some (d, h)" "heap_inv (HipBlockAllocator t) (hip_binv t) mapped h"
    "hip_held d s = (\<lambda>p. map_option (Pair p) (region_at h p))"
    "\<And>h'. heap_inv (HipBlockAllocator t) (hip_binv t) mapped h' \<Longrightarrow> hip_mgr_inv api t d (put_heap d h' s)
       \<and> hip_held d (put_heap d h' s) = (\<lambda>p. map_option (Pair p) (region_at h' p))" by (rule hip_mgr_invE [OF s]) blast
  have "region_at h (bo_data bo) \<noteq> None" using bo(2) h(3) by simp
  from hip.region_at_free [OF h(2) this] obtain h' where f: "heap_free (HipBlockAllocator t) (bo_data bo) h = Some (True, h')"
    "heap_inv (HipBlockAllocator t) (hip_binv t) mapped h'" "region_at h' = (region_at h)(bo_data bo := None)" by blast
  have "mm_free_memory_bo (HipManager api t) bo s = Some (0, bo, put_heap d h' s)"
    by (simp add: HipManager_def hip_free_memory_bo_def bo(1) h(1) f(1))
  then show "\<exists>bo' s'. mm_free_memory_bo (HipManager api t) bo s = Some (0, bo', s') \<and> hip_mgr_inv api t d s'
      \<and> hip_held d s' = (hip_held d s)(bo_data bo := None)"
    using h(4) [OF f(2)] unfolding h(3) f(3) map_option_Pair_upd(2) by blast
qed

end
