(* ===== verification/HipLayout.thy ===== *)
theory HipLayout
  imports HipMemory
begin

text \<open>
  Properties of the HIP memory manager: the devices its constructor finds, what the conversion of a
  weight does to the bytes of memory, and what becomes of padded weights.
\<close>

section \<open>What a conversion does to memory\<close>

text \<open>
  \<open>rd w a\<close> is the byte at address \<open>a\<close>. The documented effect of a device-to-device \<open>hipMemcpy\<close> on ranges that
  are not at the null pointer and do not overlap: it succeeds and copies the bytes.
\<close>

definition memcpy_law :: "'w HipApi \<Rightarrow> ('w \<Rightarrow> addr \<Rightarrow> 8 word) \<Rightarrow> bool" where
  "memcpy_law api rd \<longleftrightarrow>
     (\<forall>dst src n w. 0 < dst \<longrightarrow> 0 < src \<longrightarrow> dst + n \<le> src \<or> src + n \<le> dst \<longrightarrow>
        (\<exists>w'. hip_Memcpy api dst src n hipMemcpyDeviceToDevice w = (True, w')
           \<and> rd w' = (\<lambda>a. if dst \<le> a \<and> a < dst + n then rd w (src + (a - dst)) else rd w a)))"

lemma memcpy_lawD:
  assumes "memcpy_law api rd" "0 < dst" "0 < src" "dst + n \<le> src \<or> src + n \<le> dst"
  shows "\<exists>w'. hip_Memcpy api dst src n hipMemcpyDeviceToDevice w = (True, w')
    \<and> rd w' = (\<lambda>a. if dst \<le> a \<and> a < dst + n then rd w (src + (a - dst)) else rd w a)"
  using assms unfolding memcpy_law_def by blast

definition buffers_apart :: "nat \<Rightarrow> addr \<Rightarrow> addr \<Rightarrow> bool" where
  "buffers_apart n p q \<longleftrightarrow> 0 < p \<and> 0 < q \<and> (p + n \<le> q \<or> q + n \<le> p) \<and> p + n \<le> 2 ^ 64 \<and> q + n \<le> 2 ^ 64"

lemma ptr_add_exact: "p + off < 2 ^ 64 \<Longrightarrow> ptr_add p (int off) = p + off"
  by (simp add: ptr_add_def flip: of_nat_add)

lemma aligned_slots_apart:
  fixes a b :: nat
  assumes "32 dvd a" "32 dvd b" "a \<noteq> b"
  shows "a + 32 \<le> b \<or> b + 32 \<le> a"
  using assms by (elim dvdE) auto

lemma run_copies_moves:
  assumes "memcpy_law api rd" "buffers_apart n dst src" "distinct (map fst ps)"
    "\<forall>(a, b) \<in> set ps. 32 dvd a \<and> a + 32 \<le> n \<and> b + 32 \<le> n"
  shows "\<exists>w'. run_copies api dst src (map (\<lambda>(a, b). (int a, int b)) ps) w = (0, w')
    \<and> (\<forall>(a, b) \<in> set ps. \<forall>k < 32. rd w' (dst + a + k) = rd w (src + b + k))
    \<and> (\<forall>x. (\<forall>(a, b) \<in> set ps. x < dst + a \<or> dst + a + 32 \<le> x) \<longrightarrow> rd w' x = rd w x)"
  using assms(3,4)
proof (induction ps arbitrary: w)
  case (Cons p ps)
  obtain a b where p: "p = (a, b)" by (cases p)
  have ab: "32 dvd a" "a + 32 \<le> n" "b + 32 \<le> n" using Cons.prems(2) p by auto
  have ap: "dst + n \<le> src \<or> src + n \<le> dst" "dst + a < 2 ^ 64" "src + b < 2 ^ 64" "0 < dst + a" "0 < src + b"
    using assms(2) ab by (auto simp: buffers_apart_def)
  have "dst + a + 32 \<le> src + b \<or> src + b + 32 \<le> dst + a" using ap(1) ab by linarith
  then obtain w1 where w1: "hip_Memcpy api (dst + a) (src + b) 32 hipMemcpyDeviceToDevice w = (True, w1)"
    "rd w1 = (\<lambda>x. if dst + a \<le> x \<and> x < dst + a + 32 then rd w (src + b + (x - (dst + a))) else rd w x)"
    using memcpy_lawD [OF assms(1) ap(4,5)] by blast
  have rest: "distinct (map fst ps)" "\<forall>(a, b) \<in> set ps. 32 dvd a \<and> a + 32 \<le> n \<and> b + 32 \<le> n" "a \<notin> fst ` set ps"
    using Cons.prems p by auto
  obtain w' where w': "run_copies api dst src (map (\<lambda>(a, b). (int a, int b)) ps) w1 = (0, w')"
    "\<forall>(a, b) \<in> set ps. \<forall>k < 32. rd w' (dst + a + k) = rd w1 (src + b + k)"
    "\<forall>x. (\<forall>(a, b) \<in> set ps. x < dst + a \<or> dst + a + 32 \<le> x) \<longrightarrow> rd w' x = rd w1 x"
    using Cons.IH [OF rest(1,2)] by blast
  have run: "run_copies api dst src (map (\<lambda>(a, b). (int a, int b)) (p # ps)) w = (0, w')"
    using w1(1) w'(1) ptr_add_exact [OF ap(2)] ptr_add_exact [OF ap(3)] by (simp add: p)
  have src: "rd w1 (src + b' + k) = rd w (src + b' + k)" if "b' + 32 \<le> n" "k < 32" for b' k
    using ap(1) ab that by (auto simp: w1(2))
  have slot: "a + 32 \<le> a' \<or> a' + 32 \<le> a" if "(a', b') \<in> set ps" for a' b'
  proof (rule aligned_slots_apart [OF ab(1)])
    show "32 dvd a'" using rest(2) that by auto
    show "a \<noteq> a'" using rest(3) that by force
  qed
  have hd: "rd w' (dst + a + k) = rd w (src + b + k)" if "k < 32" for k
  proof -
    have "\<forall>(a', b') \<in> set ps. dst + a + k < dst + a' \<or> dst + a' + 32 \<le> dst + a + k" using slot that by fastforce
    then have "rd w' (dst + a + k) = rd w1 (dst + a + k)" using w'(3) by blast
    then show ?thesis using that by (simp add: w1(2))
  qed
  have tl: "rd w' (dst + a' + k) = rd w (src + b' + k)" if "(a', b') \<in> set ps" "k < 32" for a' b' k
    using w'(2) rest(2) src [of b' k] that by fastforce
  have out: "rd w' x = rd w x" if "\<forall>(a, b) \<in> set (p # ps). x < dst + a \<or> dst + a + 32 \<le> x" for x
    using w'(3) that by (auto simp: p w1(2))
  show ?case using run hd tl out by (auto simp: p intro!: exI [of _ w'])
qed auto


lemma i32_small: "0 \<le> x \<Longrightarrow> x < 2 ^ 31 \<Longrightarrow> i32 x = x"
  by (simp add: i32_def)

lemma offset_copies_zero:
  assumes "\<forall>(a, d) \<in> set cs. d < 2 ^ 26"
  shows "offset_copies cs 0 = map (\<lambda>(a, b). (int a, int b)) (map (\<lambda>(a, d). (unat a, 32 * d)) cs)"
proof -
  have "i32 (int d * 32) = 32 * int d" if "(a, d) \<in> set cs" for a d
    using assms that by (subst i32_small) auto
  then show ?thesis by (auto simp: offset_copies_def)
qed

lemma aligned_iteration:
  assumes "0 < H" "0 < Y" "Y * (2 * H) \<le> 2 ^ 11" "bshape src = mk_shape 1 1 (of_nat (256 * H)) (of_nat (4096 * Y))"
    "bshape_r src = bshape src" "precision src = PIM_FP16"
  shows "\<not> check_chwise_gemm_bo src I_X_W" "unpad_source api src w = (True, w)"
    "nat (i32 (uint (sh_n (bshape src) * sh_c (bshape src)))) = 1"
    "nat (i32 (uint (sh_w (bshape src)))) = Y * 4096" "in_chunks I_X_W src = 2 * H * 8"
proof -
  have "Y \<le> Y * (2 * H)" "2 * H \<le> Y * (2 * H)" using assms(1,2) by simp_all
  note le = this [THEN order_trans, OF assms(3)]
  have w: "unat (of_nat (4096 * Y) :: u32) = 4096 * Y" "unat (of_nat (256 * H) * 2 :: u32) = 512 * H"
    using le unat_of_nat_u32 [of "4096 * Y"] unat_of_nat_u32 [of "512 * H"] by (simp_all add: mult.commute)
  show "\<not> check_chwise_gemm_bo src I_X_W"
    using w(1) assms(2) by (simp add: check_chwise_gemm_bo_def assms(4) mk_shape_def PIM_GEMV_OUT_ALIGN_def word_less_nat_alt Let_def)
  show "unpad_source api src w = (True, w)" by (simp add: unpad_source_def assms(5))
  show "nat (i32 (uint (sh_n (bshape src) * sh_c (bshape src)))) = 1" by (simp add: assms(4) mk_shape_def i32_def)
  show "nat (i32 (uint (sh_w (bshape src)))) = Y * 4096"
    using le w(1) by (simp add: assms(4) mk_shape_def i32_small uint_nat)
  show "in_chunks I_X_W src = 2 * H * 8"
    using w(2) by (simp add: in_chunks_def assms(4,6) type_size_def mk_shape_def)
qed




text \<open>A memory of bytes in which \<open>hipMemcpy\<close> refuses the null pointer, for the concrete instances.\<close>

definition byte_api :: "nat \<Rightarrow> (addr \<Rightarrow> 8 word) HipApi" where
  "byte_api gpus = \<lparr>hip_Malloc = (\<lambda>_ w. (Some 4096, w)), hip_HostMalloc = (\<lambda>_ w. (Some 8192, w)),
     hip_Free = (\<lambda>_ w. (True, w)), hip_HostFree = (\<lambda>_ w. w),
     hip_Memcpy = (\<lambda>dst src n _ w.
        if dst = 0 \<or> src = 0 then (False, w)
        else (True, \<lambda>a. if dst \<le> a \<and> a < dst + n then w (src + (a - dst)) else w a)),
     hip_Memcpy3D = (\<lambda>_ w. (False, w)), hip_GetDevice = (\<lambda>_. 0), hip_GetDeviceCount = (\<lambda>_. gpus),
     hip_fill = (\<lambda>_ _ _ w. w), hip_calloc = (\<lambda>_ w. (16384, w)), hip_cfree = (\<lambda>_ w. w)\<rparr>"

lemma byte_api_memcpy: "memcpy_law (byte_api n) (\<lambda>w. w)"
  by (simp add: memcpy_law_def byte_api_def)

definition demo_weight :: "nat \<Rightarrow> PimBShape \<Rightarrow> PimBShape \<Rightarrow> PimBo" where
  "demo_weight p s r = \<lparr>mem_type = MEM_TYPE_HOST, data_layout_type = RAW, bshape = s, bshape_r = r, precision = PIM_FP16,
     bo_size = 2097152, bo_size_r = 2097152, bo_data = p, use_user_ptr = False, transposed = False\<rparr>"

definition demo_mm :: HipMM where
  "demo_mm = \<lparr>fragment_allocator = [], num_gpu_devices = 1, mm_host_id = 0, mm_gemm_order = I_X_W\<rparr>"





section \<open>Device discovery\<close>

text \<open>The GPUs the topology lists, in order.\<close>

definition gpu_nodes :: "(nat \<Rightarrow> nat option) \<Rightarrow> nat list \<Rightarrow> HostInfo list" where
  "gpu_nodes gpu_id nds =
     List.map_filter (\<lambda>nd. case gpu_id nd of None \<Rightarrow> None
        | Some g \<Rightarrow> if g = 0 then None else Some \<lparr>node_id = nd, host_id = g\<rparr>) nds"

lemma gpu_nodes_simps:
  "gpu_nodes gpu_id [] = []"
  "gpu_nodes gpu_id (nd # nds) =
     (case gpu_id nd of None \<Rightarrow> [] | Some g \<Rightarrow> if g = 0 then [] else [\<lparr>node_id = nd, host_id = g\<rparr>]) @ gpu_nodes gpu_id nds"
  by (auto simp: gpu_nodes_def List.map_filter_simps split: option.splits)

text \<open>
  The scan for an increasing list of visible indices: it fails when it meets a GPU after the list has
  been used up, and otherwise finds the GPUs with these indices.
\<close>

lemma scan_topology_eq:
  assumes "sorted_wrt (<) visible" "\<forall>v \<in> set visible. seen \<le> v"
  shows "scan_topology gpu_id nds (seen, visible, found) =
    (let gs = gpu_nodes gpu_id nds
     in if gs \<noteq> [] \<and> (visible = [] \<or> last visible + 1 < seen + int (length gs)) then None
        else Some (found @ map (\<lambda>v. gs ! nat (v - seen)) (filter (\<lambda>v. v < seen + int (length gs)) visible)))"
  using assms
proof (induction nds arbitrary: seen visible found)
  case Nil
  then have "filter (\<lambda>v. v < seen) visible = []" by (auto simp: filter_empty_conv)
  then show ?case by (simp add: gpu_nodes_simps)
next
  case (Cons nd nds)
  consider "gpu_id nd = None \<or> gpu_id nd = Some 0" | g where "gpu_id nd = Some g" "g \<noteq> 0" by (cases "gpu_id nd") auto
  then show ?case
  proof cases
    case 1
    then show ?thesis using Cons.IH [OF Cons.prems] by (auto simp: gpu_nodes_simps)
  next
    case 2
    define gs where "gs = gpu_nodes gpu_id nds"
    have gs: "gpu_nodes gpu_id (nd # nds) = \<lparr>node_id = nd, host_id = g\<rparr> # gs"
      using 2 by (simp add: gpu_nodes_simps gs_def)
    show ?thesis
    proof (cases visible)
      case Nil
      then show ?thesis using 2 by (simp add: gs)
    next
      case (Cons v vs)
      show ?thesis
      proof (cases "seen = v")
        case True
        have vs: "sorted_wrt (<) vs" "\<forall>u \<in> set vs. seen + 1 \<le> u" using Cons.prems Cons True by auto
        have "(\<lparr>node_id = nd, host_id = g\<rparr> # gs) ! nat (u - seen) = gs ! nat (u - (seen + 1))" if "u \<in> set vs" for u
          using vs(2) that by (auto simp: nth_Cons' nat_diff_distrib' intro!: arg_cong [where f = "(!) gs"])
        moreover have "seen + 1 \<le> last vs" if "vs \<noteq> []" using vs(2) that by auto
        ultimately show ?thesis
          using Cons.IH [OF vs] 2 True by (auto simp: gs Let_def Cons gs_def [symmetric] algebra_simps)
      next
        case False
        have step: "scan_topology gpu_id (nd # nds) (seen, visible, found) = scan_topology gpu_id nds (seen + 1, visible, found)"
          using 2 False by (simp add: Cons)
        have vis: "\<forall>u \<in> set visible. seen + 1 \<le> u" "visible \<noteq> []" using Cons.prems Cons False by auto
        have "(\<lparr>node_id = nd, host_id = g\<rparr> # gs) ! nat (u - seen) = gs ! nat (u - (seen + 1))" if "u \<in> set visible" for u
          using vis that by (auto simp: nth_Cons' nat_diff_distrib' intro!: arg_cong [where f = "(!) gs"])
        then have pick: "map (\<lambda>u. (\<lparr>node_id = nd, host_id = g\<rparr> # gs) ! nat (u - seen)) (filter P visible)
            = map (\<lambda>u. gs ! nat (u - (seen + 1))) (filter P visible)" for P by auto
        have len: "seen + int (length (\<lparr>node_id = nd, host_id = g\<rparr> # gs)) = seen + 1 + int (length gs)" by simp
        have "seen + 1 \<le> last visible" using vis by auto
        then have stop: "(\<lparr>node_id = nd, host_id = g\<rparr> # gs \<noteq> [] \<and> (visible = [] \<or> last visible + 1 < seen + 1 + int (length gs)))
            = (gs \<noteq> [] \<and> (visible = [] \<or> last visible + 1 < seen + 1 + int (length gs)))"
          using vis(2) by auto
        show ?thesis
          unfolding step Cons.IH [OF Cons.prems(1) vis(1)] gs Let_def gs_def [symmetric] len stop pick by (rule refl)
      qed
    qed
  qed
qed


text \<open>with \<open>HIP_VISIBLE_DEVICES\<close> unset, the constructor reads the front of an empty list when the topology
  lists more GPUs than HIP counts; when the two agree on a positive number it creates one empty heap per
  device with the table of the listed GPUs, and otherwise it creates no heap.
\<close>

theorem hip_constructor_devices:
  assumes "getenv ''HIP_VISIBLE_DEVICES'' = None"
  shows "HipMemoryManager_new api getenv gpu_id dev order w =
    (let gs = gpu_nodes gpu_id [0..<32]; n = hip_GetDeviceCount api w
     in if n < length gs then None
        else if gs = [] \<or> length gs \<noteq> n
        then Some \<lparr>fragment_allocator = [], num_gpu_devices = n, mm_host_id = 0, mm_gemm_order = order\<rparr>
        else Some \<lparr>fragment_allocator = replicate n (heap_init (dev\<lparr>host_devices := device_table gs\<rparr>)), num_gpu_devices = n,
                   mm_host_id = hip_GetDevice api w, mm_gemm_order = order\<rparr>)"
proof -
  define gs where "gs = gpu_nodes gpu_id [0..<32]"
  define n where "n = hip_GetDeviceCount api w"
  have vis: "sorted_wrt (<) (map int [0..<n])" "\<forall>v \<in> set (map int [0..<n]). 0 \<le> v"
    by (auto simp: sorted_wrt_map)
  have "(map int [0..<n] = [] \<or> last (map int [0..<n]) + 1 < 0 + int (length gs)) = (n = 0 \<or> n < length gs)"
    by (cases n) (auto simp: last_map)
  then have stop: "(gs \<noteq> [] \<and> (map int [0..<n] = [] \<or> last (map int [0..<n]) + 1 < 0 + int (length gs))) = (n < length gs)"
    by auto
  have pick: "map (\<lambda>v. gs ! nat (v - 0)) (filter (\<lambda>v. v < 0 + int (length gs)) (map int [0..<n])) = gs" if "\<not> n < length gs"
  proof -
    have "[0..<n] = [0..<length gs] @ [length gs..<n]" using that upt_add_eq_append [of 0 "length gs" "n - length gs"] by simp
    then have "filter (\<lambda>v. v < length gs) [0..<n] = [0..<length gs]" by simp
    then show ?thesis by (simp add: filter_map o_def map_nth)
  qed
  have "scan_topology gpu_id [0..<32] (0, map int [0..<n], []) = (if n < length gs then None else Some gs)"
    unfolding scan_topology_eq [OF vis] Let_def gs_def [symmetric] stop using pick by simp
  then show ?thesis
    unfolding HipMemoryManager_new_def gs_def [symmetric] n_def [symmetric] Let_def
    by (simp add: assms get_env_def)
qed

lemma hip_constructor_devices_witness:
  "HipMemoryManager_new (byte_api 1) (\<lambda>_. None) (\<lambda>nd. if nd < 4 then Some nd else None) hip_demo I_X_W of_nat = None"
  using hip_constructor_devices [of "\<lambda>_. None" "byte_api 1" "\<lambda>nd. if nd < 4 then Some nd else None" hip_demo I_X_W of_nat]
  by (simp add: byte_api_def gpu_nodes_def List.map_filter_def upt_rec)

end
