(* ===== verification/OclMemory.thy ===== *)
theory OclMemory
  imports HipMemory
begin

text \<open>
  The OpenCL memory manager, \<open>runtime/source/manager/ocl/OclMemoryManager.cpp\<close>. The OpenCL and C
  runtimes are parameters, the record \<open>OclApi\<close>; a failed OpenCL call stops the program in \<open>cl_ok\<close>, which
  is \<open>None\<close> here, as is a cast of a pointer that is no \<open>OclBufferObj\<close>. Buffers in PIM memory are reached
  through handles: \<open>ocl_objs\<close> holds the objects allocated with \<open>new\<close>.
\<close>

section \<open>The OpenCL runtime\<close>

text \<open>\<open>ocl_new\<close> is \<open>operator new\<close> for an \<open>OclBufferObj\<close>.\<close>

record 'w OclApi =
  cl_CreateBuffer :: "nat \<Rightarrow> 'w \<Rightarrow> addr option \<times> 'w"
  cl_CreateSubBuffer :: "addr \<Rightarrow> u64 \<Rightarrow> nat \<Rightarrow> 'w \<Rightarrow> addr option \<times> 'w"
  cl_ReleaseMemObject :: "addr \<Rightarrow> 'w \<Rightarrow> 'w"
  cl_EnqueueWriteBuffer :: "addr \<Rightarrow> nat \<Rightarrow> addr \<Rightarrow> 'w \<Rightarrow> bool \<times> 'w"
  cl_EnqueueReadBuffer :: "addr \<Rightarrow> nat \<Rightarrow> addr \<Rightarrow> 'w \<Rightarrow> bool \<times> 'w"
  cl_EnqueueCopyBuffer :: "addr \<Rightarrow> addr \<Rightarrow> nat \<Rightarrow> 'w \<Rightarrow> bool \<times> 'w"
  cl_Finish :: "'w \<Rightarrow> bool \<times> 'w"
  cl_GetDeviceCount :: "'w \<Rightarrow> nat"
  c_malloc :: "nat \<Rightarrow> 'w \<Rightarrow> addr \<times> 'w"
  c_calloc :: "nat \<Rightarrow> 'w \<Rightarrow> addr \<times> 'w"
  c_free :: "addr \<Rightarrow> 'w \<Rightarrow> 'w"
  c_memcpy :: "addr \<Rightarrow> addr \<Rightarrow> nat \<Rightarrow> 'w \<Rightarrow> 'w"
  ocl_new :: "'w \<Rightarrow> addr \<times> 'w"

definition cl_ok :: "bool \<times> 'w \<Rightarrow> 'w option" where
  "cl_ok r = (if fst r then Some (snd r) else None)"

record OclBufferObj =
  host_addr :: addr
  dev_addr :: addr
  obj_size :: nat

record OclMM =
  ocl_fragment_allocator :: "OclDev Heap list"
  ocl_gpu_devices :: nat
  ocl_gemm_order :: PimGemmOrder
  ocl_objs :: "addr \<rightharpoonup> OclBufferObj"

type_synonym 'w ocl_mgr = "OclMM \<times> 'w"

definition OclMemoryManager_new :: "'w OclApi \<Rightarrow> OclDev \<Rightarrow> PimGemmOrder \<Rightarrow> 'w \<Rightarrow> OclMM" where
  "OclMemoryManager_new api dev order w =
    (let n = cl_GetDeviceCount api w
     in \<lparr>ocl_fragment_allocator = replicate n (heap_init dev), ocl_gpu_devices = n, ocl_gemm_order = order, ocl_objs = (\<lambda>_. None)\<rparr>)"

definition get_physical_id :: int where
  "get_physical_id = 0"

section \<open>Allocation and release\<close>

definition ocl_put_heap :: "OclDev Heap \<Rightarrow> OclMM \<Rightarrow> OclMM" where
  "ocl_put_heap h mm = mm\<lparr>ocl_fragment_allocator := (ocl_fragment_allocator mm)[nat get_physical_id := h]\<rparr>"

definition ocl_alloc_pim :: "'w OclApi \<Rightarrow> nat \<Rightarrow> 'w ocl_mgr \<Rightarrow> (addr \<times> 'w ocl_mgr) option" where
  "ocl_alloc_pim api sz s =
    Option.bind (arr_get (ocl_fragment_allocator (fst s)) get_physical_id) (\<lambda>h.
    Option.bind (heap_alloc OclBlockAllocator sz get_physical_id h) (\<lambda>(local_buffer, h').
      let mm = ocl_put_heap h' (fst s);
          origin = of_nat local_buffer - of_nat (ocl_base_addr (block_alloc h') get_physical_id)
      in case cl_CreateSubBuffer api (pim_base h') origin sz (snd s) of
           (None, w) \<Rightarrow> None
         | (Some sub_buffer, w) \<Rightarrow>
             (case ocl_new api w of
                (p, w) \<Rightarrow> Some (p, (mm\<lparr>ocl_objs := (ocl_objs mm)
                  (p \<mapsto> \<lparr>host_addr = local_buffer, dev_addr = sub_buffer, obj_size = sz\<rparr>)\<rparr>, w)))))"

definition ocl_alloc_memory ::
    "'w OclApi \<Rightarrow> addr \<Rightarrow> nat \<Rightarrow> PimMemType \<Rightarrow> 'w ocl_mgr \<Rightarrow> (int \<times> addr \<times> 'w ocl_mgr) option" where
  "ocl_alloc_memory api ptr sz mt s =
    (case mt of
       MEM_TYPE_DEVICE \<Rightarrow>
         (case cl_CreateBuffer api sz (snd s) of (None, w) \<Rightarrow> None | (Some p, w) \<Rightarrow> Some (0, p, (fst s, w)))
     | MEM_TYPE_HOST \<Rightarrow> (case c_malloc api sz (snd s) of (p, w) \<Rightarrow> Some (0, p, (fst s, w)))
     | MEM_TYPE_PIM \<Rightarrow> map_option (\<lambda>(p, s'). (0, p, s')) (ocl_alloc_pim api sz s))"

definition ocl_alloc_memory_bo ::
    "'w OclApi \<Rightarrow> PimBo \<Rightarrow> 'w ocl_mgr \<Rightarrow> (int \<times> PimBo \<times> 'w ocl_mgr) option" where
  "ocl_alloc_memory_bo api bo s =
     map_option (\<lambda>(ret, p, s'). (ret, bo\<lparr>bo_data := p\<rparr>, s'))
       (ocl_alloc_memory api (bo_data bo) (bo_size bo) (mem_type bo) s)"

text \<open>The result of the heap's \<open>free\<close> is ignored.\<close>

definition ocl_free_pim :: "'w OclApi \<Rightarrow> addr \<Rightarrow> 'w ocl_mgr \<Rightarrow> 'w ocl_mgr option" where
  "ocl_free_pim api p s =
    Option.bind (ocl_objs (fst s) p) (\<lambda>buffer.
    Option.bind (arr_get (ocl_fragment_allocator (fst s)) get_physical_id) (\<lambda>h.
      map_option (\<lambda>(ok, h').
          let mm = ocl_put_heap h' (fst s)
          in (mm\<lparr>ocl_objs := (ocl_objs mm)(p := None)\<rparr>,
              c_free api p (cl_ReleaseMemObject api (dev_addr buffer) (snd s))))
        (heap_free OclBlockAllocator (host_addr buffer) h)))"

definition ocl_free_memory ::
    "'w OclApi \<Rightarrow> addr \<Rightarrow> PimMemType \<Rightarrow> 'w ocl_mgr \<Rightarrow> (int \<times> 'w ocl_mgr) option" where
  "ocl_free_memory api ptr mt s =
    (let w = snd (cl_Finish api (snd s))
     in case mt of
          MEM_TYPE_DEVICE \<Rightarrow> Some (0, (fst s, cl_ReleaseMemObject api ptr w))
        | MEM_TYPE_HOST \<Rightarrow> Some (0, (fst s, c_free api ptr w))
        | MEM_TYPE_PIM \<Rightarrow> map_option (\<lambda>s'. (0, s')) (ocl_free_pim api ptr (fst s, w)))"

definition ocl_free_memory_bo ::
    "'w OclApi \<Rightarrow> PimBo \<Rightarrow> 'w ocl_mgr \<Rightarrow> (int \<times> PimBo \<times> 'w ocl_mgr) option" where
  "ocl_free_memory_bo api bo s =
    (case mem_type bo of
       MEM_TYPE_DEVICE \<Rightarrow> Some (0, bo, (fst s, cl_ReleaseMemObject api (bo_data bo) (snd s)))
     | MEM_TYPE_HOST \<Rightarrow> Some (0, bo, (fst s, c_free api (bo_data bo) (snd s)))
     | MEM_TYPE_PIM \<Rightarrow> map_option (\<lambda>s'. (0, bo\<lparr>bo_data := 0\<rparr>, s')) (ocl_free_pim api (bo_data bo) s))"

section \<open>Copies\<close>

definition obj_host :: "OclMM \<Rightarrow> addr \<Rightarrow> addr option" where
  "obj_host mm p = map_option host_addr (ocl_objs mm p)"

text \<open>\<open>PIM_TO_PIM\<close> is the default case of the switch: it is logged and succeeds without a copy.\<close>

definition ocl_copy_memory ::
    "'w OclApi \<Rightarrow> addr \<Rightarrow> addr \<Rightarrow> nat \<Rightarrow> PimMemCpyType \<Rightarrow> 'w ocl_mgr \<Rightarrow> (int \<times> 'w ocl_mgr) option" where
  "ocl_copy_memory api dst src sz cpy_type s =
    (let mm = fst s; w = snd s
     in map_option (\<lambda>w'. (0, (mm, w')))
       (case cpy_type of
          HOST_TO_PIM \<Rightarrow> map_option (\<lambda>d. c_memcpy api d src sz w) (obj_host mm dst)
        | HOST_TO_DEVICE \<Rightarrow> cl_ok (cl_EnqueueWriteBuffer api dst sz src w)
        | PIM_TO_HOST \<Rightarrow> map_option (\<lambda>p. c_memcpy api dst p sz w) (obj_host mm src)
        | DEVICE_TO_HOST \<Rightarrow> cl_ok (cl_EnqueueReadBuffer api src sz dst w)
        | DEVICE_TO_PIM \<Rightarrow> Option.bind (obj_host mm dst) (\<lambda>d. cl_ok (cl_EnqueueReadBuffer api src sz d w))
        | PIM_TO_DEVICE \<Rightarrow> Option.bind (obj_host mm src) (\<lambda>p. cl_ok (cl_EnqueueWriteBuffer api dst sz p w))
        | DEVICE_TO_DEVICE \<Rightarrow>
            Option.bind (cl_ok (cl_EnqueueCopyBuffer api src dst sz w)) (\<lambda>w. cl_ok (cl_Finish api w))
        | HOST_TO_HOST \<Rightarrow> Some (c_memcpy api dst src sz w)
        | PIM_TO_PIM \<Rightarrow> Some w))"

definition ocl_copy_memory_bo ::
    "'w OclApi \<Rightarrow> PimBo \<Rightarrow> PimBo \<Rightarrow> PimMemCpyType \<Rightarrow> 'w ocl_mgr \<Rightarrow> (int \<times> 'w ocl_mgr) option" where
  "ocl_copy_memory_bo api dst src cpy_type s = ocl_copy_memory api (bo_data dst) (bo_data src) (bo_size dst) cpy_type s"

text \<open>Not implemented in the source: nothing is copied and success is reported.\<close>

definition ocl_copy_memory_3d :: "PimCopy3D \<Rightarrow> 'w ocl_mgr \<Rightarrow> (int \<times> 'w ocl_mgr) option" where
  "ocl_copy_memory_3d c s = Some (0, s)"

section \<open>Conversion of weight layouts\<close>

fun ocl_run_copies :: "'w OclApi \<Rightarrow> addr \<Rightarrow> addr \<Rightarrow> (int \<times> int) list \<Rightarrow> 'w \<Rightarrow> 'w" where
  "ocl_run_copies api dst src [] w = w"
| "ocl_run_copies api dst src ((d, s) # cs) w =
     ocl_run_copies api dst src cs (c_memcpy api (ptr_add dst d) (ptr_add src s) (nat (trans_size vega20_pbi)) w)"

definition ocl_convert_chwise :: "'w OclApi \<Rightarrow> bool \<Rightarrow> PimGemmOrder \<Rightarrow> PimBo \<Rightarrow> PimBo \<Rightarrow> 'w \<Rightarrow> int \<times> PimBo \<times> 'w" where
  "ocl_convert_chwise api emulator order dst src w =
    (let s = bshape src;
         iter_cnt = unat (sh_n s * sh_c s * (if order = I_X_W then sh_w s else sh_h s)) div nat PIM_GEMV_OUT_ALIGN;
         inc = unat (sh_h s * of_int PIM_GEMV_OUT_ALIGN) * 2;
         cs = concat (map (offset_copies (chwise_copies emulator (in_chunks order src))) (data_offsets iter_cnt 0 inc))
     in (0, dst\<lparr>data_layout_type := CHWISE_GEMM_WEIGHT\<rparr>, ocl_run_copies api (bo_data dst) (bo_data src) cs w))"

text \<open>The rows of a padded weight are read from \<open>src_data\<close>, a null pointer at this point.\<close>

fun ocl_gather_rows :: "'w OclApi \<Rightarrow> addr \<Rightarrow> PimBo \<Rightarrow> nat list \<Rightarrow> 'w ocl_mgr \<Rightarrow> 'w ocl_mgr option" where
  "ocl_gather_rows api tmp src [] s = Some s"
| "ocl_gather_rows api tmp src (i # is) s =
    Option.bind (ocl_copy_memory api (ptr_add tmp (2 * uint (of_nat i * sh_h (bshape src))))
        (ptr_add 0 (2 * uint (of_nat i * sh_h (bshape_r src)))) (unat (sh_h (bshape_r src)) * 2) DEVICE_TO_HOST s)
      (\<lambda>(ret, s'). ocl_gather_rows api tmp src is s')"

definition ocl_unpad_source :: "'w OclApi \<Rightarrow> PimBo \<Rightarrow> 'w ocl_mgr \<Rightarrow> 'w ocl_mgr option" where
  "ocl_unpad_source api src s =
    (if sh_w (bshape src) \<noteq> sh_w (bshape_r src) \<or> sh_h (bshape src) \<noteq> sh_h (bshape_r src)
     then let src_size = nat (i32 (int (bo_size src)) mod 2 ^ 64);
              (tmp, w) = c_calloc api (2 * src_size) (snd s)
          in Option.bind (ocl_gather_rows api tmp src [0..<unat (sh_w (bshape_r src))] (fst s, w)) (\<lambda>s1.
             Option.bind (ocl_copy_memory api 0 tmp src_size HOST_TO_DEVICE s1) (\<lambda>(ret, s2).
               Some (fst s2, c_free api tmp (snd s2))))
     else Some s)"

definition ocl_convert_aligned ::
    "'w OclApi \<Rightarrow> bool \<Rightarrow> PimGemmOrder \<Rightarrow> PimBo \<Rightarrow> PimBo \<Rightarrow> 'w ocl_mgr \<Rightarrow> (int \<times> PimBo \<times> 'w ocl_mgr) option" where
  "ocl_convert_aligned api emulator order dst src m =
    map_option (\<lambda>(mm, w).
      let s = bshape src;
          iter_cnt = nat (i32 (uint (sh_n s * sh_c s)));
          out_cnt = nat (i32 (uint (if order = I_X_W then sh_w s else sh_h s)));
          inc = unat (sh_h s * sh_w s) * 2;
          cs = concat (map (offset_copies (aligned_copies emulator out_cnt (in_chunks order src))) (data_offsets iter_cnt 0 inc))
      in (0, dst\<lparr>data_layout_type := ALIGNED_GEMM_WEIGHT\<rparr>, (mm, ocl_run_copies api (bo_data dst) (bo_data src) cs w)))
    (ocl_unpad_source api src m)"

text \<open>The flag for reordering on the device is ignored.\<close>

definition ocl_convert_data_layout ::
    "'w OclApi \<Rightarrow> bool \<Rightarrow> PimBo \<Rightarrow> PimBo \<Rightarrow> bool \<Rightarrow> 'w ocl_mgr \<Rightarrow> (int \<times> PimBo \<times> 'w ocl_mgr) option" where
  "ocl_convert_data_layout api emulator dst src reorder_on_device s =
    (let order = ocl_gemm_order (fst s)
     in if check_chwise_gemm_bo src order
        then case ocl_convert_chwise api emulator order dst src (snd s) of (ret, dst', w) \<Rightarrow> Some (ret, dst', (fst s, w))
        else ocl_convert_aligned api emulator order dst src s)"

definition ocl_set_gemm_order :: "PimGemmOrder \<Rightarrow> 'w ocl_mgr \<Rightarrow> 'w ocl_mgr" where
  "ocl_set_gemm_order order s = ((fst s)\<lparr>ocl_gemm_order := order\<rparr>, snd s)"

definition OclManager :: "'w OclApi \<Rightarrow> bool \<Rightarrow> 'w ocl_mgr MemOps" where
  "OclManager api emulator =
    \<lparr>mm_initialize = (\<lambda>s. s), mm_deinitialize = (\<lambda>s. s),
     mm_alloc_memory = ocl_alloc_memory api, mm_alloc_memory_bo = ocl_alloc_memory_bo api,
     mm_free_memory = ocl_free_memory api, mm_free_memory_bo = ocl_free_memory_bo api,
     mm_copy_memory = ocl_copy_memory api, mm_copy_memory_bo = ocl_copy_memory_bo api,
     mm_copy_memory_3d = ocl_copy_memory_3d, mm_convert_data_layout = ocl_convert_data_layout api emulator,
     mm_set_gemm_order = ocl_set_gemm_order,
     mm_get_base_memobj = (\<lambda>s. map_option pim_base (arr_get (ocl_fragment_allocator (fst s)) 0))\<rparr>"

section \<open>The contract of the memory manager\<close>

text \<open>
  What the manager relies on: a sub-buffer exists only inside a buffer of the block size, \<open>new\<close> returns
  an address that is not in use, \<open>free\<close> gives up that address and nothing else does. \<open>lv w\<close> is the set of
  addresses of live C++ objects.
\<close>

definition ocl_laws :: "'w OclApi \<Rightarrow> ('w \<Rightarrow> addr set) \<Rightarrow> bool" where
  "ocl_laws api lv \<longleftrightarrow>
     (\<forall>base origin n w sub w'. cl_CreateSubBuffer api base origin n w = (Some sub, w') \<longrightarrow>
        base \<noteq> 0 \<and> unat origin + n \<le> ocl_block_size \<and> lv w' = lv w)
     \<and> (\<forall>w p w'. ocl_new api w = (p, w') \<longrightarrow> p \<noteq> 0 \<and> p \<notin> lv w \<and> lv w' = insert p (lv w))
     \<and> (\<forall>p w. lv (c_free api p w) = lv w - {p}) \<and> (\<forall>p w. lv (cl_ReleaseMemObject api p w) = lv w)"

lemma ocl_lawsD:
  assumes "ocl_laws api lv"
  shows "cl_CreateSubBuffer api base origin n w = (Some sub, w') \<Longrightarrow> base \<noteq> 0 \<and> unat origin + n \<le> ocl_block_size \<and> lv w' = lv w"
    "ocl_new api w = (p, w') \<Longrightarrow> p \<noteq> 0 \<and> p \<notin> lv w \<and> lv w' = insert p (lv w)"
    "lv (c_free api p w) = lv w - {p}" "lv (cl_ReleaseMemObject api p w) = lv w"
  using assms by (simp_all add: ocl_laws_def)

text \<open>The mapped block lies in the 64-bit address space and is not at the null pointer.\<close>

definition base_ok :: "OclDev \<Rightarrow> bool" where
  "base_ok b \<longleftrightarrow>
     (case cl_map b 0 ocl_block_size of None \<Rightarrow> True | Some (m, a) \<Rightarrow> 0 < a \<and> a + ocl_block_size \<le> 2 ^ 64)
     \<and> (ocl_alloc_done b 0 \<longrightarrow> 0 < ocl_base_addr b 0 \<and> ocl_base_addr b 0 + ocl_block_size \<le> 2 ^ 64)"

definition ocl_heap_ok :: "OclDev Heap \<Rightarrow> bool" where
  "ocl_heap_ok h \<longleftrightarrow> heap_inv OclBlockAllocator (ocl_binv 0) ocl_mapped h \<and> base_ok (block_alloc h)
     \<and> (\<not> ocl_alloc_done (block_alloc h) 0 \<longrightarrow> pim_base h = 0)"

definition objs_ok :: "OclDev Heap \<Rightarrow> (addr \<rightharpoonup> OclBufferObj) \<Rightarrow> bool" where
  "objs_ok h objs \<longleftrightarrow> objs 0 = None \<and> (\<forall>p b. objs p = Some b \<longrightarrow> region_at h (host_addr b) \<noteq> None)
     \<and> (\<forall>p q b c. objs p = Some b \<longrightarrow> objs q = Some c \<longrightarrow> host_addr b = host_addr c \<longrightarrow> p = q)"

definition ocl_mgr_inv :: "'w OclApi \<Rightarrow> ('w \<Rightarrow> addr set) \<Rightarrow> 'w ocl_mgr \<Rightarrow> bool" where
  "ocl_mgr_inv api lv s \<longleftrightarrow> ocl_laws api lv \<and> dom (ocl_objs (fst s)) \<subseteq> lv (snd s)
     \<and> (\<exists>h. arr_get (ocl_fragment_allocator (fst s)) 0 = Some h \<and> ocl_heap_ok h \<and> objs_ok h (ocl_objs (fst s)))"

definition obj_regions :: "OclDev Heap \<Rightarrow> (addr \<rightharpoonup> OclBufferObj) \<Rightarrow> addr \<rightharpoonup> addr \<times> nat" where
  "obj_regions h objs p = Option.bind (objs p) (\<lambda>b. map_option (Pair (host_addr b)) (region_at h (host_addr b)))"

definition ocl_held :: "'w ocl_mgr \<Rightarrow> addr \<rightharpoonup> addr \<times> nat" where
  "ocl_held s p = Option.bind (arr_get (ocl_fragment_allocator (fst s)) 0) (\<lambda>h. obj_regions h (ocl_objs (fst s)) p)"

lemma base_ok_alloc:
  assumes "base_ok b" "ocl_ba_alloc n 0 b = Some (q, sz, b')"
  shows "base_ok b' \<and> ocl_alloc_done b' 0"
  using assms
  by (auto simp: base_ok_def ocl_ba_alloc_def ocl_allocate_pim_block_def Let_def split: if_splits option.splits prod.splits)

lemma ocl_heap_alloc:
  assumes "ocl_heap_ok h" "0 < n" "heap_alloc OclBlockAllocator n 0 h = Some (p, h')"
  shows "ocl_heap_ok h'"
    "if p = 0 then region_at h' = region_at h
     else region_at h p = None \<and> region_at h' = (region_at h)(p \<mapsto> get_aligned_bytes n)"
proof -
  have dev: "in_table 0 \<and> (0::int) = 0" by (simp add: in_table_def MAX_NUM_GPUS_def)
  have inv: "heap_inv OclBlockAllocator (ocl_binv 0) ocl_mapped h" using assms(1) by (simp add: ocl_heap_ok_def)
  note r = ocl.region_at_alloc [OF inv dev assms(2,3)]
  then show "if p = 0 then region_at h' = region_at h
     else region_at h p = None \<and> region_at h' = (region_at h)(p \<mapsto> get_aligned_bytes n)" by blast
  have "base_ok (block_alloc h') \<and> (\<not> ocl_alloc_done (block_alloc h') 0 \<longrightarrow> pim_base h' = 0)"
    using heap_alloc_block [OF assms(3)] assms(1) base_ok_alloc
    by (auto simp: ocl_heap_ok_def OclBlockAllocator_def)
  then show "ocl_heap_ok h'" using r by (simp add: ocl_heap_ok_def)
qed

lemma ocl_heap_free:
  assumes "ocl_heap_ok h" "region_at h p \<noteq> None"
  shows "\<exists>h'. heap_free OclBlockAllocator p h = Some (True, h') \<and> ocl_heap_ok h' \<and> region_at h' = (region_at h)(p := None)"
proof -
  have inv: "heap_inv OclBlockAllocator (ocl_binv 0) ocl_mapped h" using assms(1) by (simp add: ocl_heap_ok_def)
  obtain h' where h': "heap_free OclBlockAllocator p h = Some (True, h')"
    "heap_inv OclBlockAllocator (ocl_binv 0) ocl_mapped h'" "region_at h' = (region_at h)(p := None)"
    using ocl.region_at_free [OF inv assms(2)] by blast
  have "(base_ok (block_alloc h') \<and> (ocl_alloc_done (block_alloc h') 0 \<longleftrightarrow> ocl_alloc_done (block_alloc h) 0)) \<and> pim_base h' = pim_base h"
    by (rule heap_free_block [OF h'(1), where P = "\<lambda>b. base_ok b \<and> (ocl_alloc_done b 0 \<longleftrightarrow> ocl_alloc_done (block_alloc h) 0)"])
      (use assms(1) in \<open>auto simp: ocl_heap_ok_def OclBlockAllocator_def ocl_ba_free_def base_ok_def\<close>)
  then show ?thesis using h' assms(1) by (auto simp: ocl_heap_ok_def)
qed

text \<open>A null pointer from the heap never becomes a buffer: its offset lies outside the block.\<close>

lemma null_origin:
  assumes "ocl_heap_ok h" "0 < n" "ocl_laws api lv"
    "cl_CreateSubBuffer api (pim_base h) (of_nat p - of_nat (ocl_base_addr (block_alloc h) 0)) n w = (Some sub, w')"
  shows "p \<noteq> 0"
proof
  assume p: "p = 0"
  let ?b = "ocl_base_addr (block_alloc h) 0"
  have l: "pim_base h \<noteq> 0" "unat (of_nat p - of_nat ?b :: u64) + n \<le> ocl_block_size"
    using ocl_lawsD(1) [OF assms(3,4)] by simp_all
  then have "ocl_alloc_done (block_alloc h) 0" using assms(1) by (auto simp: ocl_heap_ok_def)
  then have b: "0 < ?b" "?b + ocl_block_size \<le> 2 ^ 64" using assms(1) by (simp_all add: ocl_heap_ok_def base_ok_def)
  then have "?b < 2 ^ 64" by (simp add: ocl_block_size_def)
  then have "unat (of_nat ?b :: u64) = ?b" by (simp add: unat_of_nat take_bit_nat_eq_self)
  then have "unat (0 - of_nat ?b :: u64) = 2 ^ 64 - ?b" using b(1) by (subst unat_sub_if') simp
  then show False using l(2) b(2) assms(2) p by simp
qed

text \<open>Updates of the table of objects and of the heap, as updates of the regions held.\<close>

lemma obj_regions_alloc:
  assumes "objs_ok h objs" "region_at h a = None" "region_at h' = (region_at h)(a \<mapsto> m)" "p \<noteq> 0" "objs p = None" "host_addr b = a"
  shows "objs_ok h' (objs(p \<mapsto> b))" "obj_regions h' (objs(p \<mapsto> b)) = (obj_regions h objs)(p \<mapsto> (a, m))"
proof -
  have ne: "host_addr c \<noteq> a" if "objs q = Some c" for q c
    using assms(1,2) that unfolding objs_ok_def by (metis (full_types))
  show "objs_ok h' (objs(p \<mapsto> b))"
    using assms ne unfolding objs_ok_def by (auto split: if_splits) metis+
  show "obj_regions h' (objs(p \<mapsto> b)) = (obj_regions h objs)(p \<mapsto> (a, m))"
    using assms(3,6) ne by (auto simp: obj_regions_def fun_eq_iff split: bind_splits)
qed

lemma obj_regions_free:
  assumes "objs_ok h objs" "objs p = Some b" "region_at h' = (region_at h)(host_addr b := None)"
  shows "objs_ok h' (objs(p := None))" "obj_regions h' (objs(p := None)) = (obj_regions h objs)(p := None)"
proof -
  have ne: "host_addr c \<noteq> host_addr b" if "objs q = Some c" "q \<noteq> p" for q c
    using assms(1,2) that unfolding objs_ok_def by metis
  show "objs_ok h' (objs(p := None))"
    using assms ne unfolding objs_ok_def by (auto split: if_splits)
  show "obj_regions h' (objs(p := None)) = (obj_regions h objs)(p := None)"
    using assms(3) ne by (auto simp: obj_regions_def fun_eq_iff split: bind_splits)
qed

lemma obj_regions_apart:
  assumes "ocl_heap_ok h" "objs_ok h objs"
  shows "regions_apart (obj_regions h objs) \<and> obj_regions h objs 0 = None"
proof -
  have inv: "heap_inv OclBlockAllocator (ocl_binv 0) ocl_mapped h" using assms(1) by (simp add: ocl_heap_ok_def)
  have "a + m \<le> a' \<or> a' + m' \<le> a"
    if "objs p = Some b" "region_at h (host_addr b) = Some m" "host_addr b = a"
      "objs q = Some c" "region_at h (host_addr c) = Some m'" "host_addr c = a'" "p \<noteq> q" for p q b c a m a' m'
  proof -
    have "a \<noteq> a'" using assms(2) that unfolding objs_ok_def by metis
    then show ?thesis
      using regions_apartD [OF ocl.region_at_apart [OF inv], of a a m a' a' m'] that by simp
  qed
  then have "regions_apart (obj_regions h objs)"
    by (auto simp: regions_apart_def obj_regions_def bind_eq_Some_conv) blast
  then show ?thesis using assms(2) by (simp add: obj_regions_def objs_ok_def)
qed

lemma ocl_put_heap_simps:
  assumes "arr_get (ocl_fragment_allocator mm) 0 = Some h"
  shows "arr_get (ocl_fragment_allocator (ocl_put_heap h' mm)) 0 = Some h'" "ocl_objs (ocl_put_heap h' mm) = ocl_objs mm"
  using assms by (simp_all add: ocl_put_heap_def get_physical_id_def arr_get_Some_iff)

lemma ocl_alloc_pim_ok:
  assumes s: "ocl_mgr_inv api lv s" and n: "exact_size n" and call: "ocl_alloc_pim api n s = Some (p, s')"
  shows "ocl_mgr_inv api lv s' \<and> alloc_outcome n (ocl_held s) p (ocl_held s')"
proof -
  obtain h where h: "ocl_laws api lv" "dom (ocl_objs (fst s)) \<subseteq> lv (snd s)" "arr_get (ocl_fragment_allocator (fst s)) 0 = Some h"
    "ocl_heap_ok h" "objs_ok h (ocl_objs (fst s))" using s by (auto simp: ocl_mgr_inv_def)
  have n': "0 < n" "n \<le> get_aligned_bytes n" using n aligned_ge by (auto simp: exact_size_def)
  from call obtain a h' sub w1 w2 where c: "heap_alloc OclBlockAllocator n 0 h = Some (a, h')"
    "cl_CreateSubBuffer api (pim_base h') (of_nat a - of_nat (ocl_base_addr (block_alloc h') 0)) n (snd s) = (Some sub, w1)"
    "ocl_new api w1 = (p, w2)"
    "s' = ((ocl_put_heap h' (fst s))\<lparr>ocl_objs := (ocl_objs (fst s))(p \<mapsto> \<lparr>host_addr = a, dev_addr = sub, obj_size = n\<rparr>)\<rparr>, w2)"
  proof -
    from call obtain a h' where a: "heap_alloc OclBlockAllocator n 0 h = Some (a, h')"
      by (auto simp: ocl_alloc_pim_def get_physical_id_def h(3) bind_eq_Some_conv)
    obtain q w1 where q: "cl_CreateSubBuffer api (pim_base h') (of_nat a - of_nat (ocl_base_addr (block_alloc h') 0)) n (snd s) = (q, w1)"
      by (rule prod.exhaust)
    obtain p' w2 where p': "ocl_new api w1 = (p', w2)" by (rule prod.exhaust)
    show thesis using call a q p' that [of a h' _ w1 w2]
      by (cases q) (auto simp: ocl_alloc_pim_def get_physical_id_def h(3) Let_def ocl_put_heap_simps(2) [OF h(3)])
  qed
  note h' = ocl_heap_alloc [OF h(4) n'(1) c(1)]
  have a: "a \<noteq> 0" by (rule null_origin [OF h'(1) n'(1) h(1) c(2)])
  have lv: "p \<noteq> 0" "p \<notin> lv (snd s)" "lv w2 = insert p (lv (snd s))"
    using ocl_lawsD(1) [OF h(1) c(2)] ocl_lawsD(2) [OF h(1) c(3)] by auto
  then have "ocl_objs (fst s) p = None" using h(2) by blast
  note r = obj_regions_alloc [OF h(5) _ _ lv(1) this, of a h' "get_aligned_bytes n" "\<lparr>host_addr = a, dev_addr = sub, obj_size = n\<rparr>"]
  have held: "ocl_held s = obj_regions h (ocl_objs (fst s))" by (simp add: ocl_held_def h(3) fun_eq_iff)
  have heaps: "arr_get (ocl_fragment_allocator (fst s')) 0 = Some h'" using ocl_put_heap_simps(1) [OF h(3)] by (simp add: c(4))
  have held': "ocl_held s' = (ocl_held s)(p \<mapsto> (a, get_aligned_bytes n))"
    using r(2) h'(2) a unfolding held by (simp add: ocl_held_def heaps fun_eq_iff) (simp add: c(4))
  have "ocl_mgr_inv api lv s'"
    using h(1,2) r(1) h' a lv(3) heaps by (auto simp: ocl_mgr_inv_def c(4))
  moreover have "ocl_held s p = None" using \<open>ocl_objs (fst s) p = None\<close> by (simp add: held obj_regions_def)
  ultimately show ?thesis using held' lv(1) n'(2) by (auto simp: alloc_outcome_def)
qed

lemma ocl_free_pim_ok:
  assumes s: "ocl_mgr_inv api lv s" and p: "ocl_held s p \<noteq> None"
  shows "\<exists>s'. ocl_free_pim api p s = Some s' \<and> ocl_mgr_inv api lv s' \<and> ocl_held s' = (ocl_held s)(p := None)"
proof -
  obtain h where h: "ocl_laws api lv" "dom (ocl_objs (fst s)) \<subseteq> lv (snd s)" "arr_get (ocl_fragment_allocator (fst s)) 0 = Some h"
    "ocl_heap_ok h" "objs_ok h (ocl_objs (fst s))" using s by (auto simp: ocl_mgr_inv_def)
  have held: "ocl_held s = obj_regions h (ocl_objs (fst s))" by (simp add: ocl_held_def h(3) fun_eq_iff)
  obtain b where b: "ocl_objs (fst s) p = Some b" "region_at h (host_addr b) \<noteq> None"
    using p by (auto simp: held obj_regions_def bind_eq_Some_conv)
  obtain h' where h': "heap_free OclBlockAllocator (host_addr b) h = Some (True, h')" "ocl_heap_ok h'"
    "region_at h' = (region_at h)(host_addr b := None)" using ocl_heap_free [OF h(4) b(2)] by blast
  note r = obj_regions_free [OF h(5) b(1) h'(3)]
  define s' where "s' = ((ocl_put_heap h' (fst s))\<lparr>ocl_objs := (ocl_objs (fst s))(p := None)\<rparr>,
    c_free api p (cl_ReleaseMemObject api (dev_addr b) (snd s)))"
  have "ocl_free_pim api p s = Some s'"
    by (simp add: ocl_free_pim_def b(1) get_physical_id_def h(3) h'(1) s'_def ocl_put_heap_simps(2) [OF h(3)])
  moreover have heaps: "arr_get (ocl_fragment_allocator (fst s')) 0 = Some h'" using ocl_put_heap_simps(1) [OF h(3)] by (simp add: s'_def)
  moreover have "ocl_mgr_inv api lv s'"
    using h(1,2) r(1) h'(2) heaps ocl_lawsD(3,4) [OF h(1)] by (auto simp: ocl_mgr_inv_def s'_def)
  moreover have "ocl_held s' = (ocl_held s)(p := None)"
    using r(2) unfolding held by (simp add: ocl_held_def heaps fun_eq_iff) (simp add: s'_def)
  ultimately show ?thesis by blast
qed

interpretation ocl_mgr: memory_manager "OclManager api emulator" "ocl_mgr_inv api lv" ocl_held exact_size for api emulator lv
proof
  fix s assume "ocl_mgr_inv api lv s"
  then obtain h where "arr_get (ocl_fragment_allocator (fst s)) 0 = Some h" "ocl_heap_ok h" "objs_ok h (ocl_objs (fst s))"
    by (auto simp: ocl_mgr_inv_def)
  moreover from this have "ocl_held s = obj_regions h (ocl_objs (fst s))" by (simp add: ocl_held_def fun_eq_iff)
  ultimately show "regions_apart (ocl_held s) \<and> ocl_held s 0 = None" using obj_regions_apart by simp
next
  fix s bo ret bo' s'
  assume s: "ocl_mgr_inv api lv s" and bo: "mem_type bo = MEM_TYPE_PIM" "exact_size (bo_size bo)"
    and call: "mm_alloc_memory_bo (OclManager api emulator) bo s = Some (ret, bo', s')"
  from call obtain p where "ocl_alloc_pim api (bo_size bo) s = Some (p, s')" "ret = 0" "bo' = bo\<lparr>bo_data := p\<rparr>"
    by (auto simp: OclManager_def ocl_alloc_memory_bo_def ocl_alloc_memory_def bo(1))
  with ocl_alloc_pim_ok [OF s bo(2) this(1)] show "ocl_mgr_inv api lv s' \<and> ret = 0 \<and> bo' = bo\<lparr>bo_data := bo_data bo'\<rparr>
      \<and> alloc_outcome (bo_size bo) (ocl_held s) (bo_data bo') (ocl_held s')" by simp
next
  fix s and bo :: PimBo
  assume s: "ocl_mgr_inv api lv s" and bo: "mem_type bo = MEM_TYPE_PIM" "ocl_held s (bo_data bo) \<noteq> None"
  from ocl_free_pim_ok [OF s bo(2)]
  show "\<exists>bo' s'. mm_free_memory_bo (OclManager api emulator) bo s = Some (0, bo', s') \<and> ocl_mgr_inv api lv s'
      \<and> ocl_held s' = (ocl_held s)(bo_data bo := None)"
    by (auto simp: OclManager_def ocl_free_memory_bo_def bo(1))
qed

end
