(* ===== verification/PimManager.thy ===== *)
theory PimManager
  imports HipMemory OclMemory
begin

text \<open>
  \<open>PimManager\<close> (\<open>runtime/source/manager/PimManager.cpp\<close>) and the factory of memory managers. The memory
  manager behind the pointer \<open>pim_memory_manager_\<close> is a HIP or an OpenCL manager: a state of a sum type,
  with \<open>dispatch\<close> for the virtual calls. The manager is a singleton that is never destroyed.
\<close>

section \<open>Virtual calls\<close>

definition on_sum :: "('h \<Rightarrow> ('a \<times> 'h) option) \<Rightarrow> ('o \<Rightarrow> ('a \<times> 'o) option) \<Rightarrow> 'h + 'o \<Rightarrow> ('a \<times> ('h + 'o)) option" where
  "on_sum f g s =
    (case s of
       Inl h \<Rightarrow> map_option (\<lambda>(r, h'). (r, Inl h')) (f h)
     | Inr x \<Rightarrow> map_option (\<lambda>(r, x'). (r, Inr x')) (g x))"

definition on_sum2 ::
    "('h \<Rightarrow> ('a \<times> 'b \<times> 'h) option) \<Rightarrow> ('o \<Rightarrow> ('a \<times> 'b \<times> 'o) option) \<Rightarrow> 'h + 'o \<Rightarrow> ('a \<times> 'b \<times> ('h + 'o)) option" where
  "on_sum2 f g s =
    (case s of
       Inl h \<Rightarrow> map_option (\<lambda>(r, b, h'). (r, b, Inl h')) (f h)
     | Inr x \<Rightarrow> map_option (\<lambda>(r, b, x'). (r, b, Inr x')) (g x))"

definition dispatch :: "'h MemOps \<Rightarrow> 'o MemOps \<Rightarrow> ('h + 'o) MemOps" where
  "dispatch A B =
    \<lparr>mm_initialize = map_sum (mm_initialize A) (mm_initialize B),
     mm_deinitialize = map_sum (mm_deinitialize A) (mm_deinitialize B),
     mm_alloc_memory = (\<lambda>p n t. on_sum2 (mm_alloc_memory A p n t) (mm_alloc_memory B p n t)),
     mm_alloc_memory_bo = (\<lambda>bo. on_sum2 (mm_alloc_memory_bo A bo) (mm_alloc_memory_bo B bo)),
     mm_free_memory = (\<lambda>p t. on_sum (mm_free_memory A p t) (mm_free_memory B p t)),
     mm_free_memory_bo = (\<lambda>bo. on_sum2 (mm_free_memory_bo A bo) (mm_free_memory_bo B bo)),
     mm_copy_memory = (\<lambda>d s n k. on_sum (mm_copy_memory A d s n k) (mm_copy_memory B d s n k)),
     mm_copy_memory_bo = (\<lambda>d s k. on_sum (mm_copy_memory_bo A d s k) (mm_copy_memory_bo B d s k)),
     mm_copy_memory_3d = (\<lambda>c. on_sum (mm_copy_memory_3d A c) (mm_copy_memory_3d B c)),
     mm_convert_data_layout =
       (\<lambda>d s dev. on_sum2 (mm_convert_data_layout A d s dev) (mm_convert_data_layout B d s dev)),
     mm_set_gemm_order = (\<lambda>g. map_sum (mm_set_gemm_order A g) (mm_set_gemm_order B g)),
     mm_get_base_memobj = case_sum (mm_get_base_memobj A) (mm_get_base_memobj B)\<rparr>"

text \<open>
  The factory: the constructors of the two managers are given, \<open>None\<close> where a constructor does not
  return. A build without AMD support throws for HIP.
\<close>

definition getPimMemoryManager :: "bool \<Rightarrow> 'h option \<Rightarrow> 'o option \<Rightarrow> PimRuntimeType \<Rightarrow> ('h + 'o) option" where
  "getPimMemoryManager amd hip ocl rt_type =
    (case rt_type of
       RT_TYPE_HIP \<Rightarrow> if amd then map_option Inl hip else None
     | RT_TYPE_OPENCL \<Rightarrow> map_option Inr ocl)"

section \<open>The contract is kept by the dispatch\<close>

locale manager_pair =
  A: memory_manager A invA heldA fits + B: memory_manager B invB heldB fits
  for A :: "'h MemOps" and invA heldA and B :: "'o MemOps" and invB heldB and fits

sublocale manager_pair \<subseteq> disp: memory_manager "dispatch A B" "case_sum invA invB" "case_sum heldA heldB" fits
proof
  fix s assume "case_sum invA invB s"
  then show "regions_apart (case_sum heldA heldB s) \<and> case_sum heldA heldB s 0 = None"
    using A.held_apart B.held_apart by (cases s) auto
next
  fix s and bo bo' :: PimBo and ret s'
  assume s: "case_sum invA invB s" and bo: "mem_type bo = MEM_TYPE_PIM" "fits (bo_size bo)"
    and call: "mm_alloc_memory_bo (dispatch A B) bo s = Some (ret, bo', s')"
  show "case_sum invA invB s' \<and> ret = 0 \<and> bo' = bo\<lparr>bo_data := bo_data bo'\<rparr>
      \<and> alloc_outcome (bo_size bo) (case_sum heldA heldB s) (bo_data bo') (case_sum heldA heldB s')"
  proof (cases s)
    case (Inl h)
    then obtain h' where h': "mm_alloc_memory_bo A bo h = Some (ret, bo', h')" "s' = Inl h'"
      using call by (auto simp: dispatch_def on_sum2_def)
    show ?thesis using A.alloc_bo_ok [OF _ bo h'(1)] s Inl h'(2) by simp
  next
    case (Inr x)
    then obtain x' where x': "mm_alloc_memory_bo B bo x = Some (ret, bo', x')" "s' = Inr x'"
      using call by (auto simp: dispatch_def on_sum2_def)
    show ?thesis using B.alloc_bo_ok [OF _ bo x'(1)] s Inr x'(2) by simp
  qed
next
  fix s and bo :: PimBo
  assume s: "case_sum invA invB s" and bo: "mem_type bo = MEM_TYPE_PIM" "case_sum heldA heldB s (bo_data bo) \<noteq> None"
  show "\<exists>bo' s'. mm_free_memory_bo (dispatch A B) bo s = Some (0, bo', s') \<and> case_sum invA invB s'
      \<and> case_sum heldA heldB s' = (case_sum heldA heldB s)(bo_data bo := None)"
  proof (cases s)
    case (Inl h)
    then obtain bo' h' where "mm_free_memory_bo A bo h = Some (0, bo', h')" "invA h'" "heldA h' = (heldA h)(bo_data bo := None)"
      using A.free_bo_ok [OF _ bo(1), of h] s bo(2) by auto
    then show ?thesis using Inl by (simp add: dispatch_def on_sum2_def)
  next
    case (Inr x)
    then obtain bo' x' where "mm_free_memory_bo B bo x = Some (0, bo', x')" "invB x'" "heldB x' = (heldB x)(bo_data bo := None)"
      using B.free_bo_ok [OF _ bo(1), of x] s bo(2) by auto
    then show ?thesis using Inr by (simp add: dispatch_def on_sum2_def)
  qed
qed

interpretation mgr: manager_pair "HipManager hapi t" "hip_mgr_inv hapi t d" "hip_held d"
    "OclManager oapi emulator" "ocl_mgr_inv oapi lv" ocl_held exact_size
  for hapi t d oapi emulator lv
  by (intro manager_pair.intro hip_mgr.memory_manager_axioms ocl_mgr.memory_manager_axioms)

section \<open>The manager object\<close>

record 's PimManager =
  pm_rt_type :: PimRuntimeType
  pm_precision :: PimPrecision
  pim_memory_manager :: 's

text \<open>
  The singleton: the static variable is set by the first call, later calls return it whatever type
  they ask for.
\<close>

definition PimManager_new :: "(PimRuntimeType \<Rightarrow> 's option) \<Rightarrow> PimRuntimeType \<Rightarrow> PimPrecision \<Rightarrow> 's PimManager option" where
  "PimManager_new factory rt_type prec =
     map_option (\<lambda>mm. \<lparr>pm_rt_type = rt_type, pm_precision = prec, pim_memory_manager = mm\<rparr>) (factory rt_type)"

definition get_instance ::
    "(PimRuntimeType \<Rightarrow> 's option) \<Rightarrow> PimRuntimeType \<Rightarrow> PimPrecision \<Rightarrow> 's PimManager option \<Rightarrow> 's PimManager option" where
  "get_instance factory rt_type prec inst =
    (case inst of None \<Rightarrow> PimManager_new factory rt_type prec | Some pm \<Rightarrow> Some pm)"

definition pm_put :: "'s PimManager \<Rightarrow> 's \<Rightarrow> 's PimManager" where
  "pm_put pm mm = pm\<lparr>pim_memory_manager := mm\<rparr>"

definition pm_initialize :: "'s MemOps \<Rightarrow> 's PimManager \<Rightarrow> int \<times> 's PimManager" where
  "pm_initialize M pm = (0, pm_put pm (mm_initialize M (pim_memory_manager pm)))"

definition pm_deinitialize :: "'s MemOps \<Rightarrow> 's PimManager \<Rightarrow> int \<times> 's PimManager" where
  "pm_deinitialize M pm = (0, pm_put pm (mm_deinitialize M (pim_memory_manager pm)))"

definition pm_alloc_memory ::
    "'s MemOps \<Rightarrow> addr \<Rightarrow> nat \<Rightarrow> PimMemType \<Rightarrow> 's PimManager \<Rightarrow> (int \<times> addr \<times> 's PimManager) option" where
  "pm_alloc_memory M ptr sz mt pm =
     map_option (\<lambda>(ret, p, mm). (ret, p, pm_put pm mm)) (mm_alloc_memory M ptr sz mt (pim_memory_manager pm))"

definition pm_alloc_memory_bo ::
    "'s MemOps \<Rightarrow> PimBo \<Rightarrow> 's PimManager \<Rightarrow> (int \<times> PimBo \<times> 's PimManager) option" where
  "pm_alloc_memory_bo M bo pm =
     map_option (\<lambda>(ret, bo, mm). (ret, bo, pm_put pm mm)) (mm_alloc_memory_bo M bo (pim_memory_manager pm))"

definition pm_free_memory :: "'s MemOps \<Rightarrow> addr \<Rightarrow> PimMemType \<Rightarrow> 's PimManager \<Rightarrow> (int \<times> 's PimManager) option" where
  "pm_free_memory M ptr mt pm =
     map_option (\<lambda>(ret, mm). (ret, pm_put pm mm)) (mm_free_memory M ptr mt (pim_memory_manager pm))"

definition pm_free_memory_bo ::
    "'s MemOps \<Rightarrow> PimBo \<Rightarrow> 's PimManager \<Rightarrow> (int \<times> PimBo \<times> 's PimManager) option" where
  "pm_free_memory_bo M bo pm =
     map_option (\<lambda>(ret, bo, mm). (ret, bo, pm_put pm mm)) (mm_free_memory_bo M bo (pim_memory_manager pm))"

definition pm_copy_memory ::
    "'s MemOps \<Rightarrow> addr \<Rightarrow> addr \<Rightarrow> nat \<Rightarrow> PimMemCpyType \<Rightarrow> 's PimManager \<Rightarrow> (int \<times> 's PimManager) option" where
  "pm_copy_memory M dst src sz k pm =
     map_option (\<lambda>(ret, mm). (ret, pm_put pm mm)) (mm_copy_memory M dst src sz k (pim_memory_manager pm))"

definition pm_copy_memory_bo ::
    "'s MemOps \<Rightarrow> PimBo \<Rightarrow> PimBo \<Rightarrow> PimMemCpyType \<Rightarrow> 's PimManager \<Rightarrow> (int \<times> 's PimManager) option" where
  "pm_copy_memory_bo M dst src k pm =
     map_option (\<lambda>(ret, mm). (ret, pm_put pm mm)) (mm_copy_memory_bo M dst src k (pim_memory_manager pm))"

definition pm_copy_memory_3d :: "'s MemOps \<Rightarrow> PimCopy3D \<Rightarrow> 's PimManager \<Rightarrow> (int \<times> 's PimManager) option" where
  "pm_copy_memory_3d M c pm =
     map_option (\<lambda>(ret, mm). (ret, pm_put pm mm)) (mm_copy_memory_3d M c (pim_memory_manager pm))"

definition pm_convert_data_layout ::
    "'s MemOps \<Rightarrow> PimBo \<Rightarrow> PimBo \<Rightarrow> bool \<Rightarrow> 's PimManager \<Rightarrow> (int \<times> PimBo \<times> 's PimManager) option" where
  "pm_convert_data_layout M dst src on_device pm =
     map_option (\<lambda>(ret, dst, mm). (ret, dst, pm_put pm mm)) (mm_convert_data_layout M dst src on_device (pim_memory_manager pm))"

definition pm_set_gemm_order :: "'s MemOps \<Rightarrow> PimGemmOrder \<Rightarrow> 's PimManager \<Rightarrow> 's PimManager" where
  "pm_set_gemm_order M order pm = pm_put pm (mm_set_gemm_order M order (pim_memory_manager pm))"

end
