(* ===== verification/RuntimeCore.thy ===== *)
theory RuntimeCore
  imports PimManager ShapeUtil "HOL-Library.Monad_Syntax"
begin

text \<open>
  The runtime object, \<open>runtime/source/PimRuntime.cpp\<close>, and the part of the C API it calls itself
  (\<open>PimCreateBo\<close>, \<open>PimDestroyBo\<close>, \<open>PimCopyMemory\<close> of \<open>runtime/source/pim_runtime_api.cpp\<close>). Buffer
  objects and descriptors are C++ objects behind pointers: the state \<open>Pim\<close> of the library holds them in
  stores, next to the global variables of \<open>pim_runtime_api.cpp\<close> and the manager singleton. A call is a
  function of the state; \<open>None\<close> means that it does not return normally (an exception, an abort, a
  dereferenced pointer that is not an object, a loop that does not end).
\<close>

section \<open>State\<close>

text \<open>The unordered map of converted weights is a list of entries with different keys.\<close>

record 'e Runtime =
  rt_type :: PimRuntimeType
  rt_precision :: PimPrecision
  rt_executor :: 'e
  weight_map :: "(u32 \<times> addr) list"

record ('s, 'e) Pim =
  log_initialized :: bool
  pim_initialized :: bool
  pim_runtime :: "'e Runtime option"
  pm_instance :: "'s PimManager option"
  pim_bos :: "addr \<rightharpoonup> PimBo"
  pim_descs :: "addr \<rightharpoonup> PimDesc"
  pim_gemm_descs :: "addr \<rightharpoonup> PimGemmDesc"

text \<open>
  The executor behind \<open>IPimExecutor\<close>, on its own state and the state of the memory manager. Its
  \<open>execute_gemm\<close>, which calls the runtime back, is a parameter of the calls that use it.
\<close>

record ('s, 'e) ExecOps =
  ex_create :: "PimRuntimeType \<Rightarrow> PimPrecision \<Rightarrow> 's \<Rightarrow> ('e \<times> 's) option"
  ex_initialize :: "'e \<times> 's \<Rightarrow> (int \<times> 'e \<times> 's) option"
  ex_deinitialize :: "'e \<times> 's \<Rightarrow> (int \<times> 'e \<times> 's) option"
  ex_set_device :: "u32 \<Rightarrow> 'e \<times> 's \<Rightarrow> (int \<times> 'e \<times> 's) option"
  ex_get_device :: "'e \<times> 's \<Rightarrow> int \<times> u32"
  ex_create_stream :: "'e \<times> 's \<Rightarrow> (addr \<times> 'e \<times> 's) option"
  ex_add :: "PimBo \<Rightarrow> PimBo \<Rightarrow> PimBo \<Rightarrow> addr \<Rightarrow> bool \<Rightarrow> 'e \<times> 's \<Rightarrow> (int \<times> 'e \<times> 's) option"
  ex_mul :: "PimBo \<Rightarrow> PimBo \<Rightarrow> PimBo \<Rightarrow> addr \<Rightarrow> bool \<Rightarrow> 'e \<times> 's \<Rightarrow> (int \<times> 'e \<times> 's) option"
  ex_relu :: "PimBo \<Rightarrow> PimBo \<Rightarrow> addr \<Rightarrow> bool \<Rightarrow> 'e \<times> 's \<Rightarrow> (int \<times> 'e \<times> 's) option"
  ex_copy :: "PimBo \<Rightarrow> PimBo \<Rightarrow> addr \<Rightarrow> bool \<Rightarrow> 'e \<times> 's \<Rightarrow> (int \<times> 'e \<times> 's) option"
  ex_bn :: "PimBo \<Rightarrow> PimBo \<Rightarrow> PimBo \<Rightarrow> PimBo \<Rightarrow> PimBo \<Rightarrow> PimBo \<Rightarrow> u64 \<Rightarrow> addr \<Rightarrow> bool \<Rightarrow> 'e \<times> 's \<Rightarrow> (int \<times> 'e \<times> 's) option"
  ex_sync :: "addr \<Rightarrow> 'e \<times> 's \<Rightarrow> (int \<times> 'e \<times> 's) option"
  ex_dummy :: "'e \<times> 's \<Rightarrow> (int \<times> 'e \<times> 's) option"
  ex_set_gemm_order :: "PimGemmOrder \<Rightarrow> 'e \<Rightarrow> 'e"

text \<open>
  The environment: the memory manager's operations and factory, the executor, \<open>operator new\<close> (an
  address that no live object has), and reads and writes of memory through host pointers (a read of an address
  that is not mapped is \<open>None\<close>).
\<close>

record ('s, 'e) Env =
  env_mem :: "'s MemOps"
  env_factory :: "PimRuntimeType \<Rightarrow> 's option"
  env_exec :: "('s, 'e) ExecOps"
  env_new :: "addr set \<Rightarrow> addr"
  env_read32 :: "'s \<Rightarrow> addr \<Rightarrow> u32 option"
  env_load16 :: "'s \<Rightarrow> addr \<Rightarrow> nat \<Rightarrow> u16 list"
  env_store16 :: "'s \<Rightarrow> addr \<Rightarrow> u16 list \<Rightarrow> 's"

definition live_objs :: "('s, 'e) Pim \<Rightarrow> addr set" where
  "live_objs s = dom (pim_bos s) \<union> dom (pim_descs s) \<union> dom (pim_gemm_descs s)"

definition put_bo :: "addr \<Rightarrow> PimBo \<Rightarrow> ('s, 'e) Pim \<Rightarrow> ('s, 'e) Pim" where
  "put_bo p bo s = s\<lparr>pim_bos := (pim_bos s)(p \<mapsto> bo)\<rparr>"

text \<open>The members \<open>pim_manager_\<close> (the singleton) and \<open>pim_executor_\<close> of the runtime.\<close>

definition the_manager :: "('s, 'e) Pim \<Rightarrow> 's PimManager option" where
  "the_manager s = pm_instance s"

definition put_manager :: "'s PimManager \<Rightarrow> ('s, 'e) Pim \<Rightarrow> ('s, 'e) Pim" where
  "put_manager pm s = s\<lparr>pm_instance := Some pm\<rparr>"

definition run_exec ::
    "('e \<times> 's \<Rightarrow> ('a \<times> 'e \<times> 's) option) \<Rightarrow> ('s, 'e) Pim \<Rightarrow> ('a \<times> ('s, 'e) Pim) option" where
  "run_exec f s = do {
     rt \<leftarrow> pim_runtime s;
     pm \<leftarrow> the_manager s;
     (ret, e, mm) \<leftarrow> f (rt_executor rt, pim_memory_manager pm);
     Some (ret, put_manager (pm_put pm mm) (s\<lparr>pim_runtime := Some (rt\<lparr>rt_executor := e\<rparr>)\<rparr>))
   }"

section \<open>Memory\<close>

definition rt_alloc_memory ::
    "('s, 'e) Env \<Rightarrow> addr \<Rightarrow> nat \<Rightarrow> PimMemType \<Rightarrow> ('s, 'e) Pim \<Rightarrow> (int \<times> addr \<times> ('s, 'e) Pim) option" where
  "rt_alloc_memory E ptr sz mt s = do {
     pm \<leftarrow> the_manager s;
     (ret, p, pm) \<leftarrow> pm_alloc_memory (env_mem E) ptr sz mt pm;
     Some (ret, p, put_manager pm s)
   }"

text \<open>A user pointer is taken as it is; otherwise every error of the manager becomes -1.\<close>

definition rt_alloc_memory_bo ::
    "('s, 'e) Env \<Rightarrow> PimBo \<Rightarrow> addr \<Rightarrow> ('s, 'e) Pim \<Rightarrow> (int \<times> PimBo \<times> ('s, 'e) Pim) option" where
  "rt_alloc_memory_bo E bo user_ptr s =
    (if user_ptr = 0
     then do {
       pm \<leftarrow> the_manager s;
       (ret, bo, pm) \<leftarrow> pm_alloc_memory_bo (env_mem E) bo pm;
       Some (if ret \<noteq> 0 then -1 else ret, bo\<lparr>use_user_ptr := False\<rparr>, put_manager pm s)
     }
     else Some (0, bo\<lparr>bo_data := user_ptr, use_user_ptr := True\<rparr>, s))"

definition rt_free_memory ::
    "('s, 'e) Env \<Rightarrow> addr \<Rightarrow> PimMemType \<Rightarrow> ('s, 'e) Pim \<Rightarrow> (int \<times> ('s, 'e) Pim) option" where
  "rt_free_memory E ptr mt s = do {
     pm \<leftarrow> the_manager s;
     (ret, pm) \<leftarrow> pm_free_memory (env_mem E) ptr mt pm;
     Some (ret, put_manager pm s)
   }"

definition rt_free_memory_bo :: "('s, 'e) Env \<Rightarrow> addr \<Rightarrow> ('s, 'e) Pim \<Rightarrow> (int \<times> ('s, 'e) Pim) option" where
  "rt_free_memory_bo E p s = do {
     bo \<leftarrow> pim_bos s p;
     (if \<not> use_user_ptr bo
      then do {
        pm \<leftarrow> the_manager s;
        (ret, bo, pm) \<leftarrow> pm_free_memory_bo (env_mem E) bo pm;
        Some (if ret \<noteq> 0 then -1 else ret, put_bo p bo (put_manager pm s))
      }
      else Some (0, s))
   }"

definition rt_copy_memory ::
    "('s, 'e) Env \<Rightarrow> addr \<Rightarrow> addr \<Rightarrow> nat \<Rightarrow> PimMemCpyType \<Rightarrow> ('s, 'e) Pim \<Rightarrow> (int \<times> ('s, 'e) Pim) option" where
  "rt_copy_memory E dst src sz k s = do {
     pm \<leftarrow> the_manager s;
     (ret, pm) \<leftarrow> pm_copy_memory (env_mem E) dst src sz k pm;
     Some (ret, put_manager pm s)
   }"

text \<open>A copy inside PIM memory is run by the executor; the layout tag is copied whatever the result.\<close>

definition rt_copy_memory_bo ::
    "('s, 'e) Env \<Rightarrow> addr \<Rightarrow> addr \<Rightarrow> PimMemCpyType \<Rightarrow> ('s, 'e) Pim \<Rightarrow> (int \<times> ('s, 'e) Pim) option" where
  "rt_copy_memory_bo E dst src k s = do {
     d \<leftarrow> pim_bos s dst;
     b \<leftarrow> pim_bos s src;
     (ret, s) \<leftarrow>
       (if k = PIM_TO_PIM then run_exec (ex_copy (env_exec E) d b 0 True) s
        else do {
          pm \<leftarrow> the_manager s;
          (ret, pm) \<leftarrow> pm_copy_memory_bo (env_mem E) d b k pm;
          Some (ret, put_manager pm s)
        });
     Some (ret, put_bo dst (d\<lparr>data_layout_type := data_layout_type b\<rparr>) s)
   }"

definition rt_copy_memory_3d :: "('s, 'e) Env \<Rightarrow> PimCopy3D \<Rightarrow> ('s, 'e) Pim \<Rightarrow> (int \<times> ('s, 'e) Pim) option" where
  "rt_copy_memory_3d E c s = do {
     pm \<leftarrow> the_manager s;
     (ret, pm) \<leftarrow> pm_copy_memory_3d (env_mem E) c pm;
     Some (ret, put_manager pm s)
   }"

definition rt_convert_data_layout ::
    "('s, 'e) Env \<Rightarrow> addr \<Rightarrow> addr \<Rightarrow> bool \<Rightarrow> ('s, 'e) Pim \<Rightarrow> (int \<times> ('s, 'e) Pim) option" where
  "rt_convert_data_layout E dst src on_device s = do {
     d \<leftarrow> pim_bos s dst;
     b \<leftarrow> pim_bos s src;
     pm \<leftarrow> the_manager s;
     (ret, d, pm) \<leftarrow> pm_convert_data_layout (env_mem E) d b on_device pm;
     Some (ret, put_bo dst d (put_manager pm s))
   }"

section \<open>Buffer objects\<close>

text \<open>
  \<open>new PimBo\<close> leaves the members unset: \<open>blank_bo\<close> gives them a value, each of which the callers below
  overwrite or leave unused (\<open>size_r\<close>).
\<close>

definition blank_bo :: PimBo where
  "blank_bo = \<lparr>mem_type = MEM_TYPE_HOST, data_layout_type = RAW, bshape = mk_shape 0 0 0 0, bshape_r = mk_shape 0 0 0 0,
     precision = PIM_FP16, bo_size = 0, bo_size_r = 0, bo_data = 0, use_user_ptr = False, transposed = False\<rparr>"

text \<open>
  The common tail of the three forms of \<open>PimCreateBo\<close>: on failure the new object is lost (it is not
  deleted) and null is returned.
\<close>

definition create_bo :: "('s, 'e) Env \<Rightarrow> PimBo \<Rightarrow> addr \<Rightarrow> ('s, 'e) Pim \<Rightarrow> (addr \<times> ('s, 'e) Pim) option" where
  "create_bo E bo user_ptr s =
    (let p = env_new E (live_objs s)
     in do {
       (ret, bo, s) \<leftarrow> rt_alloc_memory_bo E bo user_ptr s;
       Some (if ret \<noteq> 0 then 0 else p, put_bo p bo s)
     })"

text \<open>The size is a product of \<open>int\<close>s, which wraps around, converted to \<open>size_t\<close>.\<close>

definition bo_bytes :: "int \<Rightarrow> int \<Rightarrow> int \<Rightarrow> int \<Rightarrow> PimPrecision \<Rightarrow> nat" where
  "bo_bytes n c h w prec = nat (i32 (i32 (i32 (i32 (n * c) * h) * w) * (if prec = PIM_FP16 then 2 else 1)) mod 2 ^ 64)"

definition PimCreateBo ::
    "('s, 'e) Env \<Rightarrow> int \<Rightarrow> int \<Rightarrow> int \<Rightarrow> int \<Rightarrow> PimPrecision \<Rightarrow> PimMemType \<Rightarrow> addr \<Rightarrow> bool \<Rightarrow> ('s, 'e) Pim \<Rightarrow> (addr \<times> ('s, 'e) Pim) option" where
  "PimCreateBo E n c h w prec mt user_ptr tr s =
    (if pim_runtime s = None then Some (0, s)
     else let sh = mk_shape (of_int n) (of_int c) (of_int h) (of_int w)
          in create_bo E (blank_bo\<lparr>bo_size := bo_bytes n c h w prec, bshape := sh, bshape_r := sh, mem_type := mt,
                                   precision := prec, data_layout_type := RAW, transposed := tr\<rparr>) user_ptr s)"

text \<open>The object is deleted only when its memory could be released.\<close>

definition PimDestroyBo :: "('s, 'e) Env \<Rightarrow> addr \<Rightarrow> ('s, 'e) Pim \<Rightarrow> (int \<times> ('s, 'e) Pim) option" where
  "PimDestroyBo E p s =
    (if pim_runtime s = None then Some (-1, s)
     else do {
       (ret, s) \<leftarrow> rt_free_memory_bo E p s;
       Some (if ret \<noteq> 0 then (-1, s) else (ret, s\<lparr>pim_bos := (pim_bos s)(p := None)\<rparr>))
     })"

definition PimCopyMemory_bo ::
    "('s, 'e) Env \<Rightarrow> addr \<Rightarrow> addr \<Rightarrow> PimMemCpyType \<Rightarrow> ('s, 'e) Pim \<Rightarrow> (int \<times> ('s, 'e) Pim) option" where
  "PimCopyMemory_bo E dst src k s =
    (if pim_runtime s = None then Some (-1, s) else rt_copy_memory_bo E dst src k s)"

section \<open>The cache of converted weights\<close>

text \<open>
  The loop that computes the key of a weight of \<open>n\<close> words. The index is an \<open>int\<close> compared as a
  \<open>size_t\<close>; \<open>None\<close> is a loop that does not end, an overflow of the index or a read of unmapped memory.
\<close>

partial_function (option) key_loop :: "(int \<Rightarrow> u32 option) \<Rightarrow> nat \<Rightarrow> int \<Rightarrow> int \<Rightarrow> u32 \<Rightarrow> u32 option" where
  "key_loop rd n step i key =
    (if i mod 2 ^ 64 < int n
     then Option.bind (rd i) (\<lambda>v.
            if i32_range (i + step) then key_loop rd n step (i + step) (xor key v) else None)
     else Some key)"

definition weight_key :: "('s, 'e) Env \<Rightarrow> PimBo \<Rightarrow> 's \<Rightarrow> u32 option" where
  "weight_key E w mm =
     key_loop (\<lambda>i. env_read32 E mm (bo_data w + 4 * nat i)) (bo_size w div 4) (i32 (int (bo_size w div 2))) 0 0"

definition find_preloaded_pim_weight :: "('s, 'e) Env \<Rightarrow> PimBo \<Rightarrow> ('s, 'e) Pim \<Rightarrow> addr option" where
  "find_preloaded_pim_weight E w s = do {
     rt \<leftarrow> pim_runtime s;
     pm \<leftarrow> the_manager s;
     key \<leftarrow> weight_key E w (pim_memory_manager pm);
     Some (case map_of (weight_map rt) key of None \<Rightarrow> 0 | Some p \<Rightarrow> p)
   }"

text \<open>\<open>insert\<close> does not replace an entry.\<close>

definition insert_preloaded_pim_weight :: "('s, 'e) Env \<Rightarrow> PimBo \<Rightarrow> addr \<Rightarrow> ('s, 'e) Pim \<Rightarrow> (int \<times> ('s, 'e) Pim) option" where
  "insert_preloaded_pim_weight E dev_wei pim_wei s = do {
     rt \<leftarrow> pim_runtime s;
     pm \<leftarrow> the_manager s;
     key \<leftarrow> weight_key E dev_wei (pim_memory_manager pm);
     Some (0, if map_of (weight_map rt) key = None
              then s\<lparr>pim_runtime := Some (rt\<lparr>weight_map := weight_map rt @ [(key, pim_wei)]\<rparr>)\<rparr> else s)
   }"

definition check_need_for_transpose :: "PimGemmOrder \<Rightarrow> PimBo \<Rightarrow> bool" where
  "check_need_for_transpose order w \<longleftrightarrow> (if order = I_X_W then \<not> transposed w else transposed w)"

text \<open>\<open>transpose_pimbo\<close> on the data behind two objects.\<close>

definition rt_transpose :: "('s, 'e) Env \<Rightarrow> addr \<Rightarrow> addr \<Rightarrow> ('s, 'e) Pim \<Rightarrow> ('s, 'e) Pim option" where
  "rt_transpose E dst src s = do {
     d \<leftarrow> pim_bos s dst;
     b \<leftarrow> pim_bos s src;
     pm \<leftarrow> the_manager s;
     (let sh = bshape b; n = unat (sh_n sh) * unat (sh_c sh) * (unat (sh_h sh) * unat (sh_w sh)); mm = pim_memory_manager pm
      in do {
        out \<leftarrow> transpose_pimbo sh (env_load16 E mm (bo_data b) n) (env_load16 E mm (bo_data d) n);
        Some (put_manager (pm_put pm (env_store16 E mm (bo_data d) out)) s)
      })
   }"

definition rt_set_gemm_order :: "('s, 'e) Env \<Rightarrow> PimGemmOrder \<Rightarrow> ('s, 'e) Pim \<Rightarrow> ('s, 'e) Pim option" where
  "rt_set_gemm_order E order s = do {
     pm \<leftarrow> the_manager s;
     Some (put_manager (pm_set_gemm_order (env_mem E) order pm) s)
   }"

text \<open>\<open>PimCreateBo\<close> with the shape of another object, half precision and no user pointer.\<close>

definition create_like :: "('s, 'e) Env \<Rightarrow> PimBShape \<Rightarrow> PimMemType \<Rightarrow> ('s, 'e) Pim \<Rightarrow> (addr \<times> ('s, 'e) Pim) option" where
  "create_like E sh mt = PimCreateBo E (s32 (sh_n sh)) (s32 (sh_c sh)) (s32 (sh_h sh)) (s32 (sh_w sh)) PIM_FP16 mt 0 False"

definition convert_on_device :: "('s, 'e) Env \<Rightarrow> addr \<Rightarrow> PimBo \<Rightarrow> PimGemmOrder \<Rightarrow> ('s, 'e) Pim \<Rightarrow> (addr \<times> ('s, 'e) Pim) option" where
  "convert_on_device E dev_wei w order s = do {
     s \<leftarrow> rt_set_gemm_order E order s;
     (pre_wei, s) \<leftarrow> create_like E (bshape w) MEM_TYPE_PIM s;
     (ret, s) \<leftarrow> rt_convert_data_layout E pre_wei dev_wei True s;
     Some (pre_wei, s)
   }"

text \<open>The weight on the host, transposed on the way where the order asks for it.\<close>

definition gather_weight ::
    "('s, 'e) Env \<Rightarrow> PimBo \<Rightarrow> PimGemmOrder \<Rightarrow> addr \<Rightarrow> addr \<Rightarrow> ('s, 'e) Pim \<Rightarrow> ('s, 'e) Pim option" where
  "gather_weight E w order host_weight host_weight_t s =
    (if check_need_for_transpose order w
     then do {
       t \<leftarrow> pim_bos s host_weight_t;
       pm \<leftarrow> the_manager s;
       (ret, pm) \<leftarrow> pm_copy_memory_bo (env_mem E) t w DEVICE_TO_HOST pm;
       rt_transpose E host_weight host_weight_t (put_manager pm s)
     }
     else do {
       t \<leftarrow> pim_bos s host_weight;
       pm \<leftarrow> the_manager s;
       (ret, pm) \<leftarrow> pm_copy_memory_bo (env_mem E) t w DEVICE_TO_HOST pm;
       Some (put_manager pm s)
     })"

definition convert_on_host :: "('s, 'e) Env \<Rightarrow> addr \<Rightarrow> PimBo \<Rightarrow> PimGemmOrder \<Rightarrow> ('s, 'e) Pim \<Rightarrow> (addr \<times> ('s, 'e) Pim) option" where
  "convert_on_host E dev_wei w order s = do {
     (host_weight, s) \<leftarrow> create_like E (bshape w) MEM_TYPE_HOST s;
     (host_weight_t, s) \<leftarrow> create_like E (bshape w) MEM_TYPE_HOST s;
     (host_reordered_weight, s) \<leftarrow> create_like E (bshape w) MEM_TYPE_HOST s;
     (pre_wei, s) \<leftarrow> create_like E (bshape w) MEM_TYPE_PIM s;
     s \<leftarrow> gather_weight E w order host_weight host_weight_t s;
     s \<leftarrow> rt_set_gemm_order E order s;
     (ret, s) \<leftarrow> rt_convert_data_layout E host_reordered_weight host_weight False s;
     (ret, s) \<leftarrow> PimCopyMemory_bo E pre_wei host_reordered_weight HOST_TO_PIM s;
     (ret, s) \<leftarrow> PimDestroyBo E host_weight s;
     (ret, s) \<leftarrow> PimDestroyBo E host_weight_t s;
     (ret, s) \<leftarrow> PimDestroyBo E host_reordered_weight s;
     Some (pre_wei, s)
   }"

definition get_preloaded_pim_gemm_weight ::
    "('s, 'e) Env \<Rightarrow> addr \<Rightarrow> PimGemmOrder \<Rightarrow> bool \<Rightarrow> bool \<Rightarrow> ('s, 'e) Pim \<Rightarrow> (addr \<times> ('s, 'e) Pim) option" where
  "get_preloaded_pim_gemm_weight E dev_wei order reorder_on_device save_for_reuse s = do {
     w \<leftarrow> pim_bos s dev_wei;
     pre_wei \<leftarrow> find_preloaded_pim_weight E w s;
     (if pre_wei \<noteq> 0 then Some (pre_wei, s)
      else if \<not> reorder_on_device \<and> bo_data w = 0 then Some (0, s)
      else do {
        (pre_wei, s) \<leftarrow> (if reorder_on_device then convert_on_device E dev_wei w order s else convert_on_host E dev_wei w order s);
        (if save_for_reuse
         then do { (ret, s) \<leftarrow> insert_preloaded_pim_weight E w pre_wei s; Some (pre_wei, s) }
         else Some (pre_wei, s))
      })
   }"

text \<open>\<open>pre_weight\<close> is dereferenced without a check for null.\<close>

definition generate_gemm_weight_from_buffer ::
    "('s, 'e) Env \<Rightarrow> addr \<Rightarrow> PimGemmOrder \<Rightarrow> bool \<Rightarrow> bool \<Rightarrow> ('s, 'e) Pim \<Rightarrow> (addr \<times> ('s, 'e) Pim) option" where
  "generate_gemm_weight_from_buffer E src order reorder_on_device save_for_reuse s = do {
     b \<leftarrow> pim_bos s src;
     (if data_layout_type b = RAW \<and> is_pim_applicable b order
      then do {
        (pre_weight, s) \<leftarrow> get_preloaded_pim_gemm_weight E src order reorder_on_device save_for_reuse s;
        w \<leftarrow> pim_bos s pre_weight;
        (if mem_type w = MEM_TYPE_PIM then Some (pre_weight, s)
         else do {
           (buff, s) \<leftarrow> PimCreateBo E (s32 (sh_n (bshape w))) (s32 (sh_c (bshape w))) (s32 (sh_h (bshape w)))
                          (s32 (sh_w (bshape w))) (precision w) MEM_TYPE_PIM 0 False s;
           (ret, s) \<leftarrow> PimCopyMemory_bo E buff pre_weight (if mem_type w = MEM_TYPE_HOST then HOST_TO_PIM else DEVICE_TO_PIM) s;
           (if pre_weight \<noteq> src then do { (ret, s) \<leftarrow> PimDestroyBo E pre_weight s; Some (buff, s) } else Some (buff, s))
         })
      }
      else Some (0, s))
   }"

section \<open>Construction and destruction\<close>

definition PimRuntime_new ::
    "('s, 'e) Env \<Rightarrow> PimRuntimeType \<Rightarrow> PimPrecision \<Rightarrow> ('s, 'e) Pim \<Rightarrow> ('e Runtime \<times> ('s, 'e) Pim) option" where
  "PimRuntime_new E rt prec s = do {
     pm \<leftarrow> get_instance (env_factory E) rt prec (pm_instance s);
     (e, mm) \<leftarrow> ex_create (env_exec E) rt prec (pim_memory_manager pm);
     Some (\<lparr>rt_type = rt, rt_precision = prec, rt_executor = e, weight_map = []\<rparr>, put_manager (pm_put pm mm) s)
   }"

text \<open>\<open>initialize\<close> returns 0 whatever the manager and the executor return.\<close>

definition rt_initialize :: "('s, 'e) Env \<Rightarrow> ('s, 'e) Pim \<Rightarrow> (int \<times> ('s, 'e) Pim) option" where
  "rt_initialize E s = do {
     pm \<leftarrow> the_manager s;
     (ret, s) \<leftarrow> run_exec (ex_initialize (env_exec E)) (put_manager (snd (pm_initialize (env_mem E) pm)) s);
     Some (0, s)
   }"

text \<open>The converted weights are released and deleted, whether the release succeeds or not.\<close>

fun free_weights :: "('s, 'e) Env \<Rightarrow> (u32 \<times> addr) list \<Rightarrow> ('s, 'e) Pim \<Rightarrow> ('s, 'e) Pim option" where
  "free_weights E [] s = Some s"
| "free_weights E ((key, p) # ws) s = do {
     (ret, s) \<leftarrow> rt_free_memory_bo E p s;
     free_weights E ws (s\<lparr>pim_bos := (pim_bos s)(p := None)\<rparr>)
   }"

definition rt_deinitialize :: "('s, 'e) Env \<Rightarrow> ('s, 'e) Pim \<Rightarrow> (int \<times> ('s, 'e) Pim) option" where
  "rt_deinitialize E s = do {
     rt \<leftarrow> pim_runtime s;
     s \<leftarrow> free_weights E (weight_map rt) s;
     pm \<leftarrow> the_manager s;
     (ret, s) \<leftarrow> run_exec (ex_deinitialize (env_exec E)) (put_manager (snd (pm_deinitialize (env_mem E) pm)) s);
     Some (0, s)
   }"

section \<open>Operations\<close>

definition rt_set_device :: "('s, 'e) Env \<Rightarrow> u32 \<Rightarrow> ('s, 'e) Pim \<Rightarrow> (int \<times> ('s, 'e) Pim) option" where
  "rt_set_device E d = run_exec (ex_set_device (env_exec E) d)"

definition rt_get_device :: "('s, 'e) Env \<Rightarrow> ('s, 'e) Pim \<Rightarrow> (int \<times> u32) option" where
  "rt_get_device E s = do {
     rt \<leftarrow> pim_runtime s;
     pm \<leftarrow> the_manager s;
     Some (ex_get_device (env_exec E) (rt_executor rt, pim_memory_manager pm))
   }"

definition rt_create_stream :: "('s, 'e) Env \<Rightarrow> PimRuntimeType \<Rightarrow> ('s, 'e) Pim \<Rightarrow> (addr \<times> ('s, 'e) Pim) option" where
  "rt_create_stream E rt s = (if rt = RT_TYPE_HIP then run_exec (ex_create_stream (env_exec E)) s else Some (0, s))"

definition rt_execute_add :: "('s, 'e) Env \<Rightarrow> addr \<Rightarrow> addr \<Rightarrow> addr \<Rightarrow> addr \<Rightarrow> bool \<Rightarrow> ('s, 'e) Pim \<Rightarrow> (int \<times> ('s, 'e) Pim) option" where
  "rt_execute_add E out op0 op1 stream block s = do {
     bo \<leftarrow> pim_bos s out; b0 \<leftarrow> pim_bos s op0; b1 \<leftarrow> pim_bos s op1;
     run_exec (ex_add (env_exec E) bo b0 b1 stream block) s
   }"

definition rt_execute_mul :: "('s, 'e) Env \<Rightarrow> addr \<Rightarrow> addr \<Rightarrow> addr \<Rightarrow> addr \<Rightarrow> bool \<Rightarrow> ('s, 'e) Pim \<Rightarrow> (int \<times> ('s, 'e) Pim) option" where
  "rt_execute_mul E out op0 op1 stream block s = do {
     bo \<leftarrow> pim_bos s out; b0 \<leftarrow> pim_bos s op0; b1 \<leftarrow> pim_bos s op1;
     run_exec (ex_mul (env_exec E) bo b0 b1 stream block) s
   }"

definition rt_execute_relu :: "('s, 'e) Env \<Rightarrow> addr \<Rightarrow> addr \<Rightarrow> addr \<Rightarrow> bool \<Rightarrow> ('s, 'e) Pim \<Rightarrow> (int \<times> ('s, 'e) Pim) option" where
  "rt_execute_relu E out inp stream block s = do {
     bo \<leftarrow> pim_bos s out; b0 \<leftarrow> pim_bos s inp;
     run_exec (ex_relu (env_exec E) bo b0 stream block) s
   }"

definition rt_execute_bn ::
    "('s, 'e) Env \<Rightarrow> addr \<Rightarrow> addr \<Rightarrow> addr \<Rightarrow> addr \<Rightarrow> addr \<Rightarrow> addr \<Rightarrow> u64 \<Rightarrow> addr \<Rightarrow> bool \<Rightarrow> ('s, 'e) Pim \<Rightarrow> (int \<times> ('s, 'e) Pim) option" where
  "rt_execute_bn E out inp beta gamma mean variance epsilon stream block s = do {
     bo \<leftarrow> pim_bos s out; b0 \<leftarrow> pim_bos s inp; b1 \<leftarrow> pim_bos s beta; b2 \<leftarrow> pim_bos s gamma;
     b3 \<leftarrow> pim_bos s mean; b4 \<leftarrow> pim_bos s variance;
     run_exec (ex_bn (env_exec E) bo b0 b1 b2 b3 b4 epsilon stream block) s
   }"

text \<open>\<open>gemm\<close> is the executor's \<open>execute_gemm\<close>, on the whole state; the bias may be null (0).\<close>

type_synonym ('s, 'e) gemm_op =
  "addr \<Rightarrow> addr \<Rightarrow> addr \<Rightarrow> addr \<Rightarrow> PimActFunc \<Rightarrow> addr \<Rightarrow> bool \<Rightarrow> ('s, 'e) Pim \<Rightarrow> (int \<times> ('s, 'e) Pim) option"

definition rt_execute_gemm ::
    "('s, 'e) Env \<Rightarrow> ('s, 'e) gemm_op \<Rightarrow> addr \<Rightarrow> addr \<Rightarrow> addr \<Rightarrow> addr \<Rightarrow> PimActFunc \<Rightarrow> PimGemmOrder \<Rightarrow> addr \<Rightarrow> bool
     \<Rightarrow> ('s, 'e) Pim \<Rightarrow> (int \<times> ('s, 'e) Pim) option" where
  "rt_execute_gemm E gemm out inp wei bias act order stream block s = do {
     rt \<leftarrow> pim_runtime s;
     gemm out inp wei bias act stream block
       (s\<lparr>pim_runtime := Some (rt\<lparr>rt_executor := ex_set_gemm_order (env_exec E) order (rt_executor rt)\<rparr>)\<rparr>)
   }"

definition rt_execute_sync :: "('s, 'e) Env \<Rightarrow> addr \<Rightarrow> ('s, 'e) Pim \<Rightarrow> (int \<times> ('s, 'e) Pim) option" where
  "rt_execute_sync E stream = run_exec (ex_sync (env_exec E) stream)"

definition rt_execute_dummy :: "('s, 'e) Env \<Rightarrow> ('s, 'e) Pim \<Rightarrow> (int \<times> ('s, 'e) Pim) option" where
  "rt_execute_dummy E = run_exec (ex_dummy (env_exec E))"

end
