(* ===== verification/RuntimeApi.thy ===== *)
theory RuntimeApi
  imports RuntimeCore
begin

text \<open>
  The C API, \<open>runtime/source/pim_runtime_api.cpp\<close>: the remaining entry points, the calls as a step
  relation on the state of the library, and its invariants. Buffer objects, descriptors and streams are
  passed by pointer.
\<close>

section \<open>Initialisation\<close>

definition PimInitialize :: "('s, 'e) Env \<Rightarrow> PimRuntimeType \<Rightarrow> PimPrecision \<Rightarrow> ('s, 'e) Pim \<Rightarrow> (int \<times> ('s, 'e) Pim) option" where
  "PimInitialize E rt prec s =
    (let s = s\<lparr>log_initialized := True\<rparr>
     in if \<not> pim_initialized s
        then do {
          (r, s) \<leftarrow> PimRuntime_new E rt prec s;
          (ret, s) \<leftarrow> rt_initialize E (s\<lparr>pim_runtime := Some r\<rparr>);
          Some (ret, s\<lparr>pim_initialized := True\<rparr>)
        }
        else Some (0, s))"

definition PimDeinitialize :: "('s, 'e) Env \<Rightarrow> ('s, 'e) Pim \<Rightarrow> (int \<times> ('s, 'e) Pim) option" where
  "PimDeinitialize E s =
    (if pim_initialized s
     then do {
       (ret, s) \<leftarrow> rt_deinitialize E s;
       Some (ret, s\<lparr>pim_runtime := None, pim_initialized := False\<rparr>)
     }
     else Some (0, s))"

text \<open>Most calls return -1 when there is no runtime.\<close>

definition with_runtime :: "(('s, 'e) Pim \<Rightarrow> (int \<times> ('s, 'e) Pim) option) \<Rightarrow> ('s, 'e) Pim \<Rightarrow> (int \<times> ('s, 'e) Pim) option" where
  "with_runtime f s = (if pim_runtime s = None then Some (-1, s) else f s)"

definition PimSetDevice :: "('s, 'e) Env \<Rightarrow> u32 \<Rightarrow> ('s, 'e) Pim \<Rightarrow> (int \<times> ('s, 'e) Pim) option" where
  "PimSetDevice E d = with_runtime (rt_set_device E d)"

text \<open>\<open>*device_id\<close> is passed in and returned.\<close>

definition PimGetDevice :: "('s, 'e) Env \<Rightarrow> u32 \<Rightarrow> ('s, 'e) Pim \<Rightarrow> (int \<times> u32) option" where
  "PimGetDevice E d s = (if pim_runtime s = None then Some (-1, d) else rt_get_device E s)"

section \<open>Descriptors\<close>

definition put_desc :: "addr \<Rightarrow> PimDesc \<Rightarrow> ('s, 'e) Pim \<Rightarrow> ('s, 'e) Pim" where
  "put_desc p d s = s\<lparr>pim_descs := (pim_descs s)(p \<mapsto> d)\<rparr>"

definition PimCreateGemmDesc ::
    "('s, 'e) Env \<Rightarrow> int \<Rightarrow> int \<Rightarrow> int \<Rightarrow> int \<Rightarrow> int \<Rightarrow> int \<Rightarrow> PimPrecision \<Rightarrow> PimGemmOrder \<Rightarrow> ('s, 'e) Pim \<Rightarrow> (addr \<times> ('s, 'e) Pim) option" where
  "PimCreateGemmDesc E n c in_h in_w out_h out_w prec order s =
    (if pim_runtime s = None then Some (0, s)
     else let p = env_new E (live_objs s); n = of_int n; c = of_int c;
              i = mk_shape n c (of_int in_h) (of_int in_w);
              wei = (if order = W_X_I then mk_shape n c (of_int out_h) (of_int in_h) else mk_shape n c (of_int in_w) (of_int out_w));
              out = mk_shape n c (of_int out_h) (of_int out_w);
              blank = mk_shape 0 0 0 0
          in do {
            d \<leftarrow> align_gemm_shape \<lparr>in_bshape = blank, in_bshape_r = i, wei_bshape = blank, wei_bshape_r = wei,
                   bias_bshape = blank, bias_bshape_r = out, out_bshape = blank, out_bshape_r = out,
                   gd_precision = prec, gemm_order = order\<rparr>;
            Some (p, s\<lparr>pim_gemm_descs := (pim_gemm_descs s)(p \<mapsto> d)\<rparr>)
          })"

definition PimDestroyGemmDesc :: "addr \<Rightarrow> ('s, 'e) Pim \<Rightarrow> (int \<times> ('s, 'e) Pim) option" where
  "PimDestroyGemmDesc p s =
    (if p = 0 then Some (-1, s)
     else if pim_gemm_descs s p = None then None
     else Some (0, s\<lparr>pim_gemm_descs := (pim_gemm_descs s)(p := None)\<rparr>))"

definition PimCreateDesc ::
    "('s, 'e) Env \<Rightarrow> int \<Rightarrow> int \<Rightarrow> int \<Rightarrow> int \<Rightarrow> PimPrecision \<Rightarrow> PimOpType \<Rightarrow> ('s, 'e) Pim \<Rightarrow> (addr \<times> ('s, 'e) Pim) option" where
  "PimCreateDesc E n c h w prec op s =
    (if pim_runtime s = None then Some (0, s)
     else let p = env_new E (live_objs s)
          in do {
            d \<leftarrow> align_shape \<lparr>pd_bshape = mk_shape 0 0 0 0, pd_bshape_r = mk_shape (of_int n) (of_int c) (of_int h) (of_int w),
                   pd_precision = prec, pd_op_type = op\<rparr> op;
            Some (p, put_desc p d s)
          })"

text \<open>\<open>delete\<close> of a null pointer does nothing.\<close>

definition PimDestroyDesc :: "addr \<Rightarrow> ('s, 'e) Pim \<Rightarrow> (int \<times> ('s, 'e) Pim) option" where
  "PimDestroyDesc p = with_runtime (\<lambda>s.
     if p = 0 then Some (0, s)
     else if pim_descs s p = None then None
     else Some (0, s\<lparr>pim_descs := (pim_descs s)(p := None)\<rparr>))"

definition PimCreateBo_desc ::
    "('s, 'e) Env \<Rightarrow> addr \<Rightarrow> PimMemType \<Rightarrow> PimMemFlag \<Rightarrow> addr \<Rightarrow> bool \<Rightarrow> ('s, 'e) Pim \<Rightarrow> (addr \<times> ('s, 'e) Pim) option" where
  "PimCreateBo_desc E desc mt flag user_ptr tr s =
    (if pim_runtime s = None then Some (0, s)
     else do {
       d \<leftarrow> pim_descs s desc;
       (case get_aligned_size d flag blank_bo of
          (sz, bo) \<Rightarrow>
            create_bo E (bo\<lparr>bo_size := unat (sz * (if pd_precision d = PIM_FP16 then 2 else 1)), mem_type := mt,
                            precision := pd_precision d, data_layout_type := RAW, transposed := tr\<rparr>) user_ptr s)
     })"

definition PimCreateBo_gemm ::
    "('s, 'e) Env \<Rightarrow> addr \<Rightarrow> PimMemType \<Rightarrow> PimMemFlag \<Rightarrow> addr \<Rightarrow> bool \<Rightarrow> ('s, 'e) Pim \<Rightarrow> (addr \<times> ('s, 'e) Pim) option" where
  "PimCreateBo_gemm E desc mt flag user_ptr tr s =
    (if pim_runtime s = None then Some (0, s)
     else do {
       d \<leftarrow> pim_gemm_descs s desc;
       create_bo E (set_pimbo d mt flag tr blank_bo) user_ptr s
     })"

section \<open>Memory\<close>

definition PimAllocMemory ::
    "('s, 'e) Env \<Rightarrow> addr \<Rightarrow> nat \<Rightarrow> PimMemType \<Rightarrow> ('s, 'e) Pim \<Rightarrow> (int \<times> addr \<times> ('s, 'e) Pim) option" where
  "PimAllocMemory E ptr sz mt s = (if pim_runtime s = None then Some (-1, ptr, s) else rt_alloc_memory E ptr sz mt s)"

text \<open>This form reports an exhausted memory.\<close>

definition PimAllocMemory_bo :: "('s, 'e) Env \<Rightarrow> addr \<Rightarrow> ('s, 'e) Pim \<Rightarrow> (int \<times> ('s, 'e) Pim) option" where
  "PimAllocMemory_bo E p = with_runtime (\<lambda>s. do {
     bo \<leftarrow> pim_bos s p;
     (ret, bo, s) \<leftarrow> rt_alloc_memory_bo E bo 0 s;
     Some (if bo_data bo = 0 then -1 else ret, put_bo p bo s)
   })"

definition PimFreeMemory :: "('s, 'e) Env \<Rightarrow> addr \<Rightarrow> PimMemType \<Rightarrow> ('s, 'e) Pim \<Rightarrow> (int \<times> ('s, 'e) Pim) option" where
  "PimFreeMemory E ptr mt = with_runtime (rt_free_memory E ptr mt)"

definition PimFreeMemory_bo :: "('s, 'e) Env \<Rightarrow> addr \<Rightarrow> ('s, 'e) Pim \<Rightarrow> (int \<times> ('s, 'e) Pim) option" where
  "PimFreeMemory_bo E p = with_runtime (rt_free_memory_bo E p)"

definition PimCopyMemory ::
    "('s, 'e) Env \<Rightarrow> addr \<Rightarrow> addr \<Rightarrow> nat \<Rightarrow> PimMemCpyType \<Rightarrow> ('s, 'e) Pim \<Rightarrow> (int \<times> ('s, 'e) Pim) option" where
  "PimCopyMemory E dst src sz k = with_runtime (rt_copy_memory E dst src sz k)"

definition PimCopyMemoryRect :: "('s, 'e) Env \<Rightarrow> PimCopy3D \<Rightarrow> ('s, 'e) Pim \<Rightarrow> (int \<times> ('s, 'e) Pim) option" where
  "PimCopyMemoryRect E c = with_runtime (rt_copy_memory_3d E c)"

section \<open>Operations\<close>

definition PimCreateStream :: "('s, 'e) Env \<Rightarrow> PimRuntimeType \<Rightarrow> ('s, 'e) Pim \<Rightarrow> (addr \<times> ('s, 'e) Pim) option" where
  "PimCreateStream E rt s = (if pim_runtime s = None then Some (0, s) else rt_create_stream E rt s)"

definition PimExecuteAdd :: "('s, 'e) Env \<Rightarrow> addr \<Rightarrow> addr \<Rightarrow> addr \<Rightarrow> addr \<Rightarrow> bool \<Rightarrow> ('s, 'e) Pim \<Rightarrow> (int \<times> ('s, 'e) Pim) option" where
  "PimExecuteAdd E out op0 op1 stream block = with_runtime (rt_execute_add E out op0 op1 stream block)"

definition PimExecuteMul :: "('s, 'e) Env \<Rightarrow> addr \<Rightarrow> addr \<Rightarrow> addr \<Rightarrow> addr \<Rightarrow> bool \<Rightarrow> ('s, 'e) Pim \<Rightarrow> (int \<times> ('s, 'e) Pim) option" where
  "PimExecuteMul E out op0 op1 stream block = with_runtime (rt_execute_mul E out op0 op1 stream block)"

text \<open>The scalar forms fill a temporary vector element by element; the results of the copies are ignored.\<close>

fun fill_scalar :: "('s, 'e) Env \<Rightarrow> addr \<Rightarrow> addr \<Rightarrow> nat list \<Rightarrow> ('s, 'e) Pim \<Rightarrow> ('s, 'e) Pim option" where
  "fill_scalar E dst scalar [] s = Some s"
| "fill_scalar E dst scalar (i # is) s = do {
     (ret, s) \<leftarrow> rt_copy_memory E (dst + 2 * i) scalar 2 HOST_TO_PIM s;
     fill_scalar E dst scalar is s
   }"

definition scalar_op ::
    "(addr \<Rightarrow> ('s, 'e) Pim \<Rightarrow> (int \<times> ('s, 'e) Pim) option) \<Rightarrow> ('s, 'e) Env \<Rightarrow> addr \<Rightarrow> addr \<Rightarrow> ('s, 'e) Pim \<Rightarrow> (int \<times> ('s, 'e) Pim) option" where
  "scalar_op execute E scalar vector s = do {
     v \<leftarrow> pim_bos s vector;
     (let num_vector = i32 (int (bo_size v div 2))
      in do {
        (padded_scalar, s) \<leftarrow> PimCreateBo E 1 1 1 num_vector PIM_FP16 MEM_TYPE_PIM 0 False s;
        pb \<leftarrow> pim_bos s padded_scalar;
        s \<leftarrow> fill_scalar E (bo_data pb) scalar [0..<nat num_vector] s;
        (ret, s) \<leftarrow> execute padded_scalar s;
        (_, s) \<leftarrow> PimDestroyBo E padded_scalar s;
        Some (ret, s)
      })
   }"

definition PimExecuteAdd_scalar :: "('s, 'e) Env \<Rightarrow> addr \<Rightarrow> addr \<Rightarrow> addr \<Rightarrow> addr \<Rightarrow> bool \<Rightarrow> ('s, 'e) Pim \<Rightarrow> (int \<times> ('s, 'e) Pim) option" where
  "PimExecuteAdd_scalar E out scalar vector stream block =
     with_runtime (scalar_op (\<lambda>padded. rt_execute_add E out vector padded stream block) E scalar vector)"

definition PimExecuteMul_scalar :: "('s, 'e) Env \<Rightarrow> addr \<Rightarrow> addr \<Rightarrow> addr \<Rightarrow> addr \<Rightarrow> bool \<Rightarrow> ('s, 'e) Pim \<Rightarrow> (int \<times> ('s, 'e) Pim) option" where
  "PimExecuteMul_scalar E out scalar vector stream block =
     with_runtime (scalar_op (\<lambda>padded. rt_execute_mul E out vector padded stream block) E scalar vector)"

definition PimExecuteGemm ::
    "('s, 'e) Env \<Rightarrow> ('s, 'e) gemm_op \<Rightarrow> addr \<Rightarrow> addr \<Rightarrow> addr \<Rightarrow> addr \<Rightarrow> PimActFunc \<Rightarrow> PimGemmOrder \<Rightarrow> addr \<Rightarrow> bool
     \<Rightarrow> ('s, 'e) Pim \<Rightarrow> (int \<times> ('s, 'e) Pim) option" where
  "PimExecuteGemm E gemm out inp wei bias act order stream block =
     with_runtime (rt_execute_gemm E gemm out inp wei bias act order stream block)"

definition PimExecuteRelu :: "('s, 'e) Env \<Rightarrow> addr \<Rightarrow> addr \<Rightarrow> addr \<Rightarrow> bool \<Rightarrow> ('s, 'e) Pim \<Rightarrow> (int \<times> ('s, 'e) Pim) option" where
  "PimExecuteRelu E out inp stream block = with_runtime (rt_execute_relu E out inp stream block)"

definition PimExecuteBN ::
    "('s, 'e) Env \<Rightarrow> addr \<Rightarrow> addr \<Rightarrow> addr \<Rightarrow> addr \<Rightarrow> addr \<Rightarrow> addr \<Rightarrow> u64 \<Rightarrow> addr \<Rightarrow> bool \<Rightarrow> ('s, 'e) Pim \<Rightarrow> (int \<times> ('s, 'e) Pim) option" where
  "PimExecuteBN E out inp beta gamma mean variance epsilon stream block =
     with_runtime (rt_execute_bn E out inp beta gamma mean variance epsilon stream block)"

definition PimSynchronize :: "('s, 'e) Env \<Rightarrow> addr \<Rightarrow> ('s, 'e) Pim \<Rightarrow> (int \<times> ('s, 'e) Pim) option" where
  "PimSynchronize E stream = with_runtime (rt_execute_sync E stream)"

definition PimExecuteDummy :: "('s, 'e) Env \<Rightarrow> ('s, 'e) Pim \<Rightarrow> (int \<times> ('s, 'e) Pim) option" where
  "PimExecuteDummy E = with_runtime (rt_execute_dummy E)"

definition PimConvertGemmWeight ::
    "('s, 'e) Env \<Rightarrow> addr \<Rightarrow> PimGemmOrder \<Rightarrow> bool \<Rightarrow> bool \<Rightarrow> ('s, 'e) Pim \<Rightarrow> (addr \<times> ('s, 'e) Pim) option" where
  "PimConvertGemmWeight E src order reorder_on_device save_for_reuse s =
    (if pim_runtime s = None then Some (0, s)
     else generate_gemm_weight_from_buffer E src order reorder_on_device save_for_reuse s)"

end
