(* ===== verification/DemoWorld.thy ===== *)
theory DemoWorld
  imports HipLayout RuntimeApi
begin

text \<open>
  A concrete environment for the instances of the properties: HIP over a memory of bytes, OpenCL over a
  list of live objects, an executor that does nothing. It shows that the laws the properties assume
  of the surrounding code can hold together.
\<close>

definition fresh_addr :: "addr set \<Rightarrow> addr" where
  "fresh_addr S = Suc (Max (insert 0 S))"

definition new_ok :: "(addr set \<Rightarrow> addr) \<Rightarrow> bool" where
  "new_ok f \<longleftrightarrow> (\<forall>S. finite S \<longrightarrow> f S \<noteq> 0 \<and> f S \<notin> S)"

lemma fresh_addr_ok: "new_ok fresh_addr"
proof -
  have "Suc (Max (insert 0 S)) \<notin> S" if "finite S" for S :: "nat set"
  proof
    assume "Suc (Max (insert 0 S)) \<in> S"
    then have "Suc (Max (insert 0 S)) \<le> Max (insert 0 S)" using that by (intro Max_ge) auto
    then show False by simp
  qed
  then show ?thesis by (simp add: new_ok_def fresh_addr_def)
qed

definition list_ocl :: "addr list OclApi" where
  "list_ocl = \<lparr>cl_CreateBuffer = (\<lambda>n w. (Some 64, w)),
     cl_CreateSubBuffer = (\<lambda>base origin n w.
       (if base \<noteq> 0 \<and> unat origin + n \<le> ocl_block_size then Some (base + unat origin) else None, w)),
     cl_ReleaseMemObject = (\<lambda>_ w. w), cl_EnqueueWriteBuffer = (\<lambda>p _ _ w. (p \<noteq> 0, w)),
     cl_EnqueueReadBuffer = (\<lambda>p _ _ w. (p \<noteq> 0, w)), cl_EnqueueCopyBuffer = (\<lambda>_ _ _ w. (True, w)),
     cl_Finish = (\<lambda>w. (True, w)), cl_GetDeviceCount = (\<lambda>_. 1), c_malloc = (\<lambda>_ w. (128, w)), c_calloc = (\<lambda>_ w. (128, w)),
     c_free = (\<lambda>p w. removeAll p w), c_memcpy = (\<lambda>_ _ _ w. w),
     ocl_new = (\<lambda>w. (fresh_addr (set w), fresh_addr (set w) # w))\<rparr>"

lemma list_ocl_laws: "ocl_laws list_ocl set"
  using fresh_addr_ok by (auto simp: ocl_laws_def list_ocl_def new_ok_def split: if_splits)

type_synonym demo_state = "(addr \<Rightarrow> 8 word) mgr + addr list ocl_mgr"

definition demo_hip :: "(addr \<Rightarrow> 8 word) mgr" where
  "demo_hip = (\<lparr>fragment_allocator = [heap_init hip_demo], num_gpu_devices = 1, mm_host_id = 0, mm_gemm_order = I_X_W\<rparr>, of_nat)"

definition demo_ocl :: "addr list ocl_mgr" where
  "demo_ocl = (OclMemoryManager_new list_ocl ocl_demo I_X_W [], [])"

definition demo_bytes :: "demo_state \<Rightarrow> addr \<Rightarrow> 8 word" where
  "demo_bytes s = (case s of Inl h \<Rightarrow> snd h | Inr _ \<Rightarrow> (\<lambda>_. 0))"

definition demo_exec :: "(demo_state, unit) ExecOps" where
  "demo_exec = \<lparr>ex_create = (\<lambda>_ _ s. Some ((), s)), ex_initialize = (\<lambda>s. Some (0, s)), ex_deinitialize = (\<lambda>s. Some (0, s)),
     ex_set_device = (\<lambda>_ s. Some (0, s)), ex_get_device = (\<lambda>_. (0, 0)), ex_create_stream = (\<lambda>s. Some (0, s)),
     ex_add = (\<lambda>_ _ _ _ _ s. Some (0, s)), ex_mul = (\<lambda>_ _ _ _ _ s. Some (0, s)), ex_relu = (\<lambda>_ _ _ _ s. Some (0, s)),
     ex_copy = (\<lambda>_ _ _ _ s. Some (0, s)), ex_bn = (\<lambda>_ _ _ _ _ _ _ _ _ s. Some (0, s)), ex_sync = (\<lambda>_ s. Some (0, s)),
     ex_dummy = (\<lambda>s. Some (0, s)), ex_set_gemm_order = (\<lambda>_ e. e)\<rparr>"

definition demo_env :: "(demo_state, unit) Env" where
  "demo_env = \<lparr>env_mem = dispatch (HipManager (byte_api 1) EMULATOR) (OclManager list_ocl True),
     env_factory = getPimMemoryManager True (Some demo_hip) (Some demo_ocl), env_exec = demo_exec, env_new = fresh_addr,
     env_read32 = (\<lambda>s a. Some (ucast (demo_bytes s a) + 256 * ucast (demo_bytes s (a + 1))
       + 65536 * ucast (demo_bytes s (a + 2)) + 16777216 * ucast (demo_bytes s (a + 3)))),
     env_load16 = (\<lambda>s a n. map (\<lambda>i. ucast (demo_bytes s (a + 2 * i)) + 256 * ucast (demo_bytes s (a + 2 * i + 1))) [0..<n]),
     env_store16 = (\<lambda>s a xs. s)\<rparr>"

definition demo_gemm :: "(demo_state, unit) gemm_op" where
  "demo_gemm out inp wei bias act stream block s = Some (0, s)"

definition pim_start :: "('s, 'e) Pim" where
  "pim_start = \<lparr>log_initialized = False, pim_initialized = False, pim_runtime = None, pm_instance = None,
     pim_bos = (\<lambda>_. None), pim_descs = (\<lambda>_. None), pim_gemm_descs = (\<lambda>_. None)\<rparr>"

text \<open>The state after initialisation with the HIP backend.\<close>

definition demo_runtime :: "unit Runtime" where
  "demo_runtime = \<lparr>rt_type = RT_TYPE_HIP, rt_precision = PIM_FP16, rt_executor = (), weight_map = []\<rparr>"

definition demo_pm :: "demo_state PimManager" where
  "demo_pm = \<lparr>pm_rt_type = RT_TYPE_HIP, pm_precision = PIM_FP16, pim_memory_manager = Inl demo_hip\<rparr>"

definition demo_pim :: "(demo_state, unit) Pim" where
  "demo_pim = pim_start\<lparr>log_initialized := True, pim_initialized := True, pim_runtime := Some demo_runtime, pm_instance := Some demo_pm\<rparr>"

lemma demo_initialize: "PimInitialize demo_env RT_TYPE_HIP PIM_FP16 pim_start = Some (0, demo_pim)"
  by (simp add: PimInitialize_def pim_start_def PimRuntime_new_def get_instance_def PimManager_new_def demo_env_def
      getPimMemoryManager_def demo_exec_def put_manager_def pm_put_def rt_initialize_def the_manager_def run_exec_def
      pm_initialize_def dispatch_def HipManager_def demo_pim_def demo_runtime_def demo_pm_def Let_def)

lemma demo_hip_inv: "hip_mgr_inv (byte_api 1) EMULATOR 0 demo_hip"
  using hip.heap_init_inv [OF hip_demo_inv]
  by (simp add: hip_mgr_inv_def byte_api_def demo_hip_def in_table_def MAX_NUM_GPUS_def arr_get_def) (simp add: hip_demo_def)

end
