(* ===== verification/BufferSession.thy ===== *)
theory BufferSession
  imports DemoWorld
begin

text \<open>
  Buffer objects in PIM memory over any memory manager that keeps the contract: creation and
  destruction through the C API, and sessions of such calls. The lemmas are proved once in the locale
  of the contract; the properties rest on its interpretation for the dispatch between the HIP and the
  OpenCL manager.
\<close>

definition owned :: "PimBo \<Rightarrow> bool" where
  "owned bo \<longleftrightarrow> mem_type bo = MEM_TYPE_PIM \<and> \<not> use_user_ptr bo \<and> bo_data bo \<noteq> 0"

text \<open>Every object that owns PIM memory holds a region of at least its size, and no two share one.\<close>

definition bos_ok :: "(addr \<rightharpoonup> addr \<times> nat) \<Rightarrow> (addr \<rightharpoonup> PimBo) \<Rightarrow> bool" where
  "bos_ok H bos \<longleftrightarrow>
     (\<forall>p b. bos p = Some b \<longrightarrow> owned b \<longrightarrow> (\<exists>a m. H (bo_data b) = Some (a, m) \<and> bo_size b \<le> m))
     \<and> (\<forall>p q b c. bos p = Some b \<longrightarrow> bos q = Some c \<longrightarrow> owned b \<longrightarrow> owned c \<longrightarrow> bo_data b = bo_data c \<longrightarrow> p = q)"

definition held_in :: "('s \<Rightarrow> addr \<rightharpoonup> addr \<times> nat) \<Rightarrow> ('s, 'e) Pim \<Rightarrow> addr \<rightharpoonup> addr \<times> nat" where
  "held_in held s = (case pm_instance s of None \<Rightarrow> (\<lambda>_. None) | Some pm \<Rightarrow> held (pim_memory_manager pm))"

definition buffers_inv :: "('s \<Rightarrow> bool) \<Rightarrow> ('s \<Rightarrow> addr \<rightharpoonup> addr \<times> nat) \<Rightarrow> ('s, 'e) Pim \<Rightarrow> bool" where
  "buffers_inv minv held s \<longleftrightarrow> pim_runtime s \<noteq> None \<and> finite (live_objs s)
     \<and> (\<exists>pm. pm_instance s = Some pm \<and> minv (pim_memory_manager pm)) \<and> bos_ok (held_in held s) (pim_bos s)"

lemma bos_ok_create:
  assumes "bos_ok H bos" "bos p = None" "alloc_outcome n H x H'" "bo_size b = n" "bo_data b = x"
  shows "bos_ok H' (bos(p \<mapsto> b))"
proof (cases "x = 0")
  case True
  then have "H' = H" "\<not> owned b" using assms by (simp_all add: alloc_outcome_def owned_def)
  then show ?thesis using assms(1,2) by (auto simp: bos_ok_def)
next
  case False
  then obtain a m where H: "H x = None" "n \<le> m" "H' = H(x \<mapsto> (a, m))" using assms(3) by (auto simp: alloc_outcome_def)
  have ne: "bo_data c \<noteq> x" if "bos q = Some c" "owned c" for q c
    using assms(1) that H(1) unfolding bos_ok_def by fastforce
  show ?thesis
    unfolding bos_ok_def
  proof (intro conjI allI impI)
    fix q c assume "(bos(p \<mapsto> b)) q = Some c" "owned c"
    then show "\<exists>a m. H' (bo_data c) = Some (a, m) \<and> bo_size c \<le> m"
      using assms(1,4,5) H ne by (cases "q = p") (auto simp: bos_ok_def)
  next
    fix q r c d assume "(bos(p \<mapsto> b)) q = Some c" "(bos(p \<mapsto> b)) r = Some d" "owned c" "owned d" "bo_data c = bo_data d"
    then show "q = r"
      using assms(1,5) ne unfolding bos_ok_def by (auto split: if_splits)
  qed
qed

lemma bos_ok_destroy:
  assumes "bos_ok H bos" "bos p = Some b" "owned b"
  shows "bos_ok (H(bo_data b := None)) (bos(p := None))"
  using assms unfolding bos_ok_def by (auto split: if_splits)

lemma create_bo_eq:
  assumes "pm_instance s = Some pm"
  shows "create_bo E bo 0 s = map_option (\<lambda>(ret, bo', mm).
      (if ret \<noteq> 0 then 0 else env_new E (live_objs s),
       put_bo (env_new E (live_objs s)) (bo'\<lparr>use_user_ptr := False\<rparr>) (put_manager (pm_put pm mm) s)))
    (mm_alloc_memory_bo (env_mem E) bo (pim_memory_manager pm))"
  by (cases "mm_alloc_memory_bo (env_mem E) bo (pim_memory_manager pm)")
    (auto simp: create_bo_def rt_alloc_memory_bo_def the_manager_def assms pm_alloc_memory_bo_def Let_def)

context memory_manager
begin

lemma create_ok:
  assumes s: "buffers_inv inv held s" and E: "env_mem E = M" "new_ok (env_new E)"
    and n: "fits (bo_bytes n c h w prec)" and call: "PimCreateBo E n c h w prec MEM_TYPE_PIM 0 tr s = Some (p, s')"
  shows "p \<noteq> 0 \<and> pim_bos s p = None \<and> buffers_inv inv held s'
    \<and> (\<exists>b. pim_bos s' = (pim_bos s)(p \<mapsto> b) \<and> mem_type b = MEM_TYPE_PIM \<and> bo_size b = bo_bytes n c h w prec
         \<and> \<not> use_user_ptr b \<and> alloc_outcome (bo_size b) (held_in held s) (bo_data b) (held_in held s'))"
proof -
  let ?p = "env_new E (live_objs s)"
  obtain pm where pm: "pm_instance s = Some pm" "inv (pim_memory_manager pm)" "pim_runtime s \<noteq> None" "finite (live_objs s)"
    "bos_ok (held_in held s) (pim_bos s)" using s by (auto simp: buffers_inv_def)
  define bo where "bo = blank_bo\<lparr>bo_size := bo_bytes n c h w prec, bshape := mk_shape (of_int n) (of_int c) (of_int h) (of_int w),
    bshape_r := mk_shape (of_int n) (of_int c) (of_int h) (of_int w), mem_type := MEM_TYPE_PIM,
    precision := prec, data_layout_type := RAW, transposed := tr\<rparr>"
  have bo: "mem_type bo = MEM_TYPE_PIM" "bo_size bo = bo_bytes n c h w prec" by (simp_all add: bo_def)
  from call pm(3) have "create_bo E bo 0 s = Some (p, s')" by (simp add: PimCreateBo_def bo_def Let_def)
  then obtain ret bo' mm where a: "mm_alloc_memory_bo M bo (pim_memory_manager pm) = Some (ret, bo', mm)"
    "p = (if ret \<noteq> 0 then 0 else ?p)" "s' = put_bo ?p (bo'\<lparr>use_user_ptr := False\<rparr>) (put_manager (pm_put pm mm) s)"
    using create_bo_eq [OF pm(1)] E(1) by auto
  have ok: "inv mm" "ret = 0" "bo' = bo\<lparr>bo_data := bo_data bo'\<rparr>"
    "alloc_outcome (bo_size bo) (held (pim_memory_manager pm)) (bo_data bo') (held mm)"
    using alloc_bo_ok [OF pm(2) bo(1) _ a(1)] n bo(2) by simp_all
  have p: "p = ?p" "p \<noteq> 0" "p \<notin> live_objs s" using a(2) ok(2) E(2) pm(4) by (auto simp: new_ok_def)
  then have fresh: "pim_bos s p = None" by (auto simp: live_objs_def)
  have sizes: "bo_size bo' = bo_size bo" "mem_type bo' = MEM_TYPE_PIM" by (subst ok(3), simp add: bo)+
  have a3: "s' = put_bo p (bo'\<lparr>use_user_ptr := False\<rparr>) (put_manager (pm_put pm mm) s)" using a(3) p(1) by simp
  have s': "pim_bos s' = (pim_bos s)(p \<mapsto> bo'\<lparr>use_user_ptr := False\<rparr>)" "pm_instance s' = Some (pm_put pm mm)"
    "pim_runtime s' = pim_runtime s" "held_in held s' = held mm" "held_in held s = held (pim_memory_manager pm)"
    "live_objs s' = insert p (live_objs s)"
    by (auto simp: a3 put_bo_def put_manager_def held_in_def pm_put_def pm(1) live_objs_def)
  have "bos_ok (held mm) ((pim_bos s)(p \<mapsto> bo'\<lparr>use_user_ptr := False\<rparr>))"
    by (rule bos_ok_create [OF pm(5) [unfolded s'(5)] fresh ok(4)]) (simp_all add: sizes)
  then have "buffers_inv inv held s'"
    using pm(3,4) ok(1) by (simp add: buffers_inv_def s') (simp add: pm_put_def)
  then show ?thesis using p(2) fresh sizes bo(2) ok(4) s'(1,4,5) by auto
qed

lemma destroy_ok:
  assumes s: "buffers_inv inv held s" and E: "env_mem E = M" and b: "pim_bos s p = Some b" "owned b"
  shows "\<exists>s'. PimDestroyBo E p s = Some (0, s') \<and> buffers_inv inv held s' \<and> pim_bos s' = (pim_bos s)(p := None)
    \<and> held_in held s' = (held_in held s)(bo_data b := None)"
proof -
  obtain pm where pm: "pm_instance s = Some pm" "inv (pim_memory_manager pm)" "pim_runtime s \<noteq> None" "finite (live_objs s)"
    "bos_ok (held_in held s) (pim_bos s)" using s by (auto simp: buffers_inv_def)
  have h: "held_in held s = held (pim_memory_manager pm)" by (simp add: held_in_def pm(1))
  have b': "mem_type b = MEM_TYPE_PIM" "\<not> use_user_ptr b" using b(2) by (simp_all add: owned_def)
  have "held (pim_memory_manager pm) (bo_data b) \<noteq> None" using pm(5) b unfolding bos_ok_def h by blast
  from free_bo_ok [OF pm(2) b'(1) this] obtain bo' mm where f: "mm_free_memory_bo M b (pim_memory_manager pm) = Some (0, bo', mm)"
    "inv mm" "held mm = (held (pim_memory_manager pm))(bo_data b := None)" by blast
  define s' where "s' = (put_bo p bo' (put_manager (pm_put pm mm) s))\<lparr>pim_bos := (pim_bos s)(p := None)\<rparr>"
  have "PimDestroyBo E p s = Some (0, s')"
    using pm(3) by (simp add: PimDestroyBo_def rt_free_memory_bo_def b(1) b'(2) the_manager_def pm(1) pm_free_memory_bo_def
        E f(1) s'_def put_bo_def put_manager_def)
  moreover have s': "pim_bos s' = (pim_bos s)(p := None)" "held_in held s' = held mm" "pm_instance s' = Some (pm_put pm mm)"
    "pim_runtime s' = pim_runtime s" "live_objs s' \<subseteq> live_objs s"
    by (auto simp: s'_def put_bo_def put_manager_def held_in_def pm_put_def live_objs_def split: if_splits)
  moreover have "buffers_inv inv held s'"
    using bos_ok_destroy [OF pm(5) b] pm(3,4) f(2,3) s' finite_subset [OF s'(5)]
    by (simp add: buffers_inv_def h) (simp add: pm_put_def)
  ultimately show ?thesis using f(3) h by auto
qed

end

section \<open>Sessions\<close>

text \<open>
  Any interleaving of creations and destructions of objects in PIM memory. The sizes are those the
  heap's \<open>float\<close> arithmetic represents exactly.
\<close>

inductive bo_session :: "('s, 'e) Env \<Rightarrow> ('s, 'e) Pim \<Rightarrow> ('s, 'e) Pim \<Rightarrow> bool" for E s0 where
  session_start: "bo_session E s0 s0"
| session_create: "bo_session E s0 s \<Longrightarrow> exact_size (bo_bytes n c h w prec) \<Longrightarrow>
    PimCreateBo E n c h w prec MEM_TYPE_PIM 0 tr s = Some (p, s') \<Longrightarrow> bo_session E s0 s'"
| session_destroy: "bo_session E s0 s \<Longrightarrow> pim_bos s p = Some b \<Longrightarrow> owned b \<Longrightarrow>
    PimDestroyBo E p s = Some (ret, s') \<Longrightarrow> bo_session E s0 s'"

text \<open>The manager of a session: a HIP manager on device \<open>d\<close> or an OpenCL manager, and the regions it holds.\<close>

definition mgr_inv ::
    "'v HipApi \<Rightarrow> BuildTarget \<Rightarrow> int \<Rightarrow> 'w OclApi \<Rightarrow> ('w \<Rightarrow> addr set) \<Rightarrow> 'v mgr + 'w ocl_mgr \<Rightarrow> bool" where
  "mgr_inv hapi t d oapi lv = case_sum (hip_mgr_inv hapi t d) (ocl_mgr_inv oapi lv)"

definition mgr_held :: "int \<Rightarrow> 'v mgr + 'w ocl_mgr \<Rightarrow> addr \<rightharpoonup> addr \<times> nat" where
  "mgr_held d = case_sum (hip_held d) ocl_held"

definition mgr_ops :: "'v HipApi \<Rightarrow> BuildTarget \<Rightarrow> 'w OclApi \<Rightarrow> ('v mgr + 'w ocl_mgr) MemOps" where
  "mgr_ops hapi t oapi = dispatch (HipManager hapi t) (OclManager oapi (t = EMULATOR))"

interpretation pims: memory_manager "mgr_ops hapi t oapi" "mgr_inv hapi t d oapi lv" "mgr_held d" exact_size
  for hapi t d oapi lv
  unfolding mgr_ops_def mgr_inv_def mgr_held_def by (rule mgr.disp.memory_manager_axioms)

lemma session_inv:
  assumes "env_mem E = mgr_ops hapi t oapi" "new_ok (env_new E)" "bo_session E s0 s"
    "buffers_inv (mgr_inv hapi t d oapi lv) (mgr_held d) s0"
  shows "buffers_inv (mgr_inv hapi t d oapi lv) (mgr_held d) s"
  using assms(3)
proof (induction rule: bo_session.induct)
  case session_start
  then show ?case by (rule assms(4))
next
  case (session_create s n c h w prec tr p s')
  then show ?case using pims.create_ok [OF session_create.IH assms(1,2) session_create.hyps(2,3)] by blast
next
  case (session_destroy s p b ret s')
  then show ?case using pims.destroy_ok [OF session_destroy.IH assms(1) session_destroy.hyps(2,3)] by auto
qed

lemma buffers_regions:
  assumes "buffers_inv (mgr_inv hapi t d oapi lv) (mgr_held d) s" "pim_bos s p = Some b" "pim_bos s q = Some c" "p \<noteq> q"
    "owned b" "owned c"
  shows "\<exists>x m y n. held_in (mgr_held d) s (bo_data b) = Some (x, m) \<and> held_in (mgr_held d) s (bo_data c) = Some (y, n)
    \<and> bo_size b \<le> m \<and> bo_size c \<le> n \<and> (x + m \<le> y \<or> y + n \<le> x)"
proof -
  have ok: "bos_ok (held_in (mgr_held d) s) (pim_bos s)" using assms(1) by (simp add: buffers_inv_def)
  obtain pm where pm: "pm_instance s = Some pm" "mgr_inv hapi t d oapi lv (pim_memory_manager pm)"
    using assms(1) by (auto simp: buffers_inv_def)
  obtain x m where xm: "held_in (mgr_held d) s (bo_data b) = Some (x, m)" "bo_size b \<le> m" using ok assms(2,5) unfolding bos_ok_def by blast
  obtain y n where yn: "held_in (mgr_held d) s (bo_data c) = Some (y, n)" "bo_size c \<le> n" using ok assms(3,6) unfolding bos_ok_def by blast
  have "bo_data b \<noteq> bo_data c" using ok assms(2-6) unfolding bos_ok_def by blast
  moreover have "regions_apart (held_in (mgr_held d) s)" using pims.held_apart [OF pm(2)] by (simp add: held_in_def pm(1))
  ultimately have "x + m \<le> y \<or> y + n \<le> x" using xm(1) yn(1) by (intro regions_apartD)
  with xm yn show ?thesis by blast
qed


text \<open>a buffer object created in PIM memory during a session can be destroyed: the call reports
  success, and the objects and the regions held are those from before the creation.
\<close>

theorem create_destroy_roundtrip:
  assumes "env_mem E = mgr_ops hapi t oapi" "new_ok (env_new E)" "buffers_inv (mgr_inv hapi t d oapi lv) (mgr_held d) s0"
    "bo_session E s0 s" "exact_size (bo_bytes n c h w prec)"
    "PimCreateBo E n c h w prec MEM_TYPE_PIM 0 tr s = Some (p, s')" "pim_bos s' p = Some b" "bo_data b \<noteq> 0"
  shows "\<exists>s''. PimDestroyBo E p s' = Some (0, s'') \<and> pim_bos s'' = pim_bos s \<and> held_in (mgr_held d) s'' = held_in (mgr_held d) s"
proof -
  note inv = session_inv [OF assms(1,2,4,3)]
  from pims.create_ok [OF inv assms(1,2,5,6)] assms(7)
  have c: "pim_bos s p = None" "buffers_inv (mgr_inv hapi t d oapi lv) (mgr_held d) s'" "pim_bos s' = (pim_bos s)(p \<mapsto> b)"
    "owned b" "alloc_outcome (bo_size b) (held_in (mgr_held d) s) (bo_data b) (held_in (mgr_held d) s')"
    using assms(8) by (auto simp: owned_def)
  from pims.destroy_ok [OF c(2) assms(1,7) c(4)] obtain s'' where s'': "PimDestroyBo E p s' = Some (0, s'')"
    "pim_bos s'' = (pim_bos s')(p := None)" "held_in (mgr_held d) s'' = (held_in (mgr_held d) s')(bo_data b := None)" by blast
  then show ?thesis using c(1,3,5) assms(8) by (auto simp: alloc_outcome_def fun_upd_idem)
qed


section \<open>A concrete session\<close>

lemma demo_buffers_inv: "buffers_inv (mgr_inv (byte_api 1) EMULATOR 0 list_ocl set) (mgr_held 0) demo_pim"
  using demo_hip_inv
  by (simp add: buffers_inv_def demo_pim_def pim_start_def mgr_inv_def demo_pm_def bos_ok_def live_objs_def)

lemma demo_ops: "env_mem demo_env = mgr_ops (byte_api 1) EMULATOR list_ocl" "new_ok (env_new demo_env)"
  using fresh_addr_ok by (simp_all add: demo_env_def mgr_ops_def)

text \<open>Two objects of 2000 bytes each.\<close>

definition demo_heap_1 :: "HipDev Heap" where
  "demo_heap_1 = \<lparr>block_alloc = hip_demo\<lparr>pim_alloc_done := (\<lambda>_. False)(0 := True), g_pim_base_addr := (\<lambda>_. 0)(0 := 4294967296), mapped := {4294967296}\<rparr>,
     pim_base = 0, free_list = [(534773760, 4297064448)],
     block_list = [(4294967296, [(4294967296, usedFragment 2097152), (4297064448, freeFragment (534773760, 4297064448) 534773760)])],
     block_cache = [], in_use_size = 536870912, cache_size = 0\<rparr>"

lemma demo_alloc_1: "heap_alloc (HipBlockAllocator EMULATOR) 2000 0 (heap_init hip_demo) = Some (4294967296, demo_heap_1)"
proof -
  have "get_aligned_bytes 2000 = 2097152" by (simp add: get_aligned_bytes_def align_size_def fl_nat_exact fl_div_ceil_def)
  then show ?thesis
    by (simp add: heap_alloc_def HipBlockAllocator_def hip_ba_alloc_def allocate_pim_block_def map_block_def hip_demo_def
        heap_init_def mm_lower_bound_def alloc_block_def frags_at_def Let_def in_table_def MAX_NUM_GPUS_def demo_heap_1_def)
qed


definition demo_heap_2 :: "HipDev Heap" where
  "demo_heap_2 = demo_heap_1\<lparr>free_list := [(532676608, 4299161600)],
     block_list := [(4294967296, [(4294967296, usedFragment 2097152), (4297064448, usedFragment 2097152),
       (4299161600, freeFragment (532676608, 4299161600) 532676608)])]\<rparr>"

lemma demo_alloc_2: "heap_alloc (HipBlockAllocator EMULATOR) 2000 0 demo_heap_1 = Some (4297064448, demo_heap_2)"
proof -
  have "get_aligned_bytes 2000 = 2097152" by (simp add: get_aligned_bytes_def align_size_def fl_nat_exact fl_div_ceil_def)
  then show ?thesis
    by (simp add: heap_alloc_def HipBlockAllocator_def mm_lower_bound_def alloc_fragment_def Let_def demo_heap_1_def demo_heap_2_def
        usedFragment_def freeFragment_def)
qed

definition demo_bo :: "addr \<Rightarrow> PimBo" where
  "demo_bo a = blank_bo\<lparr>bo_size := 2000, bshape := mk_shape 1 1 1 1000, bshape_r := mk_shape 1 1 1 1000, mem_type := MEM_TYPE_PIM,
     bo_data := a\<rparr>"

definition demo_state_of :: "HipDev Heap \<Rightarrow> (addr \<rightharpoonup> PimBo) \<Rightarrow> (demo_state, unit) Pim" where
  "demo_state_of h bos = demo_pim\<lparr>pm_instance := Some (demo_pm\<lparr>pim_memory_manager :=
     Inl ((fst demo_hip)\<lparr>fragment_allocator := [h]\<rparr>, of_nat)\<rparr>), pim_bos := bos\<rparr>"

lemma demo_pim_state: "demo_pim = demo_state_of (heap_init hip_demo) (\<lambda>_. None)"
  by (simp add: demo_state_of_def demo_pim_def demo_pm_def demo_hip_def pim_start_def)

lemma demo_create:
  assumes "heap_alloc (HipBlockAllocator EMULATOR) 2000 0 h = Some (a, h')" "fresh_addr (dom bos) = p"
  shows "PimCreateBo demo_env 1 1 1 1000 PIM_FP16 MEM_TYPE_PIM 0 False (demo_state_of h bos)
    = Some (p, demo_state_of h' (bos(p \<mapsto> demo_bo a)))"
proof -
  let ?s = "demo_state_of h bos"
  define bo where "bo = blank_bo\<lparr>bo_size := 2000, bshape := mk_shape 1 1 1 1000, bshape_r := mk_shape 1 1 1 1000,
    mem_type := MEM_TYPE_PIM, precision := PIM_FP16, data_layout_type := RAW, transposed := False\<rparr>"
  have live: "live_objs ?s = dom bos" by (simp add: live_objs_def demo_state_of_def demo_pim_def pim_start_def)
  have pm: "pm_instance ?s = Some (demo_pm\<lparr>pim_memory_manager := Inl ((fst demo_hip)\<lparr>fragment_allocator := [h]\<rparr>, of_nat)\<rparr>)"
    by (simp add: demo_state_of_def)
  have alloc: "mm_alloc_memory_bo (env_mem demo_env) bo (Inl ((fst demo_hip)\<lparr>fragment_allocator := [h]\<rparr>, of_nat))
      = Some (0, bo\<lparr>bo_data := a\<rparr>, Inl ((fst demo_hip)\<lparr>fragment_allocator := [h']\<rparr>, of_nat))"
    by (simp add: demo_env_def dispatch_def on_sum2_def HipManager_def hip_alloc_memory_bo_def hip_alloc_memory_def bo_def
        current_heap_def byte_api_def assms(1) put_heap_def arr_get_def demo_hip_def)
  have "PimCreateBo demo_env 1 1 1 1000 PIM_FP16 MEM_TYPE_PIM 0 False ?s = create_bo demo_env bo 0 ?s"
    by (simp add: PimCreateBo_def demo_state_of_def demo_pim_def bo_def bo_bytes_def i32_def Let_def)
  also have "\<dots> = Some (p, demo_state_of h' (bos(p \<mapsto> demo_bo a)))"
    unfolding create_bo_eq [OF pm] live using alloc assms(2)
    by (simp add: demo_env_def put_bo_def put_manager_def pm_put_def demo_state_of_def bo_def demo_bo_def blank_bo_def)
  finally show ?thesis .
qed


definition demo_two :: "(demo_state, unit) Pim" where
  "demo_two = demo_state_of demo_heap_2 [1 \<mapsto> demo_bo 4294967296, 2 \<mapsto> demo_bo 4297064448]"

lemma demo_exact: "exact_size (bo_bytes 1 1 1 1000 PIM_FP16)"
  by (simp add: exact_size_def bo_bytes_def i32_def fl_nat_exact)

lemma demo_create_1: "PimCreateBo demo_env 1 1 1 1000 PIM_FP16 MEM_TYPE_PIM 0 False demo_pim
    = Some (1, demo_state_of demo_heap_1 [1 \<mapsto> demo_bo 4294967296])"
  unfolding demo_pim_state by (rule demo_create [OF demo_alloc_1]) (simp add: fresh_addr_def)

lemma demo_session: "bo_session demo_env demo_pim demo_two"
proof -
  have "bo_session demo_env demo_pim (demo_state_of demo_heap_1 [1 \<mapsto> demo_bo 4294967296])"
    by (rule session_create [OF session_start demo_exact demo_create_1])
  moreover have "PimCreateBo demo_env 1 1 1 1000 PIM_FP16 MEM_TYPE_PIM 0 False (demo_state_of demo_heap_1 [1 \<mapsto> demo_bo 4294967296])
    = Some (2, demo_two)"
    unfolding demo_two_def by (rule demo_create [OF demo_alloc_2]) (simp add: fresh_addr_def)
  ultimately show ?thesis by (rule session_create [OF _ demo_exact])
qed

lemma demo_owned: "a \<noteq> 0 \<Longrightarrow> owned (demo_bo a)"
  by (simp add: owned_def demo_bo_def blank_bo_def)


lemma create_destroy_roundtrip_witness:
  "\<exists>s''. PimDestroyBo demo_env 1 (demo_state_of demo_heap_1 [1 \<mapsto> demo_bo 4294967296]) = Some (0, s'')
    \<and> pim_bos s'' = pim_bos demo_pim \<and> held_in (mgr_held 0) s'' = held_in (mgr_held 0) demo_pim"
  by (rule create_destroy_roundtrip [OF demo_ops demo_buffers_inv session_start demo_exact demo_create_1,
        where b = "demo_bo 4294967296"])
    (simp_all add: demo_state_of_def demo_bo_def)

end
