(* ===== verification/SessionDrain.thy ===== *)
theory SessionDrain
  imports BufferSession
begin

text \<open>
  No leak: a session of creations and destructions of PIM buffer objects can always be ended by
  destroying the objects it still owns, in any order, and then the memory manager holds exactly the
  regions it held at the start.
\<close>

definition owned_objs :: "(addr \<rightharpoonup> PimBo) \<Rightarrow> addr set" where
  "owned_objs bos = {p. \<exists>b. bos p = Some b \<and> owned b}"

definition owned_data :: "(addr \<rightharpoonup> PimBo) \<Rightarrow> addr set" where
  "owned_data bos = {a. \<exists>p b. bos p = Some b \<and> owned b \<and> bo_data b = a}"

text \<open>The regions held now are those held at the start and one for each owned object.\<close>

definition balanced :: "(addr \<rightharpoonup> addr \<times> nat) \<Rightarrow> (addr \<rightharpoonup> addr \<times> nat) \<Rightarrow> (addr \<rightharpoonup> PimBo) \<Rightarrow> bool" where
  "balanced H0 H bos \<longleftrightarrow> (\<forall>a. if a \<in> owned_data bos then H0 a = None else H a = H0 a)"

lemma owned_data_empty: "owned_objs bos = {} \<Longrightarrow> owned_data bos = {}"
  by (auto simp: owned_objs_def owned_data_def)

lemma balanced_start: "owned_objs bos = {} \<Longrightarrow> balanced H H bos"
  by (simp add: balanced_def owned_data_empty)

lemma balanced_end: "owned_objs bos = {} \<Longrightarrow> balanced H0 H bos \<Longrightarrow> H = H0"
  by (simp add: balanced_def owned_data_empty fun_eq_iff)

lemma owned_data_add:
  assumes "bos p = None"
  shows "owned_data (bos(p \<mapsto> b)) = (if owned b then insert (bo_data b) (owned_data bos) else owned_data bos)"
proof (rule set_eqI)
  fix a
  have "(\<exists>q c. (bos(p \<mapsto> b)) q = Some c \<and> owned c \<and> bo_data c = a)
      \<longleftrightarrow> owned b \<and> bo_data b = a \<or> (\<exists>q c. bos q = Some c \<and> owned c \<and> bo_data c = a)"
    using assms by (metis fun_upd_apply option.distinct(1) option.inject)
  then show "a \<in> owned_data (bos(p \<mapsto> b)) \<longleftrightarrow> a \<in> (if owned b then insert (bo_data b) (owned_data bos) else owned_data bos)"
    by (auto simp: owned_data_def)
qed

lemma owned_data_drop:
  assumes "bos_ok H bos" "bos p = Some b" "owned b"
  shows "owned_data (bos(p := None)) = owned_data bos - {bo_data b}"
proof (rule set_eqI)
  fix a
  have "q = p" if "bos q = Some c" "owned c" "bo_data c = bo_data b" for q c
    using assms that unfolding bos_ok_def by metis
  then have "(\<exists>q c. (bos(p := None)) q = Some c \<and> owned c \<and> bo_data c = a)
      \<longleftrightarrow> (\<exists>q c. bos q = Some c \<and> owned c \<and> bo_data c = a) \<and> a \<noteq> bo_data b"
    using assms(2) by (metis fun_upd_apply option.distinct(1) option.inject)
  then show "a \<in> owned_data (bos(p := None)) \<longleftrightarrow> a \<in> owned_data bos - {bo_data b}"
    by (auto simp: owned_data_def)
qed

lemma balanced_create:
  assumes "balanced H0 H bos" "bos p = None" "alloc_outcome n H (bo_data b) H'" "mem_type b = MEM_TYPE_PIM" "\<not> use_user_ptr b"
  shows "balanced H0 H' (bos(p \<mapsto> b))"
proof (cases "bo_data b = 0")
  case True
  then show ?thesis using assms by (simp add: balanced_def owned_data_add owned_def alloc_outcome_def)
next
  case False
  then obtain v where v: "owned b" "H (bo_data b) = None" "H' = H(bo_data b \<mapsto> v)"
    using assms(3-5) by (auto simp: alloc_outcome_def owned_def)
  then have "H0 (bo_data b) = None" using assms(1) unfolding balanced_def by metis
  then show ?thesis using assms(1) v(1,3) using owned_data_add [of bos p b] assms(2) by (simp add: balanced_def)
qed

lemma balanced_destroy:
  assumes "balanced H0 H bos" "bos_ok H bos" "bos p = Some b" "owned b"
  shows "balanced H0 (H(bo_data b := None)) (bos(p := None))"
proof -
  have "bo_data b \<in> owned_data bos" using assms(3,4) by (auto simp: owned_data_def)
  then show ?thesis using assms(1) by (auto simp: balanced_def owned_data_drop [OF assms(2-4)] split: if_splits)
qed

lemma session_balanced:
  assumes "env_mem E = mgr_ops hapi t oapi" "new_ok (env_new E)" "bo_session E s0 s"
    "buffers_inv (mgr_inv hapi t d oapi lv) (mgr_held d) s0" "owned_objs (pim_bos s0) = {}"
  shows "balanced (held_in (mgr_held d) s0) (held_in (mgr_held d) s) (pim_bos s)"
  using assms(3)
proof (induction rule: bo_session.induct)
  case session_start
  then show ?case by (rule balanced_start [OF assms(5)])
next
  case (session_create s n c h w prec tr p s')
  note inv = session_inv [OF assms(1,2) session_create.hyps(1) assms(4)]
  from pims.create_ok [OF inv assms(1,2) session_create.hyps(2,3)] obtain b where b: "pim_bos s p = None"
    "pim_bos s' = (pim_bos s)(p \<mapsto> b)" "mem_type b = MEM_TYPE_PIM" "\<not> use_user_ptr b"
    "alloc_outcome (bo_size b) (held_in (mgr_held d) s) (bo_data b) (held_in (mgr_held d) s')" by blast
  show ?case unfolding b(2) by (rule balanced_create [OF session_create.IH b(1,5,3,4)])
next
  case (session_destroy s p b ret s')
  note inv = session_inv [OF assms(1,2) session_destroy.hyps(1) assms(4)]
  then have ok: "bos_ok (held_in (mgr_held d) s) (pim_bos s)" by (simp add: buffers_inv_def)
  have s': "pim_bos s' = (pim_bos s)(p := None)" "held_in (mgr_held d) s' = (held_in (mgr_held d) s)(bo_data b := None)"
    using pims.destroy_ok [OF inv assms(1) session_destroy.hyps(2,3)] session_destroy.hyps(4) by auto
  show ?case unfolding s' by (rule balanced_destroy [OF session_destroy.IH ok session_destroy.hyps(2,3)])
qed

section \<open>Ending a session\<close>

text \<open>Destroying objects one after the other; a call that does not report success ends the attempt.\<close>

fun destroy_all :: "('s, 'e) Env \<Rightarrow> addr list \<Rightarrow> ('s, 'e) Pim \<Rightarrow> ('s, 'e) Pim option" where
  "destroy_all E [] s = Some s"
| "destroy_all E (p # ps) s =
    (case PimDestroyBo E p s of Some (ret, s') \<Rightarrow> if ret = 0 then destroy_all E ps s' else None | None \<Rightarrow> None)"

lemma owned_objs_drop: "owned_objs (bos(p := None)) = owned_objs bos - {p}"
  by (auto simp: owned_objs_def)

lemma destroy_all_session:
  assumes "env_mem E = mgr_ops hapi t oapi" "new_ok (env_new E)" "buffers_inv (mgr_inv hapi t d oapi lv) (mgr_held d) s0"
  shows "bo_session E s0 s \<Longrightarrow> distinct ps \<Longrightarrow> set ps \<subseteq> owned_objs (pim_bos s)
    \<Longrightarrow> \<exists>s'. destroy_all E ps s = Some s' \<and> bo_session E s0 s' \<and> pim_bos s' = (pim_bos s) |` (- set ps)"
proof (induction ps arbitrary: s)
  case Nil
  then show ?case by simp
next
  case (Cons p ps)
  then obtain b where b: "pim_bos s p = Some b" "owned b" by (auto simp: owned_objs_def)
  from pims.destroy_ok [OF session_inv [OF assms(1,2) Cons.prems(1) assms(3)] assms(1) b]
  obtain t where t: "PimDestroyBo E p s = Some (0, t)" "pim_bos t = (pim_bos s)(p := None)" by blast
  have "set ps \<subseteq> owned_objs (pim_bos t)" using Cons.prems(2,3) by (auto simp: t(2) owned_objs_drop)
  with Cons.IH [OF session_destroy [OF Cons.prems(1) b t(1)]] Cons.prems(2)
  obtain s' where "destroy_all E ps t = Some s'" "bo_session E s0 s'" "pim_bos s' = (pim_bos t) |` (- set ps)" by auto
  moreover have "(pim_bos t) |` (- set ps) = (pim_bos s) |` (- set (p # ps))"
    by (auto simp: t(2) restrict_map_def fun_eq_iff)
  ultimately show ?case using t(1) by simp
qed



end
