(* ===== verification/CommandCodec.thy ===== *)
theory CommandCodec
  imports PimTypes
begin

text \<open>
  The CRF command codec: \<open>PimCommand\<close> of \<open>runtime/include/executor/PimCommand.h\<close> and
  \<open>runtime/source/executor/PimCommand.cpp\<close>. A command is a record of the class's fields; its
  binary form is one 32-bit word. The lemmas show which fields survive an encoding, that decoding
  inverts encoding on them, and that re-encoding a decoded word clears exactly the unused bits.
\<close>

section \<open>Command and operand types\<close>

datatype PimCmdType =
    NOP | ADD | MUL | MAC | MAD | REV0 | REV1 | REV2 | MOV | FILL
  | REV3 | REV4 | REV5 | REV6 | JUMP | EXIT

datatype PimOpdType = A_OUT | M_OUT | EVEN_BANK | ODD_BANK | GRF_A | GRF_B | SRF_M | SRF_A

fun cmd_code :: "PimCmdType \<Rightarrow> int" where
  "cmd_code NOP = 0" | "cmd_code ADD = 1" | "cmd_code MUL = 2" | "cmd_code MAC = 3"
| "cmd_code MAD = 4" | "cmd_code REV0 = 5" | "cmd_code REV1 = 6" | "cmd_code REV2 = 7"
| "cmd_code MOV = 8" | "cmd_code FILL = 9" | "cmd_code REV3 = 10" | "cmd_code REV4 = 11"
| "cmd_code REV5 = 12" | "cmd_code REV6 = 13" | "cmd_code JUMP = 14" | "cmd_code EXIT = 15"

fun opd_code :: "PimOpdType \<Rightarrow> int" where
  "opd_code A_OUT = 0" | "opd_code M_OUT = 1" | "opd_code EVEN_BANK = 2" | "opd_code ODD_BANK = 3"
| "opd_code GRF_A = 4" | "opd_code GRF_B = 5" | "opd_code SRF_M = 6" | "opd_code SRF_A = 7"

text \<open>
  The casts \<open>PimCmdType(x)\<close> and \<open>PimOpdType(x)\<close>: the sources apply them to 4-bit and 3-bit
  values only, where every value is an enumerator.
\<close>

definition PimCmdType_of :: "u32 \<Rightarrow> PimCmdType" where
  "PimCmdType_of v =
     [NOP, ADD, MUL, MAC, MAD, REV0, REV1, REV2, MOV, FILL, REV3, REV4, REV5, REV6, JUMP, EXIT]
       ! (unat v mod 16)"

definition PimOpdType_of :: "u32 \<Rightarrow> PimOpdType" where
  "PimOpdType_of v =
     [A_OUT, M_OUT, EVEN_BANK, ODD_BANK, GRF_A, GRF_B, SRF_M, SRF_A] ! (unat v mod 8)"

record PimCommand =
  cmd_type :: PimCmdType
  dst :: PimOpdType
  src0 :: PimOpdType
  src1 :: PimOpdType
  src2 :: PimOpdType
  loop_counter :: int
  loop_offset :: int
  is_auto :: int
  dst_idx :: int
  src0_idx :: int
  src1_idx :: int
  is_relu :: int

section \<open>Constructors\<close>

definition cmd_default :: PimCommand where
  "cmd_default = \<lparr>cmd_type = NOP, dst = A_OUT, src0 = A_OUT, src1 = A_OUT, src2 = A_OUT,
     loop_counter = 0, loop_offset = 0, is_auto = 0, dst_idx = 0, src0_idx = 0, src1_idx = 0,
     is_relu = 0\<rparr>"

definition cmd_ctrl :: "PimCmdType \<Rightarrow> int \<Rightarrow> PimCommand" where
  "cmd_ctrl t lc = \<lparr>cmd_type = t, dst = A_OUT, src0 = A_OUT, src1 = A_OUT, src2 = A_OUT,
     loop_counter = lc, loop_offset = 0, is_auto = 0, dst_idx = 0, src0_idx = 0, src1_idx = 0,
     is_relu = 0\<rparr>"

definition cmd_jump :: "PimCmdType \<Rightarrow> int \<Rightarrow> int \<Rightarrow> PimCommand" where
  "cmd_jump t lc off = \<lparr>cmd_type = t, dst = A_OUT, src0 = A_OUT, src1 = A_OUT, src2 = A_OUT,
     loop_counter = lc, loop_offset = off, is_auto = 0, dst_idx = 0, src0_idx = 0, src1_idx = 0,
     is_relu = 0\<rparr>"

definition cmd_move :: "PimCmdType \<Rightarrow> PimOpdType \<Rightarrow> PimOpdType \<Rightarrow> int \<Rightarrow> int \<Rightarrow> int \<Rightarrow> int \<Rightarrow> int \<Rightarrow> PimCommand" where
  "cmd_move t d s0 au di s0i s1i relu = \<lparr>cmd_type = t, dst = d, src0 = s0, src1 = A_OUT, src2 = A_OUT,
     loop_counter = 0, loop_offset = 0, is_auto = au, dst_idx = di, src0_idx = s0i, src1_idx = s1i,
     is_relu = relu\<rparr>"

definition cmd_alu2 ::
    "PimCmdType \<Rightarrow> PimOpdType \<Rightarrow> PimOpdType \<Rightarrow> PimOpdType \<Rightarrow> int \<Rightarrow> int \<Rightarrow> int \<Rightarrow> int \<Rightarrow> PimCommand" where
  "cmd_alu2 t d s0 s1 au di s0i s1i = \<lparr>cmd_type = t, dst = d, src0 = s0, src1 = s1, src2 = A_OUT,
     loop_counter = 0, loop_offset = 0, is_auto = au, dst_idx = di, src0_idx = s0i, src1_idx = s1i,
     is_relu = 0\<rparr>"

definition cmd_alu3 ::
    "PimCmdType \<Rightarrow> PimOpdType \<Rightarrow> PimOpdType \<Rightarrow> PimOpdType \<Rightarrow> PimOpdType \<Rightarrow> int \<Rightarrow> int \<Rightarrow> int \<Rightarrow> int \<Rightarrow> PimCommand" where
  "cmd_alu3 t d s0 s1 s2 au di s0i s1i = \<lparr>cmd_type = t, dst = d, src0 = s0, src1 = s1, src2 = s2,
     loop_counter = 0, loop_offset = 0, is_auto = au, dst_idx = di, src0_idx = s0i, src1_idx = s1i,
     is_relu = 0\<rparr>"

lemmas cmd_ctor_defs =
  cmd_default_def cmd_ctrl_def cmd_jump_def cmd_move_def cmd_alu2_def cmd_alu3_def

section \<open>Bit fields\<close>

definition bitmask :: "nat \<Rightarrow> u32" where
  "bitmask b = push_bit b 1 - 1"

definition to_bit :: "u32 \<Rightarrow> nat \<Rightarrow> nat \<Rightarrow> u32" where
  "to_bit val bit_len bit_pos = push_bit bit_pos (val AND bitmask bit_len)"

definition from_bit :: "u32 \<Rightarrow> nat \<Rightarrow> nat \<Rightarrow> u32" where
  "from_bit val bit_len bit_pos = drop_bit bit_pos val AND bitmask bit_len"

section \<open>Encoding and decoding\<close>

text \<open>Signed fields reach \<open>to_bit\<close> through the implicit conversion to \<open>uint32_t\<close>.\<close>

definition to_int :: "PimCommand \<Rightarrow> u32" where
  "to_int c =
    (let val = to_bit (word_of_int (cmd_code (cmd_type c))) 4 28;
         alu = (\<lambda>val. val
           OR to_bit (word_of_int (opd_code (dst c))) 3 25
           OR to_bit (word_of_int (opd_code (src0 c))) 3 22
           OR to_bit (word_of_int (opd_code (src1 c))) 3 19
           OR to_bit (word_of_int (is_auto c)) 1 15
           OR to_bit (word_of_int (dst_idx c)) 4 8
           OR to_bit (word_of_int (src0_idx c)) 4 4
           OR to_bit (word_of_int (src1_idx c)) 4 0);
         move = (\<lambda>val. val
           OR to_bit (word_of_int (opd_code (dst c))) 3 25
           OR to_bit (word_of_int (opd_code (src0 c))) 3 22
           OR to_bit (word_of_int (dst_idx c)) 4 8
           OR to_bit (word_of_int (src0_idx c)) 4 4
           OR to_bit (word_of_int (src1_idx c)) 4 0
           OR to_bit (word_of_int (is_relu c)) 1 12)
     in case cmd_type c of
          EXIT \<Rightarrow> val
        | NOP \<Rightarrow> val OR to_bit (word_of_int (loop_counter c)) 11 0
        | JUMP \<Rightarrow> val OR to_bit (word_of_int (loop_counter c)) 17 11
                      OR to_bit (word_of_int (loop_offset c)) 11 0
        | FILL \<Rightarrow> move val
        | MOV \<Rightarrow> move val
        | MAD \<Rightarrow> alu (val OR to_bit (word_of_int (opd_code (src2 c))) 3 16)
        | ADD \<Rightarrow> alu val
        | MUL \<Rightarrow> alu val
        | MAC \<Rightarrow> alu val
        | _ \<Rightarrow> val)"

text \<open>\<open>from_int\<close> is a method: fields the command type does not encode keep their old value.\<close>

definition from_int :: "PimCommand \<Rightarrow> u32 \<Rightarrow> PimCommand" where
  "from_int c val =
    (let c = c\<lparr>cmd_type := PimCmdType_of (from_bit val 4 28)\<rparr>;
         alu = (\<lambda>c. c\<lparr>dst := PimOpdType_of (from_bit val 3 25),
                      src0 := PimOpdType_of (from_bit val 3 22),
                      src1 := PimOpdType_of (from_bit val 3 19),
                      is_auto := uint (from_bit val 1 15),
                      dst_idx := uint (from_bit val 4 8),
                      src0_idx := uint (from_bit val 4 4),
                      src1_idx := uint (from_bit val 4 0)\<rparr>);
         move = (\<lambda>c. c\<lparr>dst := PimOpdType_of (from_bit val 3 25),
                       src0 := PimOpdType_of (from_bit val 3 22),
                       is_relu := uint (from_bit val 1 12),
                       dst_idx := uint (from_bit val 4 8),
                       src0_idx := uint (from_bit val 4 4),
                       src1_idx := uint (from_bit val 4 0)\<rparr>)
     in case cmd_type c of
          EXIT \<Rightarrow> c
        | NOP \<Rightarrow> c\<lparr>loop_counter := uint (from_bit val 11 0)\<rparr>
        | JUMP \<Rightarrow> c\<lparr>loop_counter := uint (from_bit val 17 11),
                     loop_offset := uint (from_bit val 11 0)\<rparr>
        | FILL \<Rightarrow> move c
        | MOV \<Rightarrow> move c
        | MAD \<Rightarrow> alu (c\<lparr>src2 := PimOpdType_of (from_bit val 3 16)\<rparr>)
        | ADD \<Rightarrow> alu c
        | MUL \<Rightarrow> alu c
        | MAC \<Rightarrow> alu c
        | _ \<Rightarrow> c)"

definition cmd_eq :: "PimCommand \<Rightarrow> PimCommand \<Rightarrow> bool" where
  "cmd_eq lhs rhs \<longleftrightarrow> to_int lhs = to_int rhs"

definition cmd_neq :: "PimCommand \<Rightarrow> PimCommand \<Rightarrow> bool" where
  "cmd_neq lhs rhs \<longleftrightarrow> to_int lhs \<noteq> to_int rhs"

section \<open>Printing\<close>

text \<open>Decimal digits, as \<open>std::to_string\<close> and \<open>operator<<\<close> print an \<open>int\<close>.\<close>

definition digit_char :: "nat \<Rightarrow> char" where
  "digit_char d = char_of (48 + d)"

fun dec_nat :: "nat \<Rightarrow> string" where
  "dec_nat n = (if n < 10 then [digit_char n] else dec_nat (n div 10) @ [digit_char (n mod 10)])"

declare dec_nat.simps [simp del]

definition dec_int :: "int \<Rightarrow> string" where
  "dec_int i = (if i < 0 then CHR ''-'' # dec_nat (nat (- i)) else dec_nat (nat i))"

fun opd_to_str :: "PimOpdType \<Rightarrow> int \<Rightarrow> string" where
  "opd_to_str A_OUT idx = ''A_OUT''"
| "opd_to_str M_OUT idx = ''M_OUT''"
| "opd_to_str EVEN_BANK idx = ''EVEN_BANK''"
| "opd_to_str ODD_BANK idx = ''ODD_BANK''"
| "opd_to_str GRF_A idx = ''GRF_A['' @ dec_int idx @ '']''"
| "opd_to_str GRF_B idx = ''GRF_B['' @ dec_int idx @ '']''"
| "opd_to_str SRF_M idx = ''SRF_M['' @ dec_int idx @ '']''"
| "opd_to_str SRF_A idx = ''SRF_A['' @ dec_int idx @ '']''"

text \<open>The parameter of \<open>cmd_to_str\<close> is ignored by the source, which switches on the field.\<close>

definition cmd_to_str :: "PimCommand \<Rightarrow> PimCmdType \<Rightarrow> string" where
  "cmd_to_str c ty = (case cmd_type c of
      EXIT \<Rightarrow> ''EXIT'' | NOP \<Rightarrow> ''NOP'' | JUMP \<Rightarrow> ''JUMP'' | FILL \<Rightarrow> ''FILL'' | MOV \<Rightarrow> ''MOV''
    | ADD \<Rightarrow> ''ADD'' | MUL \<Rightarrow> ''MUL'' | MAC \<Rightarrow> ''MAC'' | MAD \<Rightarrow> ''MAD'' | _ \<Rightarrow> ''NOT_DEFINED'')"

definition to_str :: "PimCommand \<Rightarrow> string" where
  "to_str c =
    (let ss = cmd_to_str c (cmd_type c) @ '' '';
         two = opd_to_str (dst c) (dst_idx c) @ '', '' @ opd_to_str (src0 c) (src0_idx c);
         three = two @ '', '' @ opd_to_str (src1 c) (src1_idx c);
         body = (case cmd_type c of
             EXIT \<Rightarrow> []
           | NOP \<Rightarrow> dec_int (loop_counter c + 1) @ ''x''
           | JUMP \<Rightarrow> dec_int (loop_counter c) @ ''x '' @ ''[PC - '' @ dec_int (loop_offset c) @ '']''
           | FILL \<Rightarrow> two @ (if is_relu c \<noteq> 0 then '', relu'' else [])
           | MOV \<Rightarrow> two @ (if is_relu c \<noteq> 0 then '', relu'' else [])
           | ADD \<Rightarrow> three
           | MUL \<Rightarrow> three
           | MAC \<Rightarrow> three
           | MAD \<Rightarrow> three @ '', '' @ opd_to_str (src2 c) (src1_idx c)
           | _ \<Rightarrow> [])
     in ss @ body @ (if is_auto c \<noteq> 0 then '', auto'' else []))"

section \<open>Lemmas on bit fields\<close>

lemma bitmask_eq [bits_simps]: "bitmask b = mask b"
  by (simp add: bitmask_def mask_eq_decr_exp push_bit_eq_mult)

lemma to_bit_eq: "to_bit v l p = push_bit p (take_bit l v)"
  by (simp add: to_bit_def bitmask_eq take_bit_eq_mask)

lemma from_bit_eq: "from_bit v l p = take_bit l (drop_bit p v)"
  by (simp add: from_bit_def bitmask_eq take_bit_eq_mask)

lemma from_bit_or [bits_simps]: "from_bit (a OR b) l p = from_bit a l p OR from_bit b l p"
  by (simp add: from_bit_eq)

lemma from_bit_to_bit_same [bits_simps]:
  "p + l \<le> 32 \<Longrightarrow> from_bit (to_bit v l p) l p = take_bit l v"
  by (rule bit_word_eqI) (auto simp: from_bit_eq to_bit_eq bit_simps)

lemma from_bit_to_bit_other [bits_simps]:
  "p + l \<le> p' \<or> p' + l' \<le> p \<Longrightarrow> from_bit (to_bit v l p) l' p' = 0"
  by (rule bit_word_eqI) (auto simp: from_bit_eq to_bit_eq bit_simps)

lemma to_bit_from_bit: "p + l \<le> 32 \<Longrightarrow> to_bit (from_bit v l p) l p = v AND push_bit p (mask l)"
  by (rule bit_word_eqI) (auto simp: from_bit_eq to_bit_eq bit_simps)

lemma PimCmdType_of_code [bits_simps]:
  "PimCmdType_of (take_bit 4 (word_of_int (cmd_code t))) = t"
  by (cases t) (simp_all add: PimCmdType_of_def)

lemma PimOpdType_of_code [bits_simps]:
  "PimOpdType_of (take_bit 3 (word_of_int (opd_code t))) = t"
  by (cases t) (simp_all add: PimOpdType_of_def)

lemma PimCmdType_of_numeral [simp]:
  "PimCmdType_of 0 = NOP" "PimCmdType_of 1 = ADD" "PimCmdType_of 2 = MUL" "PimCmdType_of 3 = MAC"
  "PimCmdType_of 4 = MAD" "PimCmdType_of 5 = REV0" "PimCmdType_of 6 = REV1"
  "PimCmdType_of 7 = REV2" "PimCmdType_of 8 = MOV" "PimCmdType_of 9 = FILL"
  "PimCmdType_of 10 = REV3" "PimCmdType_of 11 = REV4" "PimCmdType_of 12 = REV5"
  "PimCmdType_of 13 = REV6" "PimCmdType_of 14 = JUMP" "PimCmdType_of 15 = EXIT"
  by (simp_all add: PimCmdType_of_def)

lemma uint_field [bits_simps]: "l \<le> 32 \<Longrightarrow> uint (take_bit l (word_of_int x :: u32)) = x mod 2 ^ l"
proof -
  assume "l \<le> 32"
  then have "uint (take_bit l (word_of_int x :: u32)) = take_bit l x"
    by (simp only: unsigned_take_bit_eq uint_word_of_int_eq take_bit_take_bit) (simp add: min_def)
  then show ?thesis by (simp only: take_bit_eq_mod)
qed

lemma uint_field_1 [bits_simps]: "uint ((word_of_int x :: u32) mod 2) = x mod 2"
  using uint_field [of 1 x] by (simp add: take_bit_eq_mod)

section \<open>Round trips\<close>

text \<open>
  \<open>canonical c\<close> is what a freshly constructed command becomes after an encoding: the fields its
  type encodes, each reduced to its width, and the default value of every other field.
\<close>

definition canonical :: "PimCommand \<Rightarrow> PimCommand" where
  "canonical c =
    (let b = cmd_default\<lparr>cmd_type := cmd_type c\<rparr>;
         alu = b\<lparr>dst := dst c, src0 := src0 c, src1 := src1 c, is_auto := is_auto c mod 2,
                 dst_idx := dst_idx c mod 16, src0_idx := src0_idx c mod 16,
                 src1_idx := src1_idx c mod 16\<rparr>;
         move = b\<lparr>dst := dst c, src0 := src0 c, is_relu := is_relu c mod 2,
                  dst_idx := dst_idx c mod 16, src0_idx := src0_idx c mod 16,
                  src1_idx := src1_idx c mod 16\<rparr>
     in case cmd_type c of
          NOP \<Rightarrow> b\<lparr>loop_counter := loop_counter c mod 2 ^ 11\<rparr>
        | JUMP \<Rightarrow> b\<lparr>loop_counter := loop_counter c mod 2 ^ 17,
                     loop_offset := loop_offset c mod 2 ^ 11\<rparr>
        | FILL \<Rightarrow> move | MOV \<Rightarrow> move
        | ADD \<Rightarrow> alu | MUL \<Rightarrow> alu | MAC \<Rightarrow> alu
        | MAD \<Rightarrow> alu\<lparr>src2 := src2 c\<rparr>
        | _ \<Rightarrow> b)"

lemma from_bit_opcode [bits_simps]:
  "cmd_type (from_int d (to_int c)) = cmd_type c"
  by (cases "cmd_type c")
    (simp_all add: from_int_def to_int_def Let_def bits_simps)

lemma decode_encode: "from_int cmd_default (to_int c) = canonical c"
  by (cases "cmd_type c")
    (simp_all add: from_int_def to_int_def canonical_def cmd_default_def Let_def bits_simps)

text \<open>The bits of the word a command type uses; all others are left zero by \<open>to_int\<close>.\<close>

definition field :: "nat \<Rightarrow> nat \<Rightarrow> u32" where
  "field l p = push_bit p (mask l)"

definition used_mask :: "PimCmdType \<Rightarrow> u32" where
  "used_mask t =
    (let alu = field 4 28 OR field 3 25 OR field 3 22 OR field 3 19 OR field 1 15
               OR field 4 8 OR field 4 4 OR field 4 0;
         move = field 4 28 OR field 3 25 OR field 3 22 OR field 4 8 OR field 4 4 OR field 4 0
                OR field 1 12
     in case t of
          NOP \<Rightarrow> field 4 28 OR field 11 0
        | JUMP \<Rightarrow> field 4 28 OR field 17 11 OR field 11 0
        | FILL \<Rightarrow> move | MOV \<Rightarrow> move
        | ADD \<Rightarrow> alu | MUL \<Rightarrow> alu | MAC \<Rightarrow> alu
        | MAD \<Rightarrow> alu OR field 3 16
        | _ \<Rightarrow> field 4 28)"

lemma cmd_code_of: "word_of_int (cmd_code (PimCmdType_of w)) = take_bit 4 w"
proof -
  let ?L = "[NOP, ADD, MUL, MAC, MAD, REV0, REV1, REV2, MOV, FILL, REV3, REV4, REV5, REV6, JUMP, EXIT]"
  have codes: "map cmd_code ?L = map int [0..<16]" by (simp add: upt_rec)
  have "cmd_code (?L ! n) = int n" if "n < 16" for n
  proof -
    have "cmd_code (?L ! n) = map cmd_code ?L ! n" by (rule nth_map [symmetric]) (use that in simp)
    also have "\<dots> = int n" unfolding codes using that by (simp del: upt_rec_numeral)
    finally show ?thesis .
  qed
  then have "cmd_code (PimCmdType_of w) = int (unat w mod 16)" by (simp add: PimCmdType_of_def)
  also have "unat w mod 16 = unat (take_bit 4 w)" by (simp only: unsigned_take_bit_eq) (simp add: take_bit_eq_mod)
  finally show ?thesis by simp
qed

lemma opd_code_of: "word_of_int (opd_code (PimOpdType_of w)) = take_bit 3 w"
proof -
  let ?L = "[A_OUT, M_OUT, EVEN_BANK, ODD_BANK, GRF_A, GRF_B, SRF_M, SRF_A]"
  have codes: "map opd_code ?L = map int [0..<8]" by (simp add: upt_rec)
  have "opd_code (?L ! n) = int n" if "n < 8" for n
  proof -
    have "opd_code (?L ! n) = map opd_code ?L ! n" by (rule nth_map [symmetric]) (use that in simp)
    also have "\<dots> = int n" unfolding codes using that by (simp del: upt_rec_numeral)
    finally show ?thesis .
  qed
  then have "opd_code (PimOpdType_of w) = int (unat w mod 8)" by (simp add: PimOpdType_of_def)
  also have "unat w mod 8 = unat (take_bit 3 w)" by (simp only: unsigned_take_bit_eq) (simp add: take_bit_eq_mod)
  finally show ?thesis by simp
qed

lemma field_eq [bits_simps]: "to_bit (take_bit l (drop_bit p v)) l p = v AND field l p" if "p + l \<le> 32"
  using to_bit_from_bit [OF that] by (simp add: field_def from_bit_eq)

lemma field_1_eq [bits_simps]: "to_bit (drop_bit p v mod 2) (Suc 0) p = v AND field 1 p" if "p < 32"
  using field_eq [of p 1 v] that by (simp add: take_bit_eq_mod)

lemma field_0_eq [bits_simps]: "to_bit (take_bit l v) l 0 = v AND field l 0" if "l \<le> 32"
  using field_eq [of 0 l v] that by simp

lemma encode_decode: "to_int (from_int d v) = v AND used_mask (PimCmdType_of (from_bit v 4 28))"
proof -
  have "to_bit (word_of_int (cmd_code (PimCmdType_of (from_bit v 4 28)))) 4 28 = v AND field 4 28"
    by (simp add: cmd_code_of from_bit_eq bits_simps)
  then show ?thesis
    by (cases "PimCmdType_of (from_bit v 4 28)")
      (simp_all add: to_int_def from_int_def used_mask_def Let_def from_bit_eq opd_code_of bits_simps
         bit.conj_disj_distrib or.assoc or.left_commute or.commute)
qed

lemma word_mod_field [bits_simps]: "to_bit (word_of_int (x mod 2 ^ l)) l p = to_bit (word_of_int x) l p"
  if "l \<le> 32"
proof -
  have "take_bit l (word_of_int (x mod 2 ^ l) :: u32) = take_bit l (word_of_int x)"
    by (rule word_uint_eqI) (simp add: uint_field that)
  then show ?thesis by (simp add: to_bit_eq)
qed

lemmas word_mod_fields [bits_simps] =
  word_mod_field [where l = 4, simplified] word_mod_field [where l = 1, simplified]
  word_mod_field [where l = 11, simplified] word_mod_field [where l = 17, simplified]

lemma to_int_canonical: "to_int (canonical c) = to_int c"
  by (cases "cmd_type c") (simp_all add: to_int_def canonical_def Let_def word_mod_fields)

lemma cmd_eq_iff_canonical: "cmd_eq c d \<longleftrightarrow> canonical c = canonical d"
  unfolding cmd_eq_def by (metis decode_encode to_int_canonical)

lemma canonical_idem [simp]: "canonical (canonical c) = canonical c"
  by (metis decode_encode to_int_canonical)

lemma cmd_neq_not_eq: "cmd_neq c d \<longleftrightarrow> \<not> cmd_eq c d"
  by (simp add: cmd_neq_def cmd_eq_def)

lemma to_int_inj_canonical: "to_int c = to_int d \<longleftrightarrow> canonical c = canonical d"
  using cmd_eq_iff_canonical by (simp add: cmd_eq_def)

end
