(* ===== verification/CrfBin.thy ===== *)
theory CrfBin
  imports CommandCodec FloatRound
begin

text \<open>
  The CRF program generator \<open>PimCrfBinGen\<close> (\<open>runtime/source/executor/PimCrfBinGen.cpp\<close>): the
  loop counter of an operation, the command list of each operation type, its binary image, the SRF
  image of batch normalisation and the cache of generated programs. The generator's state is the
  record \<open>CrfGen\<close>; device memory is a map from addresses to byte lists, and the address that the
  memory manager returns for a new program is an argument.
\<close>

section \<open>State\<close>

record CrfGen =
  cmds :: "PimCommand list"
  crf_lut :: "PimOpType \<times> int \<Rightarrow> addr option"
  is_gemv_tile_tree :: bool
  max_crf_size :: nat

definition crf_gen_init :: CrfGen where
  "crf_gen_init = \<lparr>cmds = [], crf_lut = (\<lambda>_. None), is_gemv_tile_tree = True, max_crf_size = 128\<rparr>"

definition set_gemv_tile_tree :: "bool \<Rightarrow> CrfGen \<Rightarrow> CrfGen" where
  "set_gemv_tile_tree b g = g\<lparr>is_gemv_tile_tree := b\<rparr>"

section \<open>Loop counter\<close>

text \<open>
  \<open>(input_size / 16) / sizeof(uint16_t)\<close> is computed in \<open>size_t\<close> and converted back to \<open>int\<close>.
\<close>

definition get_loop_counter :: "PimBlockInfo \<Rightarrow> CrfGen \<Rightarrow> PimOpType \<Rightarrow> int \<Rightarrow> int" where
  "get_loop_counter pbi g op input_size =
    (let num_transaction = i32 ((cdiv input_size 16 mod 2 ^ 64) div 2);
         num_parallelism = num_pim_blocks pbi * num_pim_chan pbi * num_pim_rank pbi * num_grf pbi;
         num_tile = cdiv num_transaction num_parallelism
     in if op = OP_GEMV then
          if is_gemv_tile_tree g
          then cdiv (cdiv (cdiv input_size (trans_size pbi)) (num_grf_A pbi)) 2 - 1
          else cdiv (cdiv input_size (trans_size pbi)) (num_grf_A pbi)
        else cdiv num_tile 2 - 1)"

section \<open>Command lists\<close>

definition elt_cmds :: "PimCmdType \<Rightarrow> PimCommand list" where
  "elt_cmds t =
    [cmd_move FILL GRF_A EVEN_BANK 0 0 0 0 0,
     cmd_alu2 t GRF_A GRF_A EVEN_BANK 1 0 0 0,
     cmd_ctrl NOP 23,
     cmd_move FILL GRF_B ODD_BANK 0 0 0 0 0,
     cmd_alu2 t GRF_B GRF_B ODD_BANK 1 0 0 0,
     cmd_ctrl NOP 23]"

definition fill_cmds :: "int \<Rightarrow> PimCommand list" where
  "fill_cmds relu =
    [cmd_move FILL GRF_A EVEN_BANK 1 0 0 0 relu, cmd_ctrl NOP 15,
     cmd_move FILL GRF_B ODD_BANK 1 0 0 0 relu, cmd_ctrl NOP 15]"

definition gemv_tree_cmds :: "PimCommand list" where
  "gemv_tree_cmds =
    [cmd_alu2 MAC GRF_B GRF_A EVEN_BANK 1 0 0 0, cmd_jump JUMP 7 2, cmd_ctrl NOP 23,
     cmd_alu2 MAC GRF_B GRF_A ODD_BANK 1 0 0 0, cmd_jump JUMP 7 2, cmd_ctrl NOP 23]"

text \<open>\<open>ceil((float)lc / 2)\<close>; halving a float is exact.\<close>

definition half_ceil :: "int \<Rightarrow> int" where
  "half_ceil lc = (if 0 \<le> lc then int (fl_div_ceil (fl_nat (nat lc)) 2)
                   else - int (fl_nat (nat (- lc)) div 2))"

definition gemv_accum_cmds :: "int \<Rightarrow> PimCommand list" where
  "gemv_accum_cmds lc =
    (let even_lc = i32 (8 * half_ceil lc - 1); odd_lc = i32 (8 * cdiv lc 2 - 1)
     in [cmd_alu2 MAC GRF_B GRF_A EVEN_BANK 1 0 0 0, cmd_jump JUMP even_lc 2,
         cmd_alu2 MAC GRF_B GRF_A ODD_BANK 1 0 0 0, cmd_jump JUMP odd_lc 2, cmd_ctrl NOP 23])"

definition bn_cmds :: "PimCommand list" where
  "bn_cmds =
    [cmd_alu3 MAD GRF_A EVEN_BANK SRF_M SRF_A 1 0 0 0, cmd_ctrl NOP 7,
     cmd_alu3 MAD GRF_A GRF_A SRF_M SRF_A 1 0 0 1, cmd_ctrl NOP 7,
     cmd_alu3 MAD GRF_B ODD_BANK SRF_M SRF_A 1 0 0 0, cmd_ctrl NOP 7,
     cmd_alu3 MAD GRF_B GRF_B SRF_M SRF_A 1 0 0 1, cmd_ctrl NOP 23]"

text \<open>
  \<open>create_pim_cmd\<close> assigns the list of a known operation; for \<open>OP_GEMM\<close> and \<open>OP_DUMMY\<close> no
  branch is taken and the previous list stays.
\<close>

definition base_cmds :: "CrfGen \<Rightarrow> PimOpType \<Rightarrow> int \<Rightarrow> PimCommand list" where
  "base_cmds g op lc = (case op of
      OP_ELT_ADD \<Rightarrow> elt_cmds ADD
    | OP_ELT_MUL \<Rightarrow> elt_cmds MUL
    | OP_RELU \<Rightarrow> fill_cmds 1
    | OP_COPY \<Rightarrow> fill_cmds 0
    | OP_GEMV \<Rightarrow> if is_gemv_tile_tree g then gemv_tree_cmds else gemv_accum_cmds lc
    | OP_BN \<Rightarrow> bn_cmds
    | _ \<Rightarrow> cmds g)"

definition create_pim_cmd :: "PimOpType \<Rightarrow> int \<Rightarrow> CrfGen \<Rightarrow> CrfGen" where
  "create_pim_cmd op lc g =
    (let c1 = base_cmds g op lc;
         c2 = (if lc \<noteq> 0 \<and> is_gemv_tile_tree g \<or> op \<noteq> OP_GEMV
               then c1 @ [cmd_jump JUMP lc (int (length c1) + 1)] else c1);
         c3 = c2 @ [cmd_ctrl EXIT 0];
         nop_cnt = 8 - length c3 mod 8
     in g\<lparr>cmds := c3 @ replicate nop_cnt (cmd_ctrl NOP 0)\<rparr>)"

section \<open>Binary image\<close>

text \<open>\<open>memcpy\<close> of a \<open>uint32_t\<close> on the little-endian hosts the library supports.\<close>

definition u32_bytes :: "u32 \<Rightarrow> u8 list" where
  "u32_bytes w = [ucast w, ucast (drop_bit 8 w), ucast (drop_bit 16 w), ucast (drop_bit 24 w)]"

definition bytes_u32 :: "u8 list \<Rightarrow> u32" where
  "bytes_u32 bs = ucast (bs ! 0) OR push_bit 8 (ucast (bs ! 1)) OR push_bit 16 (ucast (bs ! 2))
                  OR push_bit 24 (ucast (bs ! 3))"

text \<open>
  \<open>change_to_binary\<close> writes \<open>4 * size\<close> bytes from the start of the caller's buffer and returns
  that count; a buffer too small for the program is written past its end, which has no value.
\<close>

definition change_to_binary :: "CrfGen \<Rightarrow> u8 list \<Rightarrow> (u8 list \<times> nat) option" where
  "change_to_binary g buf =
    (let bin = concat (map (u32_bytes \<circ> to_int) (cmds g))
     in if length bin \<le> length buf then Some (bin @ drop (length bin) buf, 4 * length (cmds g))
        else None)"

definition gen_binary_with_loop ::
    "PimOpType \<Rightarrow> int \<Rightarrow> u8 list \<Rightarrow> CrfGen \<Rightarrow> (u8 list \<times> nat \<times> CrfGen) option" where
  "gen_binary_with_loop op lc buf g =
    (let g' = create_pim_cmd op lc g
     in case change_to_binary g' buf of None \<Rightarrow> None | Some (b, sz) \<Rightarrow> Some (b, sz, g'))"

section \<open>The program cache\<close>

type_synonym devmem = "addr \<Rightarrow> u8 list option"

text \<open>
  \<open>make_crf_bin\<close>: \<open>d_crf\<close> is the address returned by \<open>alloc_memory\<close> (\<open>None\<close> when it fails and
  leaves the pointer unset) and \<open>h_crf\<close> the fresh host buffer with its indeterminate contents. All
  \<open>max_crf_size\<close> bytes are copied to the device. \<open>std::map::insert\<close> keeps an existing entry.
\<close>

definition make_crf_bin ::
    "PimBlockInfo \<Rightarrow> addr option \<Rightarrow> u8 list \<Rightarrow> PimOpType \<Rightarrow> int \<Rightarrow> CrfGen \<times> devmem
      \<Rightarrow> (addr \<times> CrfGen \<times> devmem) option" where
  "make_crf_bin pbi alloc h_crf op data_size = (\<lambda>(g, mem).
    (case alloc of
       None \<Rightarrow> None
     | Some d_crf \<Rightarrow>
        (case gen_binary_with_loop op (get_loop_counter pbi g op data_size) h_crf g of
           None \<Rightarrow> None
         | Some (bin, crf_size, g1) \<Rightarrow>
             let mem1 = mem(d_crf \<mapsto> take (max_crf_size g1) bin);
                 lut = (if crf_lut g1 (op, data_size) = None
                        then (crf_lut g1)((op, data_size) \<mapsto> d_crf) else crf_lut g1)
             in Some (d_crf, g1\<lparr>crf_lut := lut\<rparr>, mem1))))"

definition find_crf :: "CrfGen \<Rightarrow> PimOpType \<Rightarrow> int \<Rightarrow> addr" where
  "find_crf g op data_size = (case crf_lut g (op, data_size) of Some a \<Rightarrow> a | None \<Rightarrow> 0)"

section \<open>Batch normalisation registers\<close>

text \<open>
  \<open>preprocess_srf\<close>: the half-precision arithmetic of the external \<open>half.hpp\<close> is the argument
  \<open>scale var\<close> and \<open>shift mean var\<close>. The loop keeps \<open>(cidx, rank, burst_idx)\<close>; a burst index of
  8 or more only prints a message. A write outside the buffer has no value.
\<close>

type_synonym 'h srf_fns = "('h \<Rightarrow> 'h) \<times> ('h \<Rightarrow> 'h \<Rightarrow> 'h)"

definition srf_base :: "PimBlockInfo \<Rightarrow> int \<times> int \<times> int \<Rightarrow> int" where
  "srf_base pbi = (\<lambda>(cidx, rank, burst_idx). cidx * num_pim_rank pbi * 16 + rank * 16 + burst_idx)"

definition srf_write ::
    "'h srf_fns \<Rightarrow> int \<Rightarrow> 'h \<times> 'h \<times> 'h \<times> 'h \<Rightarrow> 'h list \<Rightarrow> 'h list option" where
  "srf_write fns base = (\<lambda>(be, ga, me, va) buf.
     Option.bind (arr_set buf base (fst fns va)) (\<lambda>b1.
     Option.bind (arr_set b1 (base + 1) ga) (\<lambda>b2.
     Option.bind (arr_set b2 (base + 8) (snd fns me va)) (\<lambda>b3.
     arr_set b3 (base + 9) be))))"

definition srf_step :: "PimBlockInfo \<Rightarrow> int \<times> int \<times> int \<Rightarrow> int \<times> int \<times> int" where
  "srf_step pbi = (\<lambda>(cidx, rank, burst_idx).
    (let rank1 = rank + 1;
         cidx1 = (if num_pim_rank pbi \<le> rank1 then cidx + 1 else cidx);
         rank2 = (if num_pim_rank pbi \<le> rank1 then 0 else rank1);
         burst2 = (if num_pim_chan pbi \<le> cidx1 then burst_idx + 2 else burst_idx);
         cidx2 = (if num_pim_chan pbi \<le> cidx1 then 0 else cidx1)
     in (cidx2, rank2, burst2)))"

fun srf_loop ::
    "PimBlockInfo \<Rightarrow> 'h srf_fns \<Rightarrow> int \<times> int \<times> int \<Rightarrow> ('h \<times> 'h \<times> 'h \<times> 'h) list \<Rightarrow> 'h list \<Rightarrow> 'h list option" where
  "srf_loop pbi fns st [] buf = Some buf"
| "srf_loop pbi fns st (ch # chs) buf =
     (case srf_write fns (srf_base pbi st) ch buf of
        None \<Rightarrow> None
      | Some buf' \<Rightarrow> srf_loop pbi fns (srf_step pbi st) chs buf')"

text \<open>One entry of \<open>chs\<close> per channel of \<open>beta\<close>: its beta, gamma, mean and variance.\<close>

definition preprocess_srf ::
    "PimBlockInfo \<Rightarrow> 'h srf_fns \<Rightarrow> ('h \<times> 'h \<times> 'h \<times> 'h) list \<Rightarrow> 'h list \<Rightarrow> 'h list option" where
  "preprocess_srf pbi fns chs buf = srf_loop pbi fns (0, 0, 0) chs buf"

section \<open>Lemmas on the command lists\<close>

lemmas cmd_list_defs =
  elt_cmds_def fill_cmds_def gemv_tree_cmds_def gemv_accum_cmds_def bn_cmds_def

definition known_op :: "PimOpType \<Rightarrow> bool" where
  "known_op op \<longleftrightarrow> op \<notin> {OP_GEMM, OP_DUMMY}"

lemma base_cmds_length:
  "known_op op \<Longrightarrow> length (base_cmds g op lc) \<in> {4, 5, 6, 8}"
  by (cases op) (auto simp: known_op_def base_cmds_def cmd_list_defs Let_def)

definition loop_body :: "PimOpType \<Rightarrow> int \<Rightarrow> CrfGen \<Rightarrow> PimCommand list" where
  "loop_body op lc g =
    (if lc \<noteq> 0 \<and> is_gemv_tile_tree g \<or> op \<noteq> OP_GEMV
     then base_cmds g op lc @ [cmd_jump JUMP lc (int (length (base_cmds g op lc)) + 1)]
     else base_cmds g op lc)"

lemma create_pim_cmd_cmds:
  "\<exists>pad. cmds (create_pim_cmd op lc g) = loop_body op lc g @ [cmd_ctrl EXIT 0] @ replicate pad (cmd_ctrl NOP 0)
      \<and> 1 \<le> pad \<and> pad \<le> 8 \<and> (length (loop_body op lc g) + 1 + pad) mod 8 = 0"
proof -
  let ?n = "length (loop_body op lc g) + 1"
  have "cmds (create_pim_cmd op lc g)
      = loop_body op lc g @ [cmd_ctrl EXIT 0] @ replicate (8 - ?n mod 8) (cmd_ctrl NOP 0)"
    by (simp add: create_pim_cmd_def loop_body_def Let_def)
  moreover have "(?n + (8 - ?n mod 8)) mod 8 = 0"
    by (metis add.commute le_add_diff_inverse2 less_imp_le mod_add_left_eq mod_less_divisor mod_self
        zero_less_numeral)
  moreover have "1 \<le> 8 - ?n mod 8" using mod_less_divisor [of 8 ?n] by linarith
  ultimately show ?thesis by (metis diff_le_self)
qed

lemma create_pim_cmd_length:
  assumes "known_op op"
  shows "length (cmds (create_pim_cmd op lc g)) \<in> {8, 16}"
proof -
  have "length (loop_body op lc g) \<in> {4, 5, 6, 7, 8, 9}"
    using base_cmds_length [OF assms, of g lc] by (auto simp: loop_body_def)
  moreover obtain pad where "cmds (create_pim_cmd op lc g)
      = loop_body op lc g @ [cmd_ctrl EXIT 0] @ replicate pad (cmd_ctrl NOP 0)"
    "1 \<le> pad" "pad \<le> 8" "(length (loop_body op lc g) + 1 + pad) mod 8 = 0"
    using create_pim_cmd_cmds [of op lc g] by (elim exE conjE) (rule that)
  ultimately show ?thesis by (auto, presburger+)
qed

section \<open>Lemmas on the binary image\<close>

fun words_of :: "u8 list \<Rightarrow> u32 list" where
  "words_of (a # b # c # d # bs) = bytes_u32 [a, b, c, d] # words_of bs"
| "words_of _ = []"

lemma bytes_u32_of_bytes: "bytes_u32 (u32_bytes w) = w"
proof (rule bit_word_eqI)
  fix n :: nat
  assume "n < LENGTH(32)"
  then consider "n < 8" | "8 \<le> n" "n < 16" | "16 \<le> n" "n < 24" | "24 \<le> n" "n < 32"
    by fastforce
  then show "bit (bytes_u32 (u32_bytes w)) n \<longleftrightarrow> bit w n"
    by cases (auto simp: bytes_u32_def u32_bytes_def bit_simps)
qed

lemma length_u32_bytes [simp]: "length (u32_bytes w) = 4"
  by (simp add: u32_bytes_def)

lemma words_of_u32_bytes: "words_of (u32_bytes w @ bs) = w # words_of bs"
  using bytes_u32_of_bytes [of w] by (simp add: u32_bytes_def)

lemma words_of_concat: "words_of (concat (map u32_bytes ws)) = ws"
  by (induction ws) (simp_all add: words_of_u32_bytes)

lemma length_concat_words [simp]: "length (concat (map u32_bytes ws)) = 4 * length ws"
  by (induction ws) simp_all

lemma length_image [simp]: "length (concat (map (u32_bytes \<circ> f) xs)) = 4 * length xs"
  by (induction xs) simp_all

text \<open>The command list a program image in memory stands for, as the crf decoder reads it.\<close>

definition decode_image :: "u8 list \<Rightarrow> PimCommand list" where
  "decode_image bs = map (from_int cmd_default) (words_of bs)"

lemma decode_words: "map (from_int cmd_default) (map to_int cs) = map canonical cs"
  by (simp add: decode_encode)

lemma change_to_binary_decode:
  assumes "change_to_binary g buf = Some (b, sz)"
  shows "decode_image (take sz b) = map canonical (cmds g)" "drop sz b = drop sz buf"
    "length b = length buf"
  using assms
  by (auto simp: change_to_binary_def Let_def decode_image_def decode_words words_of_concat
      simp flip: map_map split: if_splits)

lemma change_to_binary_fits:
  assumes "4 * length (cmds g) \<le> length buf"
  shows "\<exists>b. change_to_binary g buf = Some (b, 4 * length (cmds g))"
  using assms by (simp add: change_to_binary_def Let_def)

lemma gen_binary_with_loop_ok:
  assumes "known_op op" "64 \<le> length buf"
  shows "\<exists>b g'. gen_binary_with_loop op lc buf g = Some (b, 4 * length (cmds g'), g')
            \<and> g' = create_pim_cmd op lc g \<and> 4 * length (cmds g') \<in> {32, 64}
            \<and> length b = length buf"
proof -
  let ?g = "create_pim_cmd op lc g"
  have len: "4 * length (cmds ?g) \<in> {32, 64}" using create_pim_cmd_length [OF assms(1), of lc g] by auto
  with assms(2) have "4 * length (cmds ?g) \<le> length buf" by auto
  from change_to_binary_fits [OF this] obtain b
    where b: "change_to_binary ?g buf = Some (b, 4 * length (cmds ?g))" by blast
  show ?thesis using b len change_to_binary_decode(3) [OF b]
    by (simp add: gen_binary_with_loop_def Let_def)
qed

text \<open>C24: For every operation the generator knows, the program written to a buffer of at least 64
  bytes fits, occupies a multiple of eight commands, and decodes command by command to the canonical
  form of the generated list; the bytes behind it are untouched.\<close>

theorem crf_image_roundtrip:
  assumes "known_op op" "64 \<le> length buf"
  shows "\<exists>b sz g'. gen_binary_with_loop op lc buf g = Some (b, sz, g')
           \<and> decode_image (take sz b) = map canonical (cmds g')
           \<and> length (cmds g') mod 8 = 0 \<and> sz \<le> 64
           \<and> length b = length buf \<and> drop sz b = drop sz buf"
proof -
  obtain b where b: "gen_binary_with_loop op lc buf g
      = Some (b, 4 * length (cmds (create_pim_cmd op lc g)), create_pim_cmd op lc g)"
    and len: "4 * length (cmds (create_pim_cmd op lc g)) \<in> {32, 64}"
    using gen_binary_with_loop_ok [OF assms, of lc g] by blast
  then have "change_to_binary (create_pim_cmd op lc g) buf
               = Some (b, 4 * length (cmds (create_pim_cmd op lc g)))"
    by (simp add: gen_binary_with_loop_def Let_def split: option.splits prod.splits)
  note change_to_binary_decode [OF this]
  with b len show ?thesis by auto
qed

lemma crf_image_roundtrip_witness:
  "\<exists>b sz g'. gen_binary_with_loop OP_ELT_ADD 3 (replicate 128 0) crf_gen_init = Some (b, sz, g')
           \<and> decode_image (take sz b) = map canonical (cmds g')
           \<and> length (cmds g') mod 8 = 0 \<and> sz \<le> 64
           \<and> length b = length (replicate 128 (0::u8)) \<and> drop sz b = drop sz (replicate 128 0)"
  by (rule crf_image_roundtrip) (simp_all add: known_op_def)

text \<open>The command a jump at index \<open>i\<close> returns to, as the validation checker of the tools reads it.\<close>

definition jump_target :: "nat \<Rightarrow> PimCommand \<Rightarrow> int" where
  "jump_target i c = int i - loop_offset c + 1"

text \<open>The program of an element-wise operation is its command block, then a jump whose target
  (the counter minus the offset, plus one) is command 0 and whose repeat count is the loop counter,
  then \<open>EXIT\<close> and padding \<open>NOP\<close>s: the block is the loop body.\<close>

theorem crf_program_loops_block:
  assumes "known_op op" "op \<noteq> OP_GEMV \<or> lc \<noteq> 0 \<and> is_gemv_tile_tree g"
  shows "\<exists>block pad. cmds (create_pim_cmd op lc g)
           = block @ [cmd_jump JUMP lc (int (length block) + 1), cmd_ctrl EXIT 0] @ replicate pad (cmd_ctrl NOP 0)
           \<and> block = base_cmds g op lc
           \<and> jump_target (length block) (cmds (create_pim_cmd op lc g) ! length block) = 0
           \<and> 1 \<le> pad \<and> pad \<le> 8 \<and> (\<forall>c \<in> set block. cmd_type c \<noteq> EXIT)"
proof -
  have "\<forall>c \<in> set (base_cmds g op lc). cmd_type c \<noteq> EXIT"
    using assms(1) by (cases op) (auto simp: known_op_def base_cmds_def cmd_list_defs cmd_ctor_defs Let_def)
  moreover obtain pad where "cmds (create_pim_cmd op lc g) = base_cmds g op lc
      @ [cmd_jump JUMP lc (int (length (base_cmds g op lc)) + 1), cmd_ctrl EXIT 0] @ replicate pad (cmd_ctrl NOP 0)"
      and "1 \<le> pad" "pad \<le> 8"
    using assms(2) create_pim_cmd_cmds [of op lc g] by (auto simp: loop_body_def)
  ultimately show ?thesis by (auto simp: jump_target_def cmd_jump_def)
qed

lemma crf_program_loops_block_witness:
  "\<exists>block pad. cmds (create_pim_cmd OP_RELU 5 crf_gen_init)
           = block @ [cmd_jump JUMP 5 (int (length block) + 1), cmd_ctrl EXIT 0] @ replicate pad (cmd_ctrl NOP 0)
           \<and> block = base_cmds crf_gen_init OP_RELU 5
           \<and> jump_target (length block) (cmds (create_pim_cmd OP_RELU 5 crf_gen_init) ! length block) = 0
           \<and> 1 \<le> pad \<and> pad \<le> 8 \<and> (\<forall>c \<in> set block. cmd_type c \<noteq> EXIT)"
  by (rule crf_program_loops_block) (simp_all add: known_op_def)

section \<open>The cache invariant\<close>

text \<open>
  The program that belongs to a cache key depends only on the key and the tile mode. The cache is
  well formed when every address it holds carries the image of its key's program.
\<close>

definition crf_program :: "PimBlockInfo \<Rightarrow> bool \<Rightarrow> PimOpType \<Rightarrow> int \<Rightarrow> PimCommand list" where
  "crf_program pbi tree op sz =
    (let g = set_gemv_tile_tree tree crf_gen_init
     in cmds (create_pim_cmd op (get_loop_counter pbi g op sz) g))"

definition holds_program :: "PimBlockInfo \<Rightarrow> bool \<Rightarrow> devmem \<Rightarrow> addr \<Rightarrow> PimOpType \<Rightarrow> int \<Rightarrow> bool" where
  "holds_program pbi tree mem a op sz \<longleftrightarrow>
    (case mem a of
       None \<Rightarrow> False
     | Some img \<Rightarrow> decode_image (take (4 * length (crf_program pbi tree op sz)) img)
                    = map canonical (crf_program pbi tree op sz))"

definition crf_cache_ok :: "PimBlockInfo \<Rightarrow> CrfGen \<Rightarrow> devmem \<Rightarrow> bool" where
  "crf_cache_ok pbi g mem \<longleftrightarrow>
    (\<forall>op sz a. crf_lut g (op, sz) = Some a \<longrightarrow> holds_program pbi (is_gemv_tile_tree g) mem a op sz)"

lemma loop_counter_indep:
  "get_loop_counter pbi g op sz
     = get_loop_counter pbi (set_gemv_tile_tree (is_gemv_tile_tree g) crf_gen_init) op sz"
  by (simp add: get_loop_counter_def set_gemv_tile_tree_def)

lemma create_pim_cmd_indep:
  "known_op op \<Longrightarrow> cmds (create_pim_cmd op lc g)
     = cmds (create_pim_cmd op lc (set_gemv_tile_tree (is_gemv_tile_tree g) crf_gen_init))"
  by (cases op) (simp_all add: known_op_def create_pim_cmd_def base_cmds_def set_gemv_tile_tree_def Let_def)

lemma create_pim_cmd_frame [simp]:
  "crf_lut (create_pim_cmd op lc g) = crf_lut g"
  "is_gemv_tile_tree (create_pim_cmd op lc g) = is_gemv_tile_tree g"
  "max_crf_size (create_pim_cmd op lc g) = max_crf_size g"
  by (simp_all add: create_pim_cmd_def Let_def)

lemma make_crf_bin_result:
  assumes "known_op op" "length h_crf = max_crf_size g" "64 \<le> max_crf_size g"
    "crf_lut g (op, sz) = None"
  shows "\<exists>img g'. make_crf_bin pbi (Some d) h_crf op sz (g, mem) = Some (d, g', mem(d \<mapsto> img))
      \<and> crf_lut g' = (crf_lut g)((op, sz) \<mapsto> d) \<and> is_gemv_tile_tree g' = is_gemv_tile_tree g
      \<and> max_crf_size g' = max_crf_size g \<and> length img = max_crf_size g
      \<and> holds_program pbi (is_gemv_tile_tree g) (mem(d \<mapsto> img)) d op sz"
proof -
  let ?lc = "get_loop_counter pbi g op sz"
  obtain b where b: "gen_binary_with_loop op ?lc h_crf g
      = Some (b, 4 * length (cmds (create_pim_cmd op ?lc g)), create_pim_cmd op ?lc g)"
    and len: "length b = length h_crf"
    using gen_binary_with_loop_ok [OF assms(1), of h_crf ?lc g] assms(2,3) by auto
  then have "change_to_binary (create_pim_cmd op ?lc g) h_crf
               = Some (b, 4 * length (cmds (create_pim_cmd op ?lc g)))"
    by (simp add: gen_binary_with_loop_def Let_def split: option.splits prod.splits)
  note dec = change_to_binary_decode(1) [OF this]
  have "crf_program pbi (is_gemv_tile_tree g) op sz = cmds (create_pim_cmd op ?lc g)"
    using create_pim_cmd_indep [OF assms(1), of ?lc g] loop_counter_indep [of pbi g op sz]
    by (simp add: crf_program_def Let_def)
  with dec b len assms show ?thesis
    by (auto simp: make_crf_bin_def holds_program_def Let_def)
qed

text \<open>Generating a program for a missing key keeps the cache well formed, provided the device
  address is fresh: the new key is found at the new address and every other key where it was.\<close>

theorem make_crf_bin_cache:
  assumes "known_op op" "length h_crf = max_crf_size g" "64 \<le> max_crf_size g"
    "crf_lut g (op, sz) = None" "crf_cache_ok pbi g mem" "d \<notin> ran (crf_lut g)"
  shows "\<exists>g' mem'. make_crf_bin pbi (Some d) h_crf op sz (g, mem) = Some (d, g', mem')
      \<and> find_crf g' op sz = d \<and> holds_program pbi (is_gemv_tile_tree g') mem' d op sz
      \<and> crf_cache_ok pbi g' mem'
      \<and> (\<forall>op' sz'. (op', sz') \<noteq> (op, sz) \<longrightarrow> find_crf g' op' sz' = find_crf g op' sz')"
proof -
  obtain img g' where m: "make_crf_bin pbi (Some d) h_crf op sz (g, mem) = Some (d, g', mem(d \<mapsto> img))"
    and lut: "crf_lut g' = (crf_lut g)((op, sz) \<mapsto> d)"
    and tree: "is_gemv_tile_tree g' = is_gemv_tile_tree g"
    and new: "holds_program pbi (is_gemv_tile_tree g) (mem(d \<mapsto> img)) d op sz"
    using make_crf_bin_result [OF assms(1-4)] by blast
  have "a \<noteq> d" if "crf_lut g k = Some a" for k a
    using assms(6) that by (cases k) (auto simp: ran_def)
  then have "crf_cache_ok pbi g' (mem(d \<mapsto> img))"
    using assms(5) new lut tree by (auto simp: crf_cache_ok_def holds_program_def)
  with m lut new tree show ?thesis by (auto simp: find_crf_def)
qed

lemma make_crf_bin_cache_witness:
  "\<exists>g' mem'. make_crf_bin vega20_pbi (Some 4096) (replicate 128 0) OP_RELU 524288 (crf_gen_init, \<lambda>_. None)
        = Some (4096, g', mem')
      \<and> find_crf g' OP_RELU 524288 = 4096
      \<and> holds_program vega20_pbi (is_gemv_tile_tree g') mem' 4096 OP_RELU 524288
      \<and> crf_cache_ok vega20_pbi g' mem'
      \<and> (\<forall>op' sz'. (op', sz') \<noteq> (OP_RELU, 524288) \<longrightarrow> find_crf g' op' sz' = find_crf crf_gen_init op' sz')"
  by (rule make_crf_bin_cache) (simp_all add: known_op_def crf_gen_init_def crf_cache_ok_def)

section \<open>Loop counters\<close>

lemma loop_counter_elt:
  assumes "op \<noteq> OP_GEMV" "0 \<le> n" "n < 2 ^ 31"
  shows "get_loop_counter vega20_pbi g op n = n div 262144 - 1"
proof -
  have r: "0 \<le> n div 16 div 2" "n div 16 div 2 < 2 ^ 31" "0 \<le> n div 16" "n div 16 < 2 ^ 64"
    using assms by auto
  have d: "n div 16 div 2 div 4096 div 2 = n div 262144"
    by (simp only: zdiv_zmult2_eq [symmetric]) simp
  have "get_loop_counter vega20_pbi g op n
      = cdiv (cdiv (i32 ((cdiv n 16 mod 2 ^ 64) div 2)) 4096) 2 - 1"
    using assms(1) by (simp add: get_loop_counter_def Let_def)
  also have "cdiv n 16 mod 2 ^ 64 = n div 16"
    using assms r by (simp only: cdiv_nonneg mod_pos_pos_trivial)
  also have "i32 (n div 16 div 2) = n div 16 div 2" using r by (intro i32_id) (simp add: i32_range_def)
  also have "cdiv (n div 16 div 2) 4096 = n div 16 div 2 div 4096"
    using r(1) by (intro cdiv_nonneg) simp_all
  also have "cdiv (n div 16 div 2 div 4096) 2 = n div 16 div 2 div 4096 div 2"
    using r(1) by (intro cdiv_nonneg) simp_all
  also note d
  finally show ?thesis .
qed

lemma loop_counter_gemv_tree:
  assumes "0 \<le> n" "is_gemv_tile_tree g"
  shows "get_loop_counter vega20_pbi g OP_GEMV n = n div 512 - 1"
proof -
  have "n div 32 div 8 div 2 = n div 512" by (simp flip: zdiv_zmult2_eq)
  then show ?thesis using assms by (simp add: get_loop_counter_def Let_def cint_simps)
qed

lemma loop_counter_gemv_accum:
  assumes "0 \<le> n" "\<not> is_gemv_tile_tree g"
  shows "get_loop_counter vega20_pbi g OP_GEMV n = n div 256"
proof -
  have "n div 32 div 8 = n div 256" by (simp flip: zdiv_zmult2_eq)
  then show ?thesis using assms by (simp add: get_loop_counter_def Let_def cint_simps)
qed

text \<open>The repeat count a program image carries: the decoded counter of its final jump.\<close>

definition image_repeat :: "CrfGen \<Rightarrow> PimOpType \<Rightarrow> int \<Rightarrow> int" where
  "image_repeat g op lc = loop_counter (canonical (cmds (create_pim_cmd op lc g) ! length (base_cmds g op lc)))"

lemma image_repeat_elt:
  assumes "op \<noteq> OP_GEMV"
  shows "image_repeat g op lc = lc mod 2 ^ 17"
  using assms by (simp add: image_repeat_def create_pim_cmd_def Let_def nth_append canonical_def cmd_jump_def)

text \<open>An element-wise program over \<open>n\<close> bytes repeats its block once per 256-KiB unit when the
  buffer holds at least one unit and at most \<open>2 ^ 17\<close> of them: the jump's encoded 17-bit counter is
  the number of units minus one.\<close>

theorem elt_repeat_count:
  assumes "op \<noteq> OP_GEMV" "262144 \<le> n" "n < 2 ^ 31"
  shows "image_repeat g op (get_loop_counter vega20_pbi g op n) + 1 = n div 262144"
proof -
  have "n div 262144 - 1 < 2 ^ 17" "1 \<le> n div 262144" using assms by auto
  then show ?thesis using loop_counter_elt [of op n g] assms
    by (simp add: image_repeat_elt)
qed

lemma elt_repeat_count_witness:
  "image_repeat crf_gen_init OP_ELT_ADD (get_loop_counter vega20_pbi crf_gen_init OP_ELT_ADD 1048576) + 1
     = 1048576 div 262144"
  by (rule elt_repeat_count) simp_all

text \<open>A buffer smaller than one 256-KiB unit gets the loop counter -1, which the 17-bit field of
  the jump encodes as 131071 repetitions instead of none.\<close>

theorem elt_repeat_underflow:
  assumes "op \<noteq> OP_GEMV" "0 \<le> n" "n < 262144"
  shows "get_loop_counter vega20_pbi g op n = -1
    \<and> image_repeat g op (get_loop_counter vega20_pbi g op n) = 131071"
  using assms by (simp_all add: loop_counter_elt image_repeat_elt)

lemma elt_repeat_underflow_witness:
  "get_loop_counter vega20_pbi crf_gen_init OP_RELU 1024 = -1
   \<and> image_repeat crf_gen_init OP_RELU (get_loop_counter vega20_pbi crf_gen_init OP_RELU 1024) = 131071"
  by (rule elt_repeat_underflow) simp_all

section \<open>The SRF image\<close>

text \<open>Slot \<open>o\<close> (scale 0, gamma 1, shift 8, beta 9) of channel \<open>i\<close> in the 64-channel geometry.\<close>

definition srf_slot :: "nat \<Rightarrow> nat \<Rightarrow> nat" where
  "srf_slot i k = 16 * (i mod 64) + 2 * (i div 64) + k"

definition srf_state :: "nat \<Rightarrow> int \<times> int \<times> int" where
  "srf_state i = (int (i mod 64), 0, 2 * int (i div 64))"

lemma srf_base_state: "srf_base vega20_pbi (srf_state i) = int (srf_slot i 0)"
  by (simp add: srf_base_def srf_state_def srf_slot_def)

lemma srf_step_state: "srf_step vega20_pbi (srf_state i) = srf_state (Suc i)"
proof (cases "Suc i mod 64 = 0")
  case True
  then have m: "i mod 64 = 63" by (simp add: mod_Suc split: if_splits)
  have d: "Suc i div 64 = Suc (i div 64)" using True by (subst div_Suc) simp
  have "srf_state i = (63, 0, 2 * int (i div 64))" by (simp add: srf_state_def m)
  moreover have "srf_state (Suc i) = (0, 0, 2 * int (i div 64) + 2)"
    by (simp only: srf_state_def True d) simp
  ultimately show ?thesis by (simp add: srf_step_def Let_def)
next
  case False
  then have "i mod 64 \<noteq> 63" "Suc i mod 64 = Suc (i mod 64)" by (auto simp: mod_Suc)
  moreover have "i mod 64 < 64" by simp
  ultimately have m: "i mod 64 < 63" "Suc i mod 64 = Suc (i mod 64)" "Suc i div 64 = i div 64"
    using False by (linarith, simp, subst div_Suc, simp)
  have "srf_state (Suc i) = (int (i mod 64) + 1, 0, 2 * int (i div 64))"
    by (simp only: srf_state_def m) simp
  then show ?thesis using m(1) by (simp add: srf_step_def srf_state_def Let_def)
qed

lemma srf_slot_chan:
  assumes "i < 256" "k \<in> {0, 1, 8, 9}"
  shows "srf_slot i k mod 8 div 2 * 64 + srf_slot i k div 16 = i"
proof -
  define q r where "q = i div 64" and "r = i mod 64"
  have i: "i = 64 * q + r" and q: "q \<in> {0, 1, 2, 3}" and r: "r < 64"
    using assms(1) by (auto simp: q_def r_def)
  define c where "c = 2 * q + k"
  have s: "srf_slot i k = c + r * 16" by (simp add: srf_slot_def q_def r_def c_def)
  have c: "c < 16" "c mod 8 div 2 = q" using q assms(2) by (auto simp: c_def)
  have "(c + r * 16) div 16 = r" using c(1) by simp
  moreover have "(c + r * 16) mod 8 = c mod 8"
    using mod_mult_self1 [of c "2 * r" 8] by (simp add: mult.commute)
  ultimately show ?thesis unfolding s using i c(2) by simp
qed

lemma srf_slot_inj:
  assumes "i < 256" "j < 256" "k \<in> {0, 1, 8, 9}" "l \<in> {0, 1, 8, 9}" "srf_slot i k = srf_slot j l"
  shows "i = j \<and> k = l"
proof -
  have "i = j" using srf_slot_chan [OF assms(1,3)] srf_slot_chan [OF assms(2,4)] assms(5) by simp
  with assms(5) show ?thesis by (simp add: srf_slot_def)
qed

lemma srf_slot_bound: "i < 256 \<Longrightarrow> k \<le> 9 \<Longrightarrow> srf_slot i k < 1024"
proof -
  assume "i < 256" "k \<le> 9"
  then have "i mod 64 \<le> 63" "i div 64 \<le> 3" by auto
  with \<open>k \<le> 9\<close> show ?thesis by (simp add: srf_slot_def)
qed

text \<open>What a channel leaves in the image.\<close>

definition srf_chan_ok :: "'h srf_fns \<Rightarrow> 'h list \<Rightarrow> nat \<Rightarrow> 'h \<times> 'h \<times> 'h \<times> 'h \<Rightarrow> bool" where
  "srf_chan_ok fns buf i = (\<lambda>(be, ga, me, va).
     buf ! srf_slot i 0 = fst fns va \<and> buf ! srf_slot i 1 = ga
     \<and> buf ! srf_slot i 8 = snd fns me va \<and> buf ! srf_slot i 9 = be)"

lemma srf_write_ok:
  assumes "i < 256" "length buf = 1024"
  shows "\<exists>b. srf_write fns (int (srf_slot i 0)) ch buf = Some b \<and> length b = 1024
      \<and> srf_chan_ok fns b i ch
      \<and> (\<forall>j < 1024. j \<notin> srf_slot i ` {0, 1, 8, 9} \<longrightarrow> b ! j = buf ! j)"
proof -
  have s: "int (srf_slot i 0) + int k = int (srf_slot i k)" for k by (simp add: srf_slot_def)
  have s': "int (srf_slot i 0) + 1 = int (srf_slot i 1)" "int (srf_slot i 0) + 8 = int (srf_slot i 8)"
    "int (srf_slot i 0) + 9 = int (srf_slot i 9)"
    using s [of 1] s [of 8] s [of 9] by simp_all
  have b: "srf_slot i 0 < 1024" "srf_slot i 1 < 1024" "srf_slot i 8 < 1024" "srf_slot i 9 < 1024"
    using srf_slot_bound [OF assms(1)] by simp_all
  have d: "srf_slot i k = srf_slot i l \<longleftrightarrow> k = l" for k l by (simp add: srf_slot_def)
  show ?thesis using b assms(2)
    by (cases ch) (simp add: srf_write_def srf_chan_ok_def arr_set_def nth_list_update d s' del: One_nat_def)
qed

lemma srf_loop_ok:
  assumes "k + length chs \<le> 256" "length buf = 1024"
  shows "\<exists>b. srf_loop vega20_pbi fns (srf_state k) chs buf = Some b \<and> length b = 1024
      \<and> (\<forall>i < length chs. srf_chan_ok fns b (k + i) (chs ! i))
      \<and> (\<forall>j < 1024. (\<forall>i < length chs. j \<notin> srf_slot (k + i) ` {0, 1, 8, 9}) \<longrightarrow> b ! j = buf ! j)"
  using assms
proof (induction chs arbitrary: k buf)
  case (Cons ch chs)
  have k: "k < 256" using Cons.prems by simp
  obtain b where b: "srf_write fns (int (srf_slot k 0)) ch buf = Some b" "length b = 1024"
      "srf_chan_ok fns b k ch" "\<forall>j < 1024. j \<notin> srf_slot k ` {0, 1, 8, 9} \<longrightarrow> b ! j = buf ! j"
    using srf_write_ok [OF k Cons.prems(2)] by blast
  obtain b' where b': "srf_loop vega20_pbi fns (srf_state (Suc k)) chs b = Some b'" "length b' = 1024"
      "\<forall>i < length chs. srf_chan_ok fns b' (Suc k + i) (chs ! i)"
      "\<forall>j < 1024. (\<forall>i < length chs. j \<notin> srf_slot (Suc k + i) ` {0, 1, 8, 9}) \<longrightarrow> b' ! j = b ! j"
    using Cons.IH [of "Suc k" b] Cons.prems(1) b(2) by auto
  have keep: "b' ! srf_slot k s = b ! srf_slot k s" if "s \<in> {0, 1, 8, 9}" for s
  proof -
    have "\<forall>i < length chs. srf_slot k s \<notin> srf_slot (Suc k + i) ` {0, 1, 8, 9}"
    proof (intro allI impI notI)
      fix i assume "i < length chs" "srf_slot k s \<in> srf_slot (Suc k + i) ` {0, 1, 8, 9}"
      then obtain l where l: "l \<in> {0, 1, 8, 9}" "srf_slot k s = srf_slot (Suc k + i) l" by blast
      have "Suc k + i < 256" using \<open>i < length chs\<close> Cons.prems(1) by simp
      from srf_slot_inj [OF k this that l] show False by simp
    qed
    moreover have "srf_slot k s < 1024" using that by (intro srf_slot_bound k) auto
    ultimately show ?thesis using b'(4) by blast
  qed
  have "srf_chan_ok fns b' k ch"
    using b(3) keep by (cases ch) (simp add: srf_chan_ok_def)
  then have "\<forall>i < length (ch # chs). srf_chan_ok fns b' (k + i) ((ch # chs) ! i)"
    using b'(3) by (auto simp: less_Suc_eq_0_disj)
  moreover have "b' ! j = buf ! j"
    if "j < 1024" "\<forall>i < length (ch # chs). j \<notin> srf_slot (k + i) ` {0, 1, 8, 9}" for j
  proof -
    have "j \<notin> srf_slot k ` {0, 1, 8, 9}" using that(2) [rule_format, of 0] by simp
    moreover have "\<forall>i < length chs. j \<notin> srf_slot (Suc k + i) ` {0, 1, 8, 9}"
      using that(2) by (metis Suc_less_eq add_Suc_shift length_Cons)
    ultimately show ?thesis using that(1) b(4) b'(4) by metis
  qed
  ultimately show ?case using b(1) b'(1,2)
    by (simp add: srf_base_state srf_step_state)
qed simp

text \<open>C28: For up to 256 channels the SRF image of batch normalisation holds, for every channel, its
  scale, gamma, shift and beta at the channel's own slots: no channel overwrites another's and no
  write leaves the buffer of the 64-channel device.\<close>

theorem preprocess_srf_ok:
  assumes "length chs \<le> 256" "length buf = 1024"
  shows "\<exists>b. preprocess_srf vega20_pbi fns chs buf = Some b \<and> length b = 1024
      \<and> (\<forall>i < length chs. srf_chan_ok fns b i (chs ! i))"
  using srf_loop_ok [of 0 chs buf fns] assms by (auto simp: preprocess_srf_def srf_state_def)

definition srf_example :: "(int \<times> int \<times> int \<times> int) list" where
  "srf_example = [(1, 2, 3, 4), (5, 6, 7, 8)]"

lemma preprocess_srf_ok_witness:
  "\<exists>b. preprocess_srf vega20_pbi (\<lambda>v. v + 1, \<lambda>m v. m - v) srf_example (replicate 1024 0)
         = Some b \<and> length b = 1024
      \<and> (\<forall>i < length srf_example. srf_chan_ok (\<lambda>v. v + 1, \<lambda>m v. m - v) b i (srf_example ! i))"
  by (rule preprocess_srf_ok) (simp_all add: srf_example_def)

lemma srf_loop_append:
  "srf_loop vega20_pbi fns (srf_state k) (xs @ ys) buf
     = Option.bind (srf_loop vega20_pbi fns (srf_state k) xs buf)
         (srf_loop vega20_pbi fns (srf_state (k + length xs)) ys)"
  by (induction xs arbitrary: k buf) (simp_all add: srf_step_state split: option.splits)

text \<open>The 257th channel has no slot of its own: its scale replaces the shift of channel 0, and the
  loop goes on after printing a message.\<close>

theorem preprocess_srf_clobbers:
  assumes "length xs = 256" "length buf = 1024"
  shows "\<exists>b. preprocess_srf vega20_pbi fns (xs @ [(be, ga, me, va)]) buf = Some b
      \<and> b ! srf_slot 0 8 = fst fns va"
proof -
  obtain b where b: "srf_loop vega20_pbi fns (srf_state 0) xs buf = Some b" "length b = 1024"
    using srf_loop_ok [of 0 xs buf fns] assms by auto
  have st: "srf_base vega20_pbi (srf_state 256) = 8" by (simp add: srf_base_def srf_state_def)
  have s0: "srf_state 0 = (0, 0, 0)" by (simp add: srf_state_def)
  have "preprocess_srf vega20_pbi fns (xs @ [(be, ga, me, va)]) buf
      = srf_loop vega20_pbi fns (srf_state 256) [(be, ga, me, va)] b"
    unfolding preprocess_srf_def s0 [symmetric] by (simp add: srf_loop_append b(1) assms(1))
  then show ?thesis using b(2) by (simp add: st srf_write_def srf_slot_def)
qed

definition srf_example_fns :: "int srf_fns" where
  "srf_example_fns = (\<lambda>v. v + 1, \<lambda>m v. m - v)"

lemma preprocess_srf_clobbers_witness:
  "\<exists>b. preprocess_srf vega20_pbi srf_example_fns (replicate 256 (0, 0, 0, 0) @ [(1, 2, 3, 6)]) (replicate 1024 0)
      = Some b \<and> b ! srf_slot 0 8 = fst srf_example_fns 6"
  by (rule preprocess_srf_clobbers) simp_all

end
