(* ===== verification/TraceCoalesce.thy ===== *)
theory TraceCoalesce
  imports PimTypes
begin

text \<open>
  The trace coalescer of the emulator (\<open>runtime/source/emulator/PimTraceCoalescer.cpp\<close>): it turns a
  trace of 16-byte accesses into one of 32-byte accesses by joining neighbours on the same line. The
  output array is a list of fixed length; an access outside it is \<open>None\<close>. An abstract trace of
  barriers and complete lines says what the coalescer promises.
\<close>

section \<open>Trace entries\<close>

record PimMemTraceData =
  tr_data :: "u8 list"
  tr_addr :: u64
  tr_block :: int
  tr_thread :: int
  tr_cmd :: char

text \<open>\<open>MASK\<close> is an \<open>int\<close>; it is sign-extended when it meets an address.\<close>

definition MASK :: u64 where
  "MASK = NOT 0x1F"

text \<open>\<open>memcpy\<close> of 16 bytes to the lower or the upper half of an entry's 32-byte array.\<close>

definition put_lo :: "u8 list \<Rightarrow> u8 list \<Rightarrow> u8 list" where
  "put_lo src dst = take 16 src @ drop 16 dst"

definition put_hi :: "u8 list \<Rightarrow> u8 list \<Rightarrow> u8 list" where
  "put_hi src dst = take 16 dst @ take 16 src @ drop 32 dst"

text \<open>An entry of block 0 and thread 0.\<close>

definition trace_entry :: "char \<Rightarrow> u64 \<Rightarrow> u8 list \<Rightarrow> PimMemTraceData" where
  "trace_entry k a d = \<lparr>tr_data = d, tr_addr = a, tr_block = 0, tr_thread = 0, tr_cmd = k\<rparr>"

section \<open>The coalescer\<close>

record CoState =
  fmtd32 :: "PimMemTraceData list"
  co_it :: int
  prev_addr :: u64
  prev_cmd :: char

definition upd :: "int \<Rightarrow> (PimMemTraceData \<Rightarrow> PimMemTraceData) \<Rightarrow> CoState \<Rightarrow> CoState option" where
  "upd i f s = Option.bind (arr_get (fmtd32 s) i) (\<lambda>e.
     map_option (\<lambda>xs. s\<lparr>fmtd32 := xs\<rparr>) (arr_set (fmtd32 s) i (f e)))"

definition coalesced_update :: "PimMemTraceData \<Rightarrow> char \<Rightarrow> CoState \<Rightarrow> CoState option" where
  "coalesced_update t cmd s =
     map_option (\<lambda>s'. s'\<lparr>co_it := co_it s' + 1, prev_addr := tr_addr t AND MASK\<rparr>)
       (upd (co_it s) (\<lambda>e. e\<lparr>tr_cmd := cmd, tr_block := tr_block t, tr_thread := tr_thread t,
          tr_addr := tr_addr t\<rparr>) s)"

definition co_barrier :: "PimMemTraceData \<Rightarrow> CoState \<Rightarrow> CoState option" where
  "co_barrier t s =
     map_option (\<lambda>s'. s'\<lparr>co_it := co_it s' + 1, prev_addr := - 1, prev_cmd := CHR ''B''\<rparr>)
       (upd (co_it s) (\<lambda>e. e\<lparr>tr_cmd := CHR ''B'', tr_block := tr_block t, tr_thread := tr_thread t,
          tr_addr := 0\<rparr>) s)"

text \<open>The cases \<open>'R'\<close> and \<open>'O'\<close> differ in the letter only.\<close>

definition co_read :: "char \<Rightarrow> PimMemTraceData \<Rightarrow> CoState \<Rightarrow> CoState option" where
  "co_read k t s =
    map_option (\<lambda>s'. s'\<lparr>prev_cmd := k\<rparr>)
     (if prev_addr s \<noteq> - 1 \<and> prev_cmd s = k then
        if prev_addr s = (tr_addr t AND MASK) then
          Option.bind (arr_get (fmtd32 s) (co_it s - 1)) (\<lambda>e.
            if tr_addr t < tr_addr e
            then upd (co_it s - 1) (\<lambda>e. e\<lparr>tr_thread := tr_thread t, tr_addr := tr_addr t AND MASK\<rparr>) s
            else Some s)
        else coalesced_update t k s
      else coalesced_update t k s)"

definition co_write :: "PimMemTraceData \<Rightarrow> CoState \<Rightarrow> CoState option" where
  "co_write t s =
    map_option (\<lambda>s'. s'\<lparr>prev_cmd := CHR ''W''\<rparr>)
     (if prev_addr s \<noteq> - 1 \<and> prev_cmd s = CHR ''W'' then
        if prev_addr s = (tr_addr t AND MASK) then
          Option.bind (arr_get (fmtd32 s) (co_it s - 1)) (\<lambda>e.
            if tr_addr t < tr_addr e
            then upd (co_it s - 1) (\<lambda>e. e\<lparr>tr_data := put_lo (tr_data t) (put_hi (tr_data e) (tr_data e)),
                   tr_thread := tr_thread t, tr_addr := tr_addr t AND MASK\<rparr>) s
            else upd (co_it s - 1) (\<lambda>e. e\<lparr>tr_data := put_hi (tr_data t) (tr_data e)\<rparr>) s)
        else Option.bind (upd (co_it s) (\<lambda>e. e\<lparr>tr_data := put_lo (tr_data t) (tr_data e)\<rparr>) s)
               (coalesced_update t (CHR ''W''))
      else Option.bind (upd (co_it s) (\<lambda>e. e\<lparr>tr_data := put_lo (tr_data t) (tr_data e)\<rparr>) s)
             (coalesced_update t (CHR ''W'')))"

definition co_step :: "PimMemTraceData \<Rightarrow> CoState \<Rightarrow> CoState option" where
  "co_step t s =
    (if tr_cmd t = CHR ''B'' then co_barrier t s
     else if tr_cmd t = CHR ''R'' then co_read (CHR ''R'') t s
     else if tr_cmd t = CHR ''O'' then co_read (CHR ''O'') t s
     else if tr_cmd t = CHR ''W'' then co_write t s
     else Some s)"

fun co_loop :: "PimMemTraceData list \<Rightarrow> CoState \<Rightarrow> CoState option" where
  "co_loop [] s = Some s"
| "co_loop (t # ts) s = Option.bind (co_step t s) (co_loop ts)"

definition co_init :: "PimMemTraceData list \<Rightarrow> CoState" where
  "co_init buf = \<lparr>fmtd32 = buf, co_it = 0, prev_addr = - 1, prev_cmd = CHR ''B''\<rparr>"

text \<open>The result is the output array and the number of entries written to it.\<close>

definition coalesce_trace ::
    "PimMemTraceData list \<Rightarrow> PimMemTraceData list \<Rightarrow> (PimMemTraceData list \<times> int) option" where
  "coalesce_trace buf fmtd16 =
     map_option (\<lambda>s. (fmtd32 s, co_it s)) (co_loop fmtd16 (co_init buf))"

section \<open>No access outside the output array\<close>

definition co_inv :: "nat \<Rightarrow> nat \<Rightarrow> CoState \<Rightarrow> bool" where
  "co_inv cap n s \<longleftrightarrow> length (fmtd32 s) = cap \<and> 0 \<le> co_it s \<and> co_it s \<le> int n
     \<and> (prev_addr s \<noteq> - 1 \<longrightarrow> 1 \<le> co_it s)"

lemma upd_ok:
  assumes "0 \<le> i" "i < int (length (fmtd32 s))"
  shows "upd i f s = Some (s\<lparr>fmtd32 := (fmtd32 s)[nat i := f (fmtd32 s ! nat i)]\<rparr>)"
  using assms by (simp add: upd_def)

lemma coalesced_update_inv:
  assumes "co_inv cap n s" "n < cap"
  shows "\<exists>s'. coalesced_update t k s = Some s' \<and> co_inv cap (Suc n) s'"
  using assms by (simp add: coalesced_update_def co_inv_def upd_ok)

lemma co_step_inv:
  assumes "co_inv cap n s" "n < cap"
  shows "\<exists>s'. co_step t s = Some s' \<and> co_inv cap (Suc n) s'"
proof -
  note cu = coalesced_update_inv [OF assms]
  have B: "\<exists>s'. co_barrier t s = Some s' \<and> co_inv cap (Suc n) s'"
    using assms by (simp add: co_barrier_def co_inv_def upd_ok)
  have R: "\<exists>s'. co_read k t s = Some s' \<and> co_inv cap (Suc n) s'" for k
    using assms cu [of t k] by (auto simp: co_read_def co_inv_def upd_ok)
  have W: "\<exists>s'. co_write t s = Some s' \<and> co_inv cap (Suc n) s'"
    using assms by (auto simp: co_write_def co_inv_def upd_ok coalesced_update_def)
  have N: "co_inv cap (Suc n) s" using assms by (auto simp: co_inv_def)
  show ?thesis using B R W N by (simp add: co_step_def)
qed

lemma co_loop_inv:
  assumes "co_inv cap n s" "n + length ts \<le> cap"
  shows "\<exists>s'. co_loop ts s = Some s' \<and> co_inv cap (n + length ts) s'"
  using assms
proof (induction ts arbitrary: n s)
  case (Cons t ts)
  obtain s' where s': "co_step t s = Some s'" "co_inv cap (Suc n) s'"
    using co_step_inv [OF Cons.prems(1)] Cons.prems(2) by auto
  then show ?case using Cons.IH [OF s'(2)] Cons.prems(2) by auto
qed simp

lemma coalesce_total:
  assumes "length ts \<le> length buf"
  shows "\<exists>out n. coalesce_trace buf ts = Some (out, n) \<and> length out = length buf \<and> 0 \<le> n \<and> n \<le> int (length ts)"
proof -
  have "co_inv (length buf) 0 (co_init buf)" by (simp add: co_inv_def co_init_def)
  from co_loop_inv [OF this, of ts] assms
  obtain s' where "co_loop ts (co_init buf) = Some s'" "co_inv (length buf) (length ts) s'" by auto
  then show ?thesis by (auto simp: coalesce_trace_def co_inv_def)
qed

text \<open>The coalescer never leaves an output array as long as its input, whatever the commands and
  addresses, and never writes more entries than it reads.\<close>

theorem coalesce_in_bounds:
  assumes "length ts \<le> length buf"
  shows "\<exists>out n. coalesce_trace buf ts = Some (out, n) \<and> length out = length buf
           \<and> 0 \<le> n \<and> n \<le> int (length ts)"
  using assms by (rule coalesce_total)

lemma coalesce_in_bounds_witness:
  "\<exists>out n. coalesce_trace (replicate 1 (trace_entry (CHR ''B'') 0 [])) [trace_entry (CHR ''R'') 32 []] = Some (out, n)
     \<and> length out = length (replicate 1 (trace_entry (CHR ''B'') 0 []))
     \<and> 0 \<le> n \<and> n \<le> int (length [trace_entry (CHR ''R'') 32 []])"
  by (rule coalesce_in_bounds) simp

section \<open>Lines\<close>

lemma line_base:
  assumes "base AND MASK = base"
  shows "(base + 16) AND MASK = base" "base < base + 16" "base \<noteq> - 1"
proof -
  have n: "\<not> bit base n" if "n < 5" for n
  proof -
    have m: "MASK = NOT (mask 5)" by (simp add: MASK_def mask_eq_exp_minus_1)
    have "\<not> bit MASK n" unfolding m bit_not_iff bit_mask_iff using that by simp
    then show ?thesis using assms by (metis bit_and_iff)
  qed
  have or: "base + 16 = base OR 16"
  proof (rule disjunctive_add)
    fix m
    have "bit (2 ^ 4 :: u64) m \<longleftrightarrow> m = 4" unfolding bit_exp_iff by auto
    then show "\<not> bit base m \<or> \<not> bit (16 :: u64) m" using n [of 4] by auto
  qed
  have "(16 :: u64) AND MASK = 0" by (simp add: MASK_def)
  then show a: "(base + 16) AND MASK = base" using assms unfolding or by (simp add: bit.conj_disj_distrib2)
  show "base < base + 16"
  proof -
    have "base \<le> base OR 16" by (rule le_word_or2)
    moreover have "base \<noteq> base + 16" by simp
    ultimately show ?thesis by (simp add: or less_le)
  qed
  show "base \<noteq> - 1" using n [of 0] by auto
qed

text \<open>
  A line of the abstract trace: a barrier, or both halves of one 32-byte line by one command, the
  lower half first or second. \<open>line_trace\<close> is the 16-byte trace it stands for and \<open>line_entry\<close> the
  32-byte entry the emulator expects, given the old contents of the output slot.
\<close>

datatype Line =
    Barrier (ln_block: int) (ln_thread: int)
  | Access (ln_cmd: char) (ln_block: int) (ln_thread: int) (ln_thread_hi: int) (ln_base: u64)
      (ln_lo: "u8 list") (ln_hi: "u8 list") (ln_lo_first: bool)

fun line_trace :: "Line \<Rightarrow> PimMemTraceData list" where
  "line_trace (Barrier b t) = [\<lparr>tr_data = [], tr_addr = 0, tr_block = b, tr_thread = t, tr_cmd = CHR ''B''\<rparr>]"
| "line_trace (Access k b t t' base lo hi first) =
    (let l = \<lparr>tr_data = lo, tr_addr = base, tr_block = b, tr_thread = t, tr_cmd = k\<rparr>;
         h = \<lparr>tr_data = hi, tr_addr = base + 16, tr_block = b, tr_thread = t', tr_cmd = k\<rparr>
     in if first then [l, h] else [h, l])"

fun line_entry :: "Line \<Rightarrow> PimMemTraceData \<Rightarrow> PimMemTraceData" where
  "line_entry (Barrier b t) e =
    \<lparr>tr_data = tr_data e, tr_addr = 0, tr_block = b, tr_thread = t, tr_cmd = CHR ''B''\<rparr>"
| "line_entry (Access k b t t' base lo hi first) e =
    \<lparr>tr_data = (if k = CHR ''W'' then put_hi hi (put_lo lo (tr_data e)) else tr_data e),
     tr_addr = base, tr_block = b, tr_thread = t, tr_cmd = k\<rparr>"

fun line_ok :: "Line \<Rightarrow> bool" where
  "line_ok (Barrier b t) \<longleftrightarrow> True"
| "line_ok (Access k b t t' base lo hi first) \<longleftrightarrow> k \<in> {CHR ''R'', CHR ''O'', CHR ''W''}
     \<and> base AND MASK = base \<and> length lo = 16 \<and> length hi = 16"

text \<open>A line may follow another if it is a barrier, or has another command or another address.\<close>

fun may_follow :: "Line \<Rightarrow> Line \<Rightarrow> bool" where
  "may_follow (Access k _ _ _ base _ _ _) (Access k' _ _ _ base' _ _ _) \<longleftrightarrow> k \<noteq> k' \<or> base \<noteq> base'"
| "may_follow _ _ \<longleftrightarrow> True"

fun starts_line :: "CoState \<Rightarrow> Line \<Rightarrow> bool" where
  "starts_line s (Barrier b t) \<longleftrightarrow> True"
| "starts_line s (Access k b t t' base lo hi first) \<longleftrightarrow>
     prev_addr s = - 1 \<or> prev_cmd s \<noteq> k \<or> prev_addr s \<noteq> base"

fun ends_line :: "CoState \<Rightarrow> Line \<Rightarrow> bool" where
  "ends_line s (Barrier b t) \<longleftrightarrow> prev_addr s = - 1"
| "ends_line s (Access k b t t' base lo hi first) \<longleftrightarrow> prev_addr s = base \<and> prev_cmd s = k"

lemma ends_starts: "ends_line s l \<Longrightarrow> may_follow l l' \<Longrightarrow> starts_line s l'"
  by (cases l; cases l') auto

definition put_entry :: "Line \<Rightarrow> CoState \<Rightarrow> CoState \<Rightarrow> bool" where
  "put_entry l s s' \<longleftrightarrow>
     fmtd32 s' = (fmtd32 s)[nat (co_it s) := line_entry l (fmtd32 s ! nat (co_it s))]
     \<and> co_it s' = co_it s + 1 \<and> ends_line s' l"

lemma co_barrier_line:
  assumes "0 \<le> co_it s" "co_it s < int (length (fmtd32 s))"
  shows "\<exists>s'. co_loop (line_trace (Barrier b t)) s = Some s' \<and> put_entry (Barrier b t) s s'"
  using assms by (cases "fmtd32 s ! nat (co_it s)") (simp add: co_step_def co_barrier_def upd_ok put_entry_def)

lemma coalesced_update_ok:
  assumes "0 \<le> co_it s" "co_it s < int (length (fmtd32 s))"
  shows "coalesced_update t k s = Some (s\<lparr>fmtd32 := (fmtd32 s)[nat (co_it s) :=
      \<lparr>tr_data = tr_data (fmtd32 s ! nat (co_it s)), tr_addr = tr_addr t, tr_block = tr_block t,
       tr_thread = tr_thread t, tr_cmd = k\<rparr>], co_it := co_it s + 1, prev_addr := tr_addr t AND MASK\<rparr>)"
  using assms by (cases "fmtd32 s ! nat (co_it s)") (simp add: coalesced_update_def upd_ok)

lemma co_read_first:
  assumes "0 \<le> co_it s" "co_it s < int (length (fmtd32 s))"
    "prev_addr s = - 1 \<or> prev_cmd s \<noteq> k \<or> prev_addr s \<noteq> tr_addr t AND MASK"
  shows "co_read k t s = Some (s\<lparr>fmtd32 := (fmtd32 s)[nat (co_it s) :=
      \<lparr>tr_data = tr_data (fmtd32 s ! nat (co_it s)), tr_addr = tr_addr t, tr_block = tr_block t,
       tr_thread = tr_thread t, tr_cmd = k\<rparr>], co_it := co_it s + 1, prev_addr := tr_addr t AND MASK,
       prev_cmd := k\<rparr>)"
  using assms by (auto simp: co_read_def coalesced_update_ok)

lemma co_read_second:
  assumes "1 \<le> co_it s" "co_it s \<le> int (length (fmtd32 s))" "prev_cmd s = k"
    "prev_addr s = tr_addr t AND MASK" "prev_addr s \<noteq> - 1"
  shows "co_read k t s = Some (if tr_addr t < tr_addr (fmtd32 s ! nat (co_it s - 1))
      then s\<lparr>fmtd32 := (fmtd32 s)[nat (co_it s - 1) := (fmtd32 s ! nat (co_it s - 1))
             \<lparr>tr_thread := tr_thread t, tr_addr := tr_addr t AND MASK\<rparr>]\<rparr>
      else s)"
  using assms by (simp add: co_read_def upd_ok)

lemma co_read_line:
  assumes "0 \<le> co_it s" "co_it s < int (length (fmtd32 s))"
    and l: "l = Access k b t t' base lo hi first" "k \<in> {CHR ''R'', CHR ''O''}" "line_ok l" "starts_line s l"
  shows "\<exists>s'. co_loop (line_trace l) s = Some s' \<and> put_entry l s s'"
proof -
  have base: "base AND MASK = base" using l by simp
  note lb = line_base [OF base]
  have nless: "\<not> base + 16 < base" using lb(2) by (rule less_asym [THEN notI]) 
  have k: "tr_cmd e = k \<Longrightarrow> co_step e st = co_read k e st" for e st
    using l(2) by (auto simp: co_step_def)
  have start: "prev_addr s = - 1 \<or> prev_cmd s \<noteq> k \<or> prev_addr s \<noteq> base" using l(1,4) by auto
  have nW: "k \<noteq> CHR ''W''" using l(2) by auto
  show ?thesis
  proof (cases first)
    case True
    then show ?thesis using assms(1,2) start nW lb base nless
      by (simp add: l(1) k co_read_first co_read_second put_entry_def nat_add_distrib)
  next
    case False
    then show ?thesis using assms(1,2) start nW lb base nless
      by (simp add: l(1) k co_read_first co_read_second put_entry_def nat_add_distrib)
  qed
qed

lemma co_write_first:
  assumes "0 \<le> co_it s" "co_it s < int (length (fmtd32 s))"
    "prev_addr s = - 1 \<or> prev_cmd s \<noteq> CHR ''W'' \<or> prev_addr s \<noteq> tr_addr t AND MASK"
  shows "co_write t s = Some (s\<lparr>fmtd32 := (fmtd32 s)[nat (co_it s) :=
      \<lparr>tr_data = put_lo (tr_data t) (tr_data (fmtd32 s ! nat (co_it s))), tr_addr = tr_addr t,
       tr_block = tr_block t, tr_thread = tr_thread t, tr_cmd = CHR ''W''\<rparr>],
       co_it := co_it s + 1, prev_addr := tr_addr t AND MASK, prev_cmd := CHR ''W''\<rparr>)"
  using assms by (auto simp: co_write_def coalesced_update_ok upd_ok)

lemma co_write_second:
  assumes "1 \<le> co_it s" "co_it s \<le> int (length (fmtd32 s))" "prev_cmd s = CHR ''W''"
    "prev_addr s = tr_addr t AND MASK" "prev_addr s \<noteq> - 1"
  shows "co_write t s = Some (let e = fmtd32 s ! nat (co_it s - 1) in
      if tr_addr t < tr_addr e
      then s\<lparr>fmtd32 := (fmtd32 s)[nat (co_it s - 1) := e\<lparr>tr_data := put_lo (tr_data t) (put_hi (tr_data e) (tr_data e)),
              tr_thread := tr_thread t, tr_addr := tr_addr t AND MASK\<rparr>]\<rparr>
      else s\<lparr>fmtd32 := (fmtd32 s)[nat (co_it s - 1) := e\<lparr>tr_data := put_hi (tr_data t) (tr_data e)\<rparr>]\<rparr>)"
  using assms by (simp add: co_write_def upd_ok Let_def)

lemma put_both:
  assumes "length lo = 16" "length hi = 16" "32 \<le> length d"
  shows "put_lo lo (put_hi (put_lo hi d) (put_lo hi d)) = put_hi hi (put_lo lo d)"
  using assms by (simp add: put_lo_def put_hi_def)

lemma co_write_line:
  assumes "0 \<le> co_it s" "co_it s < int (length (fmtd32 s))"
    and slot: "32 \<le> length (tr_data (fmtd32 s ! nat (co_it s)))"
    and l: "l = Access (CHR ''W'') b t t' base lo hi first" "line_ok l" "starts_line s l"
  shows "\<exists>s'. co_loop (line_trace l) s = Some s' \<and> put_entry l s s'"
proof -
  have base: "base AND MASK = base" using l by simp
  note lb = line_base [OF base]
  have nless: "\<not> base + 16 < base" using lb(2) by (rule less_asym [THEN notI])
  have k: "tr_cmd e = CHR ''W'' \<Longrightarrow> co_step e st = co_write e st" for e st
    by (simp add: co_step_def)
  have start: "prev_addr s = - 1 \<or> prev_cmd s \<noteq> CHR ''W'' \<or> prev_addr s \<noteq> base" using l(1,3) by auto
  have len: "length lo = 16" "length hi = 16" using l(1,2) by simp_all
  show ?thesis
  proof (cases first)
    case True
    then show ?thesis using assms(1,2) start lb base nless
      by (simp add: l(1) k co_write_first co_write_second put_entry_def nat_add_distrib)
  next
    case False
    then show ?thesis using assms(1,2) start lb base nless put_both [OF len slot]
      by (simp add: l(1) k co_write_first co_write_second put_entry_def nat_add_distrib)
  qed
qed

lemma co_line:
  assumes "0 \<le> co_it s" "co_it s < int (length (fmtd32 s))"
    "32 \<le> length (tr_data (fmtd32 s ! nat (co_it s)))" "line_ok l" "starts_line s l"
  shows "\<exists>s'. co_loop (line_trace l) s = Some s' \<and> put_entry l s s'"
proof (cases l)
  case (Barrier b t)
  then show ?thesis using co_barrier_line assms(1,2) by blast
next
  case (Access k b t t' base lo hi first)
  then consider "k \<in> {CHR ''R'', CHR ''O''}" | "k = CHR ''W''" using assms(4) by auto
  then show ?thesis
  proof cases
    case 1
    show ?thesis by (rule co_read_line [OF assms(1,2) Access 1 assms(4,5)])
  next
    case 2
    show ?thesis by (rule co_write_line [OF assms(1-3) Access [unfolded 2] assms(4,5)])
  qed
qed

lemma co_loop_append: "co_loop (xs @ ys) s = Option.bind (co_loop xs s) (co_loop ys)"
  by (induction xs arbitrary: s) (simp_all split: bind_split)

section \<open>Refinement of the abstract trace\<close>

lemma co_lines:
  assumes "\<forall>l \<in> set ls. line_ok l" "successively may_follow ls" "ls \<noteq> [] \<longrightarrow> starts_line s (hd ls)"
    "0 \<le> co_it s" "nat (co_it s) + length ls \<le> length (fmtd32 s)"
    "\<forall>e \<in> set (drop (nat (co_it s)) (fmtd32 s)). 32 \<le> length (tr_data e)"
  shows "\<exists>s'. co_loop (concat (map line_trace ls)) s = Some s' \<and> co_it s' = co_it s + int (length ls)
    \<and> fmtd32 s' = take (nat (co_it s)) (fmtd32 s)
        @ map2 line_entry ls (drop (nat (co_it s)) (fmtd32 s)) @ drop (nat (co_it s) + length ls) (fmtd32 s)"
  using assms
proof (induction ls arbitrary: s)
  case (Cons l ls)
  let ?n = "nat (co_it s)" and ?xs = "fmtd32 s"
  have n: "?n < length ?xs" "co_it s < int (length ?xs)" using Cons.prems(4,5) by auto
  have dr: "drop ?n ?xs = ?xs ! ?n # drop (Suc ?n) ?xs" using n by (simp add: Cons_nth_drop_Suc)
  have slot: "32 \<le> length (tr_data (?xs ! ?n))" using Cons.prems(6) dr by simp
  obtain s' where s': "co_loop (line_trace l) s = Some s'" "put_entry l s s'"
    using co_line [OF Cons.prems(4) n(2) slot] Cons.prems(1,3) by auto
  then have f: "fmtd32 s' = ?xs[?n := line_entry l (?xs ! ?n)]" "co_it s' = co_it s + 1" "ends_line s' l"
    by (simp_all add: put_entry_def)
  have n': "nat (co_it s') = Suc ?n" using f(2) Cons.prems(4) by simp
  have "ls \<noteq> [] \<longrightarrow> starts_line s' (hd ls)"
    using ends_starts [OF f(3)] Cons.prems(2) by (cases ls) (auto simp: successively_Cons)
  moreover have "successively may_follow ls" using Cons.prems(2) by (cases ls) (auto simp: successively_Cons)
  moreover have "\<forall>e \<in> set (drop (nat (co_it s')) (fmtd32 s')). 32 \<le> length (tr_data e)"
    using Cons.prems(6) dr f(1) n' by simp
  ultimately obtain s'' where s'': "co_loop (concat (map line_trace ls)) s' = Some s''"
      "co_it s'' = co_it s' + int (length ls)"
      "fmtd32 s'' = take (nat (co_it s')) (fmtd32 s')
        @ map2 line_entry ls (drop (nat (co_it s')) (fmtd32 s')) @ drop (nat (co_it s') + length ls) (fmtd32 s')"
    using Cons.IH [of s'] Cons.prems f n' by auto
  have "take (Suc ?n) (fmtd32 s') = take ?n ?xs @ [line_entry l (?xs ! ?n)]"
    using n f(1) by (simp add: take_Suc_conv_app_nth)
  then have "fmtd32 s'' = take ?n ?xs @ map2 line_entry (l # ls) (drop ?n ?xs) @ drop (?n + length (l # ls)) ?xs"
    unfolding s''(3) n' using dr f(1) by simp
  then show ?case using s'(1) s''(1,2) f(2) by (auto simp: co_loop_append)
qed simp

text \<open>On a trace of barriers and complete lines, in which each half of a line may come first and
  neighbouring lines differ in command or address, the coalescer writes exactly one entry per line:
  the barrier, or the line's base address with the thread of its lower half and, for a write, its two
  data halves in address order.\<close>

theorem coalesce_lines:
  assumes "\<forall>l \<in> set ls. line_ok l" "successively may_follow ls" "length ls \<le> length buf"
    "\<forall>e \<in> set buf. 32 \<le> length (tr_data e)"
  shows "coalesce_trace buf (concat (map line_trace ls))
      = Some (map2 line_entry ls buf @ drop (length ls) buf, int (length ls))"
proof -
  have "ls \<noteq> [] \<longrightarrow> starts_line (co_init buf) (hd ls)" by (cases "hd ls") (simp_all add: co_init_def)
  then show ?thesis using co_lines [OF assms(1,2), of "co_init buf"] assms(3,4)
    by (auto simp: coalesce_trace_def co_init_def)
qed

text \<open>
  The arrays of the emulator hold 32 bytes per entry, of which an access of 16 bytes uses the first half,
  and entries other than writes none. Entries that differ in nothing else are treated alike.
\<close>

definition alike :: "PimMemTraceData \<Rightarrow> PimMemTraceData \<Rightarrow> bool" where
  "alike e e' \<longleftrightarrow> tr_cmd e = tr_cmd e' \<and> tr_block e = tr_block e' \<and> tr_thread e = tr_thread e'
     \<and> (tr_cmd e \<noteq> CHR ''B'' \<longrightarrow> tr_addr e = tr_addr e') \<and> (tr_cmd e = CHR ''W'' \<longrightarrow> take 16 (tr_data e) = take 16 (tr_data e'))"

lemma co_step_alike: "alike e e' \<Longrightarrow> co_step e s = co_step e' s"
proof -
  assume a: "alike e e'"
  have cu: "coalesced_update e k = coalesced_update e' k" if "tr_cmd e \<noteq> CHR ''B''" for k
    using a that by (simp add: alike_def coalesced_update_def fun_eq_iff)
  consider "tr_cmd e = CHR ''B''" | "tr_cmd e = CHR ''W''" | "tr_cmd e \<noteq> CHR ''B''" "tr_cmd e \<noteq> CHR ''W''" by blast
  then show ?thesis
  proof cases
    case 1
    then show ?thesis using a by (simp add: alike_def co_step_def co_barrier_def)
  next
    case 2
    have "coalesced_update e (CHR ''W'') = coalesced_update e' (CHR ''W'')" using cu 2 by simp
    moreover from 2 have "put_lo (tr_data e) = put_lo (tr_data e')" "put_hi (tr_data e) = put_hi (tr_data e')"
      using a by (simp_all add: alike_def fun_eq_iff put_lo_def put_hi_def)
    moreover have "tr_addr e = tr_addr e'" "tr_thread e = tr_thread e'" using a 2 by (simp_all add: alike_def)
    ultimately have "co_write e s = co_write e' s" by (simp only: co_write_def)
    moreover have "tr_cmd e' = CHR ''W''" using a 2 by (simp add: alike_def)
    ultimately show ?thesis using 2 by (simp add: co_step_def)
  next
    case 3
    then have "coalesced_update e k = coalesced_update e' k" "tr_addr e = tr_addr e'" "tr_thread e = tr_thread e'" for k
      using a cu by (simp_all add: alike_def)
    then have "co_read k e s = co_read k e' s" for k by (simp only: co_read_def)
    moreover have "tr_cmd e = tr_cmd e'" using a by (simp add: alike_def)
    ultimately show ?thesis using 3 by (simp add: co_step_def)
  qed
qed

lemma co_loop_alike: "list_all2 alike es es' \<Longrightarrow> co_loop es s = co_loop es' s"
proof (induction es es' arbitrary: s rule: list_all2_induct)
  case (Cons e es e' es')
  then show ?case using co_step_alike [OF Cons.hyps(1), of s] by (cases "co_step e' s") simp_all
qed simp

text \<open>
  Groups of threads that access the same line one after the other: the repetition of a line, lower half
  first and with the same data, is joined with it.
\<close>

fun repeats :: "Line \<Rightarrow> Line \<Rightarrow> bool" where
  "repeats (Access k b t t2 base lo hi first) (Access k' b' u u2 base' lo' hi' first') \<longleftrightarrow>
     k = k' \<and> base = base' \<and> (k = CHR ''W'' \<longrightarrow> lo = lo' \<and> hi = hi') \<and> first'"
| "repeats _ _ \<longleftrightarrow> False"

fun squash :: "Line list \<Rightarrow> Line list" where
  "squash (l # l' # ls) = (if repeats l l' then squash (l # ls) else l # squash (l' # ls))"
| "squash ls = ls"

lemma squash_Cons_hd: "\<exists>ms. squash (l # ls) = l # ms"
  by (induction ls) auto

lemma set_squash: "set (squash ls) \<subseteq> set ls"
  by (induction ls rule: squash.induct) auto

lemma put_hi_again:
  assumes "length lo = 16" "length hi = 16" "32 \<le> length d"
  shows "put_hi hi (put_hi lo (put_hi hi (put_lo lo d))) = put_hi hi (put_lo lo d)"
  using assms by (simp add: put_lo_def put_hi_def)

lemma co_repeat:
  assumes "0 \<le> co_it s" "co_it s < int (length (fmtd32 s))" "32 \<le> length (tr_data (fmtd32 s ! nat (co_it s)))"
    "line_ok l" "line_ok l'" "repeats l l'" "put_entry l s s'"
  shows "co_loop (line_trace l') s' = Some s'"
proof -
  obtain k b t t2 base lo hi first b' u u2 lo' hi' where l: "l = Access k b t t2 base lo hi first"
      "l' = Access k b' u u2 base lo' hi' True" "k = CHR ''W'' \<Longrightarrow> lo' = lo \<and> hi' = hi"
    using assms(6) by (cases l; cases l') auto
  have base: "base AND MASK = base" and k: "k \<in> {CHR ''R'', CHR ''O'', CHR ''W''}" and len: "length lo = 16" "length hi = 16"
    using assms(4) l by auto
  note lb = line_base [OF base]
  have nless: "\<not> base + 16 < base" using lb(2) by (rule less_asym [THEN notI])
  let ?e = "line_entry l (fmtd32 s ! nat (co_it s))"
  have s': "fmtd32 s' = (fmtd32 s)[nat (co_it s) := ?e]" "co_it s' = co_it s + 1" "prev_addr s' = base" "prev_cmd s' = k"
    using assms(7) by (simp_all add: put_entry_def l)
  have it: "1 \<le> co_it s'" "co_it s' \<le> int (length (fmtd32 s'))" "co_it s' - 1 = co_it s" "nat (co_it s) < length (fmtd32 s)"
    using assms(1,2) s' by auto
  then have e: "fmtd32 s' ! nat (co_it s' - 1) = ?e" by (simp add: s')
  show ?thesis
  proof (cases "k = CHR ''W''")
    case False
    then have st: "co_step t s' = co_read k t s'" if "tr_cmd t = k" for t using that k by (auto simp: co_step_def)
    have a: "tr_addr ?e = base" by (simp add: l)
    note rd = co_read_second [OF it(1,2) s'(4), unfolded e a]
    have "co_step \<lparr>tr_data = lo', tr_addr = base, tr_block = b', tr_thread = u, tr_cmd = k\<rparr> s' = Some s'"
      by (subst st) (simp_all add: rd s'(3) base lb(3))
    moreover have "co_step \<lparr>tr_data = hi', tr_addr = base + 16, tr_block = b', tr_thread = u2, tr_cmd = k\<rparr> s' = Some s'"
      by (subst st) (simp_all add: rd s'(3) lb nless)
    ultimately show ?thesis by (simp add: l(2))
  next
    case True
    let ?s1 = "s'\<lparr>fmtd32 := (fmtd32 s')[nat (co_it s' - 1) := ?e\<lparr>tr_data := put_hi lo (tr_data ?e)\<rparr>]\<rparr>"
    have ln: "nat (co_it s' - 1) < length (fmtd32 s')" using it by (simp add: s'(1))
    have a: "tr_addr ?e = base" "tr_data ?e = put_hi hi (put_lo lo (tr_data (fmtd32 s ! nat (co_it s))))" by (simp_all add: l True)
    have "co_step \<lparr>tr_data = lo, tr_addr = base, tr_block = b', tr_thread = u, tr_cmd = k\<rparr> s' = Some ?s1"
      using co_write_second [OF it(1,2), of "\<lparr>tr_data = lo, tr_addr = base, tr_block = b', tr_thread = u, tr_cmd = k\<rparr>"]
        s'(3,4) True base lb(3) e a(1) by (simp add: co_step_def Let_def)
    moreover have "co_step \<lparr>tr_data = hi, tr_addr = base + 16, tr_block = b', tr_thread = u2, tr_cmd = k\<rparr> ?s1
        = Some (?s1\<lparr>fmtd32 := (fmtd32 s')[nat (co_it s' - 1) := ?e\<lparr>tr_data := put_hi hi (put_hi lo (tr_data ?e))\<rparr>]\<rparr>)"
      using co_write_second [of ?s1 "\<lparr>tr_data = hi, tr_addr = base + 16, tr_block = b', tr_thread = u2, tr_cmd = k\<rparr>"]
        it s'(3,4) True lb nless ln a(1) by (simp add: co_step_def Let_def)
    moreover have "?e\<lparr>tr_data := put_hi hi (put_hi lo (tr_data ?e))\<rparr> = ?e"
      unfolding a(2) put_hi_again [OF len assms(3)] by (simp add: l True)
    ultimately have "co_loop (line_trace l') s' = Some (s'\<lparr>fmtd32 := (fmtd32 s')[nat (co_it s' - 1) := ?e]\<rparr>)"
      using l(2,3) True by simp
    also have "(fmtd32 s')[nat (co_it s' - 1) := ?e] = fmtd32 s'" using e by (metis list_update_id)
    finally show ?thesis by simp
  qed
qed

lemma co_squash:
  assumes "\<forall>l \<in> set ls. line_ok l" "successively may_follow (squash ls)" "ls \<noteq> [] \<longrightarrow> starts_line s (hd ls)"
    "0 \<le> co_it s" "nat (co_it s) + length (squash ls) \<le> length (fmtd32 s)"
    "\<forall>e \<in> set (drop (nat (co_it s)) (fmtd32 s)). 32 \<le> length (tr_data e)"
  shows "co_loop (concat (map line_trace ls)) s = co_loop (concat (map line_trace (squash ls))) s"
  using assms
proof (induction ls arbitrary: s rule: squash.induct)
  case (1 l l' ls)
  let ?n = "nat (co_it s)" and ?xs = "fmtd32 s"
  have "1 \<le> length (squash (l # l' # ls))" by (metis One_nat_def Suc_le_mono le0 length_Cons squash_Cons_hd)
  then have n: "?n < length ?xs" "co_it s < int (length ?xs)" using "1.prems"(4,5) by linarith+
  have dr: "drop ?n ?xs = ?xs ! ?n # drop (Suc ?n) ?xs" using n by (simp add: Cons_nth_drop_Suc)
  have slot: "32 \<le> length (tr_data (?xs ! ?n))" using "1.prems"(6) dr by simp
  obtain s' where s': "co_loop (line_trace l) s = Some s'" "put_entry l s s'"
    using co_line [OF "1.prems"(4) n(2) slot] "1.prems"(1,3) by auto
  then have f: "fmtd32 s' = ?xs[?n := line_entry l (?xs ! ?n)]" "co_it s' = co_it s + 1" "ends_line s' l"
    by (simp_all add: put_entry_def)
  have n': "nat (co_it s') = Suc ?n" using f(2) "1.prems"(4) by simp
  show ?case
  proof (cases "repeats l l'")
    case True
    have "co_loop (line_trace l') s' = Some s'"
      using co_repeat [OF "1.prems"(4) n(2) slot _ _ True s'(2)] "1.prems"(1) by simp
    then have "co_loop (concat (map line_trace (l # l' # ls))) s = co_loop (concat (map line_trace (l # ls))) s"
      by (simp add: co_loop_append s'(1))
    also have "\<dots> = co_loop (concat (map line_trace (squash (l # ls)))) s"
      using "1.prems" True by (intro "1.IH"(1)) auto
    finally show ?thesis using True by simp
  next
    case False
    obtain ms where ms: "squash (l' # ls) = l' # ms" using squash_Cons_hd by blast
    have "starts_line s' l'"
      using ends_starts [OF f(3)] "1.prems"(2) False by (simp add: ms successively_Cons)
    then have "co_loop (concat (map line_trace (l' # ls))) s' = co_loop (concat (map line_trace (squash (l' # ls)))) s'"
      using "1.prems" False f n' dr by (intro "1.IH"(2)) (auto simp: ms successively_Cons)
    then show ?thesis using False by (simp add: co_loop_append s'(1))
  qed
qed simp_all

lemma coalesce_squash:
  assumes "list_all2 alike es (concat (map line_trace ls))" "\<forall>l \<in> set ls. line_ok l"
    "successively may_follow (squash ls)" "length (squash ls) \<le> length buf"
    "\<forall>e \<in> set buf. 32 \<le> length (tr_data e)"
  shows "coalesce_trace buf es
      = Some (map2 line_entry (squash ls) buf @ drop (length (squash ls)) buf, int (length (squash ls)))"
proof -
  have ok: "\<forall>l \<in> set (squash ls). line_ok l" using assms(2) set_squash by blast
  have "ls \<noteq> [] \<longrightarrow> starts_line (co_init buf) (hd ls)" by (cases "hd ls") (simp_all add: co_init_def)
  then have "co_loop es (co_init buf) = co_loop (concat (map line_trace (squash ls))) (co_init buf)"
    using co_squash [OF assms(2,3), of "co_init buf"] assms(4,5) co_loop_alike [OF assms(1)]
    by (simp add: co_init_def)
  then show ?thesis using coalesce_lines [OF ok assms(3,4,5)] by (simp add: coalesce_trace_def)
qed

definition line_example :: "Line list" where
  "line_example = [Access (CHR ''W'') 0 1 2 64 (replicate 16 7) (replicate 16 9) False, Barrier 0 3,
                   Access (CHR ''R'') 0 4 5 64 (replicate 16 0) (replicate 16 0) True]"

lemma coalesce_lines_witness:
  "coalesce_trace (replicate 5 (trace_entry (CHR ''B'') 0 (replicate 32 0))) (concat (map line_trace line_example))
      = Some (map2 line_entry line_example (replicate 5 (trace_entry (CHR ''B'') 0 (replicate 32 0)))
               @ drop (length line_example) (replicate 5 (trace_entry (CHR ''B'') 0 (replicate 32 0))),
              int (length line_example))"
  by (rule coalesce_lines) (simp_all add: line_example_def trace_entry_def MASK_def)

text \<open>Two successive writes to the same lower half are joined as if the second were the upper half:
  the output keeps the first write's data in the lower half and has the second's in the upper one.\<close>

theorem coalesce_rewrite_same_half:
  assumes "a AND MASK = a"
  shows "coalesce_trace [e] [trace_entry (CHR ''W'') a d1, trace_entry (CHR ''W'') a d2]
      = Some ([trace_entry (CHR ''W'') a (put_hi d2 (put_lo d1 (tr_data e)))], 1)"
proof -
  have "a \<noteq> - 1" using line_base(3) [OF assms] .
  then show ?thesis using assms
    by (simp add: coalesce_trace_def co_step_def co_write_first co_write_second co_init_def trace_entry_def)
qed

lemma coalesce_rewrite_same_half_witness:
  "coalesce_trace [trace_entry (CHR ''B'') 0 (replicate 32 0)]
       [trace_entry (CHR ''W'') 64 (replicate 16 1), trace_entry (CHR ''W'') 64 (replicate 16 2)]
     = Some ([trace_entry (CHR ''W'') 64 (put_hi (replicate 16 2) (put_lo (replicate 16 1)
                (tr_data (trace_entry (CHR ''B'') 0 (replicate 32 0)))))], 1)"
  by (rule coalesce_rewrite_same_half) (simp add: MASK_def)

end
