(* ===== verification/TraceConvert.thy ===== *)
theory TraceConvert
  imports TraceCoalesce "HOL-Library.Monad_Syntax"
begin

text \<open>
  From the traces of the blocks of a kernel to the input of the simulator: the compaction of the per-block traces
  (the loop in every \<open>execute_*\<close> of \<open>runtime/source/executor/hip/HipPimExecutor.cpp\<close> and of the OpenCL
  executor), then the coalescer; and what the conversion yields for traces of whole lines.
\<close>

section \<open>Compaction of the traces\<close>

text \<open>
  \<open>memcpy\<close> inside an array. Overlapping regions and accesses outside the array have no defined
  behaviour.
\<close>

definition memcpy_within :: "nat \<Rightarrow> nat \<Rightarrow> nat \<Rightarrow> 'a list \<Rightarrow> 'a list option" where
  "memcpy_within dst src n xs =
    (if dst + n \<le> length xs \<and> src + n \<le> length xs \<and> (n = 0 \<or> dst + n \<le> src \<or> src + n \<le> dst)
     then Some (take dst xs @ take n (drop src xs) @ drop (dst + n) xs) else None)"

text \<open>Block \<open>i\<close> records \<open>n\<close> entries from index \<open>i * cap\<close> on; they are moved to index \<open>i * n\<close>.\<close>

fun compact_blocks :: "nat \<Rightarrow> nat \<Rightarrow> nat list \<Rightarrow> 'a list \<Rightarrow> 'a list option" where
  "compact_blocks cap n [] xs = Some xs"
| "compact_blocks cap n (i # is) xs = memcpy_within (i * n) (i * cap) n xs \<bind> compact_blocks cap n is"

definition compact_trace :: "nat \<Rightarrow> nat \<Rightarrow> nat \<Rightarrow> 'a list \<Rightarrow> 'a list option" where
  "compact_trace cap blocks n = compact_blocks cap n [1..<blocks]"

text \<open>The whole conversion: compaction, then coalescing into the array \<open>fmtd32\<close>.\<close>

definition convert_mem_trace_from_16B_to_32B ::
    "PimMemTraceData list \<Rightarrow> PimMemTraceData list \<Rightarrow> nat \<Rightarrow> (PimMemTraceData list \<times> int) option" where
  "convert_mem_trace_from_16B_to_32B h32 h16 n =
    (if n \<le> length h16 then coalesce_trace h32 (take n h16) else None)"

definition emulator_trace_gen ::
    "nat \<Rightarrow> nat \<Rightarrow> nat \<Rightarrow> PimMemTraceData list \<Rightarrow> PimMemTraceData list \<Rightarrow> (PimMemTraceData list \<times> int) option" where
  "emulator_trace_gen cap blocks n h32 h16 =
     compact_trace cap blocks n h16 \<bind> (\<lambda>xs. convert_mem_trace_from_16B_to_32B h32 xs (n * blocks))"

section \<open>Compaction\<close>

lemma memcpy_within_ok:
  assumes "dst + n \<le> length xs" "src + n \<le> length xs" "n = 0 \<or> dst + n \<le> src \<or> src + n \<le> dst"
  shows "memcpy_within dst src n xs = Some (take dst xs @ take n (drop src xs) @ drop (dst + n) xs)"
  using assms by (simp add: memcpy_within_def)

lemma compact_blocks_append: "compact_blocks cap n (is @ js) xs = compact_blocks cap n is xs \<bind> compact_blocks cap n js"
  by (induction "is" arbitrary: xs) (auto split: bind_splits)

definition block_entries :: "nat \<Rightarrow> nat \<Rightarrow> 'a list \<Rightarrow> nat \<Rightarrow> 'a list" where
  "block_entries cap n xs i = take n (drop (i * cap) xs)"

lemma compact_trace_ok:
  assumes "2 * n \<le> cap" "blocks * cap \<le> length xs" "0 < blocks"
  shows "\<exists>ys. compact_trace cap blocks n xs = Some ys \<and> length ys = length xs
    \<and> take (blocks * n) ys = concat (map (block_entries cap n xs) [0..<blocks]) \<and> drop (blocks * n) ys = drop (blocks * n) xs"
  using assms
proof (induction blocks)
  case (Suc k)
  show ?case
  proof (cases "k = 0")
    case True
    then show ?thesis by (simp add: compact_trace_def block_entries_def)
  next
    case False
    then obtain ys where ys: "compact_trace cap k n xs = Some ys" "length ys = length xs"
        "take (k * n) ys = concat (map (block_entries cap n xs) [0..<k])" "drop (k * n) ys = drop (k * n) xs"
      using Suc by auto
    have kn: "k * n + n \<le> k * cap"
    proof -
      have "k * n + n \<le> k * n + k * n" using False by simp
      also have "\<dots> = k * (2 * n)" by simp
      also have "\<dots> \<le> k * cap" using Suc.prems(1) by (rule mult_le_mono2)
      finally show ?thesis .
    qed
    have le: "n \<le> cap" "k * cap + n \<le> length ys" "k * n + n \<le> length ys" using Suc.prems kn ys(2) by auto
    have "compact_trace cap (Suc k) n xs = memcpy_within (k * n) (k * cap) n ys"
      using False ys(1) by (cases "memcpy_within (k * n) (k * cap) n ys") (simp_all add: compact_trace_def compact_blocks_append)
    also have "\<dots> = Some (take (k * n) ys @ take n (drop (k * cap) ys) @ drop (k * n + n) ys)"
      by (rule memcpy_within_ok) (use le kn in auto)
    finally have run: "compact_trace cap (Suc k) n xs = Some (take (k * n) ys @ take n (drop (k * cap) ys) @ drop (k * n + n) ys)" .
    have tail: "drop m ys = drop m xs" if "k * n \<le> m" for m
      using arg_cong [OF ys(4), of "drop (m - k * n)"] that by simp
    have "take n (drop (k * cap) ys) = block_entries cap n xs k"
      using tail [OF le_trans [OF le_add1 kn]] by (simp add: block_entries_def)
    moreover have "length (take (k * n) ys) = k * n" "length (take n (drop (k * cap) ys)) = n" using le by auto
    ultimately show ?thesis
      unfolding run using ys(2,3) tail [of "k * n + n"] le by (simp add: add.commute)
  qed
qed simp

lemma concat_map_concat:
  "concat (map f (concat (map ls is))) = concat (map (\<lambda>i. concat (map f (ls i))) is)"
  by (induction "is") simp_all

text \<open>
  Moving the traces of the blocks together has a defined result exactly when they fill at most half
  of the room reserved for each: beyond that the regions of the first \<open>memcpy\<close> overlap.
\<close>

lemma compaction_defined_iff:
  assumes "0 < n" "n \<le> cap" "2 \<le> blocks" "blocks * cap \<le> length xs"
  shows "compact_trace cap blocks n xs \<noteq> None \<longleftrightarrow> 2 * n \<le> cap"
proof
  assume "2 * n \<le> cap"
  then show "compact_trace cap blocks n xs \<noteq> None" using compact_trace_ok [of n cap blocks xs] assms by auto
next
  assume "compact_trace cap blocks n xs \<noteq> None"
  moreover have "[1..<blocks] = 1 # [2..<blocks]" using assms(3) by (simp add: upt_rec numeral_2_eq_2)
  ultimately have "memcpy_within n cap n xs \<noteq> None"
    by (cases "memcpy_within n cap n xs") (simp_all add: compact_trace_def)
  then show "2 * n \<le> cap" using assms(1,2) by (auto simp: memcpy_within_def split: if_splits)
qed

lemma list_all2_concat_map:
  assumes "\<And>i. i \<in> set is \<Longrightarrow> list_all2 P (f i) (g i)"
  shows "list_all2 P (concat (map f is)) (concat (map g is))"
  using assms by (induction "is") (auto intro: list_all2_appendI)


text \<open>Two blocks record a barrier and a read of a line by two groups of threads, in entries of 32 bytes.\<close>

definition trace_example :: "nat \<Rightarrow> Line list" where
  "trace_example i = [Barrier (int i) 0, Access (CHR ''R'') (int i) 4 5 64 (replicate 16 0) (replicate 16 0) True,
     Access (CHR ''R'') (int i) 6 7 64 (replicate 16 0) (replicate 16 0) True]"

definition trace_array :: "PimMemTraceData list" where
  "trace_array = concat (map (\<lambda>i. map (\<lambda>e. e\<lparr>tr_data := replicate 32 0\<rparr>) (concat (map line_trace (trace_example i)))
     @ replicate 5 (trace_entry (CHR ''B'') 0 (replicate 32 0))) [0..<2])"

definition trace_slots :: "PimMemTraceData list" where
  "trace_slots = replicate 8 (trace_entry (CHR ''B'') 0 (replicate 32 0))"


end
