(* ===== verification/PimEmulator.thy ===== *)
theory PimEmulator
  imports TraceConvert OclMemory
begin

text \<open>
  The emulator behind the executors of an emulator build, \<open>HipPimEmulator\<close>
  (\<open>runtime/source/emulator/hip/HipPimEmulator.cpp\<close>) and \<open>OclPimEmulator\<close>
  (\<open>runtime/source/emulator/ocl/OclPimEmulator.cpp\<close>). The simulator \<open>PimSimulator\<close>, the transfers between
  host and device, and half-precision arithmetic are parameters.
\<close>

section \<open>The simulator and the transfers\<close>

text \<open>
  \<open>em_read_into p n xs\<close> is the host array \<open>xs\<close> of halves after \<open>n\<close> bytes from \<open>p\<close> were copied to its start;
  \<open>em_write16\<close> copies an array of halves to memory; \<open>em_fresh16\<close> is the content of a new array;
  \<open>em_obj\<close> finds the OpenCL buffer object behind a pointer.
\<close>

record 's Emu =
  sim_preload_data :: "u64 \<Rightarrow> addr \<Rightarrow> nat \<Rightarrow> 's \<Rightarrow> 's"
  sim_execute_kernel :: "PimMemTraceData list \<Rightarrow> int \<Rightarrow> 's \<Rightarrow> 's"
  sim_read_result :: "u64 \<Rightarrow> nat \<Rightarrow> 's \<Rightarrow> u16 list"
  sim_read_result_gemv :: "u64 \<Rightarrow> nat \<Rightarrow> 's \<Rightarrow> u16 list"
  em_read_into :: "addr \<Rightarrow> nat \<Rightarrow> u16 list \<Rightarrow> 's \<Rightarrow> u16 list"
  em_write16 :: "addr \<Rightarrow> u16 list \<Rightarrow> 's \<Rightarrow> 's"
  em_fresh16 :: "nat \<Rightarrow> 's \<Rightarrow> u16 list"
  em_map :: "addr \<Rightarrow> nat \<Rightarrow> 's \<Rightarrow> addr option"
  em_obj :: "'s \<Rightarrow> addr \<Rightarrow> OclBufferObj option"
  half_add :: "u16 \<Rightarrow> u16 \<Rightarrow> u16"
  half_neg :: "u16 \<Rightarrow> bool"

definition simulate ::
    "'s Emu \<Rightarrow> (u64 \<times> addr \<times> nat) list \<Rightarrow> PimMemTraceData list \<Rightarrow> int \<Rightarrow> 's \<Rightarrow> 's" where
  "simulate X ins tr n s = sim_execute_kernel X tr n (fold (\<lambda>(a, p, sz). sim_preload_data X a p sz) ins s)"

section \<open>Results of a matrix product\<close>

text \<open>The product of the extents is computed in 32 bits; a negative array length throws.\<close>

definition gemm_out_dim :: "PimBo \<Rightarrow> nat option" where
  "gemm_out_dim out =
    (let s = bshape out; n = sint (sh_n s * sh_c s * sh_h s * sh_w s) in if n < 0 then None else Some (nat n))"

definition add_bias :: "'s Emu \<Rightarrow> PimBo option \<Rightarrow> u16 list \<Rightarrow> 's \<Rightarrow> u16 list option" where
  "add_bias X bias sim s =
    (case bias of
       None \<Rightarrow> Some sim
     | Some b \<Rightarrow>
         if bo_size b \<le> 2 * length sim
         then Some (map2 (half_add X) sim (em_read_into X (bo_data b) (bo_size b) (em_fresh16 X (length sim) s) s))
         else None)"

definition apply_relu :: "'s Emu \<Rightarrow> PimActFunc \<Rightarrow> u16 list \<Rightarrow> u16 list" where
  "apply_relu X act sim = (if act = ACT_RELU then map (\<lambda>x. if half_neg X x then 0 else x) sim else sim)"

text \<open>The offset of a channel of a batch, an \<open>int\<close> computed in 32 bits.\<close>

definition plane_offset :: "PimBShape \<Rightarrow> nat \<Rightarrow> nat \<Rightarrow> int" where
  "plane_offset s n c = sint (of_nat n * sh_c s * sh_h s * sh_w s + of_nat c * sh_h s * sh_w s)"

definition planes :: "PimBShape \<Rightarrow> (nat \<times> nat) list" where
  "planes s = concat (map (\<lambda>n. map (Pair n) [0..<unat (sh_c s)]) [0..<unat (sh_n s)])"

text \<open>
  The loop that copies the result, channel by channel: it takes as many consecutive elements as the real
  output has, whatever the width of the rows in the result.
\<close>

fun copy_planes ::
    "'s Emu \<Rightarrow> addr \<Rightarrow> PimBo \<Rightarrow> nat \<Rightarrow> u16 list \<Rightarrow> (nat \<times> nat) list \<Rightarrow> 's \<Rightarrow> 's option" where
  "copy_planes X dst out len sim [] s = Some s"
| "copy_planes X dst out len sim ((n, c) # ps) s =
    (let off = plane_offset (bshape out) n c
     in if 0 \<le> off \<and> nat off + len \<le> length sim
        then copy_planes X dst out len sim ps
               (em_write16 X (ptr_add dst (2 * plane_offset (bshape_r out) n c)) (take len (drop (nat off) sim)) s)
        else None)"

definition plane_len :: "PimBo \<Rightarrow> PimBo \<Rightarrow> nat" where
  "plane_len out wei = unat (sh_w (bshape_r wei) * sh_h (bshape_r out))"

section \<open>The HIP emulator\<close>

definition hip_emu_gemm_bias_act ::
    "'s Emu \<Rightarrow> PimBo \<Rightarrow> PimBo \<Rightarrow> PimMemTraceData list \<Rightarrow> int \<Rightarrow> u64 \<Rightarrow> addr \<Rightarrow> PimBo option \<Rightarrow> PimActFunc \<Rightarrow> 's \<Rightarrow> (int \<times> 's) option" where
  "hip_emu_gemm_bias_act X out wei tr n32 base tmp bias act s = do {
     out_dim \<leftarrow> gemm_out_dim out;
     (let s = simulate X [(of_nat (bo_data wei) - base, bo_data wei, bo_size wei)] tr n32 s
      in do {
        sim \<leftarrow> add_bias X bias (sim_read_result_gemv X (of_nat tmp - base) out_dim s) s;
        s \<leftarrow> (if mem_type out \<noteq> MEM_TYPE_HOST
              then copy_planes X (bo_data out) out (plane_len out wei) (apply_relu X act sim) (planes (bshape out)) s
              else Some s);
        Some (0, s)
      })
   }"

text \<open>The accumulation \<open>output_host[b * out_num_r + i] += sim_output[b * out_num + i]\<close>.\<close>

fun accum_loop :: "'s Emu \<Rightarrow> u16 list \<Rightarrow> (int \<times> int) list \<Rightarrow> u16 list \<Rightarrow> u16 list option" where
  "accum_loop X sim [] out = Some out"
| "accum_loop X sim ((d, i) # ps) out = do {
     a \<leftarrow> arr_get out d;
     b \<leftarrow> arr_get sim i;
     out \<leftarrow> arr_set out d (half_add X a b);
     accum_loop X sim ps out
   }"

definition hip_emu_gemv_add ::
    "'s Emu \<Rightarrow> PimBo \<Rightarrow> PimBo \<Rightarrow> PimMemTraceData list \<Rightarrow> int \<Rightarrow> u64 \<Rightarrow> addr \<Rightarrow> 's \<Rightarrow> (int \<times> 's) option" where
  "hip_emu_gemv_add X out wei tr n32 base tmp s =
    (let num_batch = sint (sh_n (bshape out)); out_num = sint (sh_h (bshape wei)); out_num_r = sint (sh_h (bshape_r wei));
         out_dim = i32 (out_num * num_batch); out_size_r = i32 (2 * i32 (out_num_r * num_batch));
         s = simulate X [(of_nat (bo_data wei) - base, bo_data wei, bo_size wei)] tr n32 s
     in if out_dim < 0 \<or> out_size_r < 0 then None
        else do {
          host \<leftarrow> accum_loop X (sim_read_result_gemv X (of_nat tmp - base) (nat out_dim) s)
            (concat (map (\<lambda>b. map (\<lambda>i. (int b * out_num_r + int i, int b * out_num + int i)) [0..<nat out_num_r]) [0..<nat num_batch]))
            (em_read_into X (bo_data out) (nat out_size_r) (em_fresh16 X (nat out_size_r div 2) s) s);
          Some (0, em_write16 X (bo_data out) host s)
        })"

text \<open>An odd size overruns the array of \<open>size / 2\<close> halves.\<close>

definition hip_emu_elementwise ::
    "'s Emu \<Rightarrow> PimBo \<Rightarrow> PimBo list \<Rightarrow> PimMemTraceData list \<Rightarrow> int \<Rightarrow> u64 \<Rightarrow> 's \<Rightarrow> (int \<times> 's) option" where
  "hip_emu_elementwise X out ins tr n32 base s =
    (if bo_size out mod 2 \<noteq> 0 then None
     else let s = simulate X (map (\<lambda>b. (of_nat (bo_data b) - base, bo_data b, bo_size b)) ins) tr n32 s
          in Some (0, em_write16 X (bo_data out) (sim_read_result X (of_nat (bo_data out) - base) (bo_size out) s) s))"

definition hip_emu_elt_op ::
    "'s Emu \<Rightarrow> PimBo \<Rightarrow> PimBo \<Rightarrow> PimBo \<Rightarrow> PimMemTraceData list \<Rightarrow> int \<Rightarrow> u64 \<Rightarrow> 's \<Rightarrow> (int \<times> 's) option" where
  "hip_emu_elt_op X out op0 op1 = hip_emu_elementwise X out [op0, op1]"

definition hip_emu_relu_bn_copy ::
    "'s Emu \<Rightarrow> PimBo \<Rightarrow> PimBo \<Rightarrow> PimMemTraceData list \<Rightarrow> int \<Rightarrow> u64 \<Rightarrow> 's \<Rightarrow> (int \<times> 's) option" where
  "hip_emu_relu_bn_copy X out inp = hip_emu_elementwise X out [inp]"

section \<open>The OpenCL emulator\<close>

text \<open>
  The address the simulator is given for a buffer, and the address the data is read from: the second
  always goes through the buffer object.
\<close>

definition ocl_sim_addr :: "'s Emu \<Rightarrow> PimBo \<Rightarrow> 's \<Rightarrow> addr option" where
  "ocl_sim_addr X b s =
    (if mem_type b = MEM_TYPE_PIM then map_option host_addr (em_obj X s (bo_data b)) else Some (bo_data b))"

definition ocl_input :: "'s Emu \<Rightarrow> u64 \<Rightarrow> PimBo \<Rightarrow> 's \<Rightarrow> (u64 \<times> addr \<times> nat) option" where
  "ocl_input X base b s = do {
     a \<leftarrow> ocl_sim_addr X b s;
     obj \<leftarrow> em_obj X s (bo_data b);
     Some (of_nat a - base, host_addr obj, bo_size b)
   }"

definition ocl_emu_elementwise ::
    "'s Emu \<Rightarrow> PimBo \<Rightarrow> PimBo list \<Rightarrow> PimMemTraceData list \<Rightarrow> int \<Rightarrow> u64 \<Rightarrow> 's \<Rightarrow> (int \<times> 's) option" where
  "ocl_emu_elementwise X out ins tr n32 base s =
    (if bo_size out mod 2 \<noteq> 0 then None
     else do {
       inputs \<leftarrow> those (map (\<lambda>b. ocl_input X base b s) ins);
       dst \<leftarrow> ocl_sim_addr X out s;
       (let s = simulate X inputs tr n32 s
        in Some (0, em_write16 X dst (sim_read_result X (of_nat dst - base) (bo_size out) s) s))
     })"

definition ocl_emu_elt_op ::
    "'s Emu \<Rightarrow> PimBo \<Rightarrow> PimBo \<Rightarrow> PimBo \<Rightarrow> PimMemTraceData list \<Rightarrow> int \<Rightarrow> u64 \<Rightarrow> 's \<Rightarrow> (int \<times> 's) option" where
  "ocl_emu_elt_op X out op0 op1 = ocl_emu_elementwise X out [op0, op1]"

definition ocl_emu_relu_bn_copy ::
    "'s Emu \<Rightarrow> PimBo \<Rightarrow> PimBo \<Rightarrow> PimMemTraceData list \<Rightarrow> int \<Rightarrow> u64 \<Rightarrow> 's \<Rightarrow> (int \<times> 's) option" where
  "ocl_emu_relu_bn_copy X out inp = ocl_emu_elementwise X out [inp]"

text \<open>The output of a product is a plain OpenCL buffer, mapped into host memory for the copy.\<close>

definition ocl_emu_gemm_bias_act ::
    "'s Emu \<Rightarrow> PimBo \<Rightarrow> PimBo \<Rightarrow> PimMemTraceData list \<Rightarrow> int \<Rightarrow> u64 \<Rightarrow> addr \<Rightarrow> PimBo option \<Rightarrow> PimActFunc \<Rightarrow> 's \<Rightarrow> (int \<times> 's) option" where
  "ocl_emu_gemm_bias_act X out wei tr n32 base tmp bias act s = do {
     out_dim \<leftarrow> gemm_out_dim out;
     t \<leftarrow> em_obj X s tmp;
     w \<leftarrow> em_obj X s (bo_data wei);
     (let s = simulate X [(of_nat (host_addr w) - base, host_addr w, bo_size wei)] tr n32 s
      in do {
        sim \<leftarrow> add_bias X bias (sim_read_result_gemv X (of_nat (host_addr t) - base) out_dim s) s;
        s \<leftarrow> (if mem_type out \<noteq> MEM_TYPE_HOST
              then do {
                dst \<leftarrow> em_map X (bo_data out) (bo_size out) s;
                copy_planes X dst out (plane_len out wei) (apply_relu X act sim) (planes (bshape out)) s
              }
              else Some s);
        Some (0, s)
      })
   }"

text \<open>Unlike the product, the accumulating form takes the pointers themselves for addresses.\<close>

definition ocl_emu_gemv_add ::
    "'s Emu \<Rightarrow> PimBo \<Rightarrow> PimBo \<Rightarrow> PimMemTraceData list \<Rightarrow> int \<Rightarrow> u64 \<Rightarrow> addr \<Rightarrow> 's \<Rightarrow> (int \<times> 's) option" where
  "ocl_emu_gemv_add X = hip_emu_gemv_add X"


section \<open>Where a result ends up\<close>

text \<open>\<open>rd s a\<close> is the half at address \<open>a\<close>. A transfer writes its halves from the address on and nothing else.\<close>

definition write16_law :: "'s Emu \<Rightarrow> ('s \<Rightarrow> addr \<Rightarrow> u16) \<Rightarrow> bool" where
  "write16_law X rd \<longleftrightarrow> (\<forall>p xs s. (\<forall>i < length xs. rd (em_write16 X p xs s) (p + 2 * i) = xs ! i)
     \<and> (\<forall>a. a + 2 \<le> p \<or> p + 2 * length xs \<le> a \<longrightarrow> rd (em_write16 X p xs s) a = rd s a))"

lemma write16_lawD:
  assumes "write16_law X rd"
  shows "i < length xs \<Longrightarrow> rd (em_write16 X p xs s) (p + 2 * i) = xs ! i"
    "a + 2 \<le> p \<or> p + 2 * length xs \<le> a \<Longrightarrow> rd (em_write16 X p xs s) a = rd s a"
  using assms unfolding write16_law_def by blast+

lemma sint_of_nat_u32: "m < 2 ^ 31 \<Longrightarrow> sint (of_nat m :: u32) = int m"
  by (simp add: sint_uint uint_nat unat_of_nat_u32 signed_take_bit_int_eq_self)


lemma plane_offset_of_nat:
  assumes "k < N * C" "N * C * (H * W) < 2 ^ 31"
  shows "plane_offset (mk_shape N' (of_nat C) (of_nat H) (of_nat W)) (k div C) (k mod C) = int (k * (H * W))"
proof -
  have "of_nat (k div C) * of_nat C * of_nat H * of_nat W + of_nat (k mod C) * of_nat H * of_nat W
      = (of_nat ((k div C * C + k mod C) * (H * W)) :: u32)" by (simp only: of_nat_mult of_nat_add distrib_right mult.assoc)
  also have "\<dots> = of_nat (k * (H * W))" by (simp only: div_mult_mod_eq)
  finally have eq: "of_nat (k div C) * of_nat C * of_nat H * of_nat W + of_nat (k mod C) * of_nat H * of_nat W
      = (of_nat (k * (H * W)) :: u32)" .
  have "k * (H * W) \<le> N * C * (H * W)" using assms(1) by (intro mult_le_mono1) simp
  then have "k * (H * W) < 2 ^ 31" using assms(2) by (rule le_less_trans)
  from sint_of_nat_u32 [OF this] show ?thesis by (simp add: plane_offset_def mk_shape_def eq del: of_nat_mult)
qed

lemma planes_flat:
  assumes "N < 2 ^ 32" "C < 2 ^ 32" "0 < C"
  shows "planes (mk_shape (of_nat N) (of_nat C) h w) = map (\<lambda>k. (k div C, k mod C)) [0..<N * C]"
  using concat_map_flat [OF assms(3), of Pair N] assms(1,2)
  by (simp add: planes_def mk_shape_def unat_of_nat_u32)

text \<open>
  The copies of a list of different planes \<open>ks\<close>: \<open>P\<close> elements of the result and \<open>L\<close> of the real output
  belong to each.
\<close>

lemma copy_planes_run:
  assumes "write16_law X rd" "distinct ks" "\<forall>k \<in> set ks. k < N"
    "\<And>k. k < N \<Longrightarrow> plane_offset (bshape out) (k div C) (k mod C) = int (k * P)"
    "\<And>k. k < N \<Longrightarrow> plane_offset (bshape_r out) (k div C) (k mod C) = int (k * L)"
    "L \<le> P" "N * P \<le> length sim" "dst + 2 * (N * L) < 2 ^ 64"
  shows "\<exists>s'. copy_planes X dst out L sim (map (\<lambda>k. (k div C, k mod C)) ks) s = Some s'
    \<and> (\<forall>k \<in> set ks. \<forall>j < L. rd s' (dst + 2 * (k * L + j)) = sim ! (k * P + j))
    \<and> (\<forall>a. (\<forall>k \<in> set ks. a + 2 \<le> dst + 2 * (k * L) \<or> dst + 2 * (k * L + L) \<le> a) \<longrightarrow> rd s' a = rd s a)"
  using assms(2,3)
proof (induction ks arbitrary: s)
  case (Cons k ks)
  have k: "k < N" using Cons.prems by simp
  have "(k + 1) * P \<le> N * P" "(k + 1) * L \<le> N * L" using k by (intro mult_le_mono1; simp)+
  then have fits: "k * P + L \<le> length sim" "dst + 2 * (k * L) < 2 ^ 64" using assms(6-8) by simp_all
  let ?s1 = "em_write16 X (dst + 2 * (k * L)) (take L (drop (k * P) sim)) s"
  have len: "length (take L (drop (k * P) sim)) = L" using fits(1) by simp
  obtain s' where s': "copy_planes X dst out L sim (map (\<lambda>k. (k div C, k mod C)) ks) ?s1 = Some s'"
    "\<forall>k \<in> set ks. \<forall>j < L. rd s' (dst + 2 * (k * L + j)) = sim ! (k * P + j)"
    "\<forall>a. (\<forall>k \<in> set ks. a + 2 \<le> dst + 2 * (k * L) \<or> dst + 2 * (k * L + L) \<le> a) \<longrightarrow> rd s' a = rd ?s1 a"
    using Cons.IH [of ?s1] Cons.prems by auto
  have "ptr_add dst (2 * int (k * L)) = dst + 2 * (k * L)"
    using fits(2) by (simp add: ptr_add_def nat_add_distrib flip: of_nat_mult of_nat_add)
  then have run: "copy_planes X dst out L sim (map (\<lambda>k. (k div C, k mod C)) (k # ks)) s = Some s'"
    using s'(1) fits(1) assms(4,5) [OF k] by (simp add: Let_def del: of_nat_mult)
  have apart: "k * L + L \<le> k' * L \<or> k' * L + L \<le> k * L" if "k' \<in> set ks" for k'
  proof -
    have "k' \<noteq> k" using Cons.prems(1) that by auto
    then have "k' + 1 \<le> k \<or> k + 1 \<le> k'" by auto
    then have "(k' + 1) * L \<le> k * L \<or> (k + 1) * L \<le> k' * L" using mult_le_mono1 by blast
    then show ?thesis by auto
  qed
  have hd: "rd s' (dst + 2 * (k * L + j)) = sim ! (k * P + j)" if "j < L" for j
  proof -
    have "\<forall>k' \<in> set ks. dst + 2 * (k * L + j) + 2 \<le> dst + 2 * (k' * L) \<or> dst + 2 * (k' * L + L) \<le> dst + 2 * (k * L + j)"
      using apart that by fastforce
    then have "rd s' (dst + 2 * (k * L + j)) = rd ?s1 (dst + 2 * (k * L) + 2 * j)"
      using s'(3) by (simp add: algebra_simps)
    also have "\<dots> = take L (drop (k * P) sim) ! j" using that len by (intro write16_lawD [OF assms(1)]) simp
    finally show ?thesis using that fits(1) by simp
  qed
  have "rd s' a = rd s a" if "\<forall>k \<in> set (k # ks). a + 2 \<le> dst + 2 * (k * L) \<or> dst + 2 * (k * L + L) \<le> a" for a
    using that s'(3) write16_lawD(2) [OF assms(1), of a "dst + 2 * (k * L)" "take L (drop (k * P) sim)" s] len by auto
  with hd s'(2) run show ?case by (auto intro!: exI [of _ s'])
qed auto


lemma length_add_bias:
  assumes "add_bias X bias sim s = Some res" "\<And>p n xs s. length (em_read_into X p n xs s) = length xs"
    "\<And>n s. length (em_fresh16 X n s) = n"
  shows "length res = length sim"
  using assms by (auto simp: add_bias_def split: option.splits if_splits)

text \<open>C32: the emulated matrix product of the HIP backend. For every batch and channel the elements of the
  real output, row by row without gaps, receive consecutive elements of the simulator's result (with
  bias and activation applied), and nothing else changes. Row \<open>h\<close> therefore starts at element \<open>h * Wr\<close>
  of a plane whose rows are \<open>W\<close> elements apart: the rows after the first are right exactly when the
  output is not padded.
\<close>

theorem hip_gemm_result_rows:
  assumes "write16_law X rd" "mem_type out \<noteq> MEM_TYPE_HOST"
    "bshape out = mk_shape (of_nat N) (of_nat C) (of_nat H) (of_nat W)"
    "bshape_r out = mk_shape (of_nat N) (of_nat C) (of_nat Hr) (of_nat Wr)" "sh_w (bshape_r wei) = of_nat Wr"
    "0 < N" "0 < C" "0 < H" "0 < W" "Hr \<le> H" "Wr \<le> W" "N * C * (H * W) < 2 ^ 31"
    "bo_data out + 2 * (N * C * (Hr * Wr)) < 2 ^ 64"
    "s1 = simulate X [(of_nat (bo_data wei) - base, bo_data wei, bo_size wei)] tr n32 s"
    "add_bias X bias (sim_read_result_gemv X (of_nat tmp - base) (N * C * (H * W)) s1) s1 = Some res"
    "length res = N * C * (H * W)"
  shows "\<exists>s'. hip_emu_gemm_bias_act X out wei tr n32 base tmp bias act s = Some (0, s')
    \<and> (\<forall>n < N. \<forall>c < C. \<forall>h < Hr. \<forall>w < Wr. rd s' (bo_data out + 2 * (((n * C + c) * Hr + h) * Wr + w))
          = apply_relu X act res ! ((n * C + c) * (H * W) + h * Wr + w))
    \<and> (\<forall>a. a + 2 \<le> bo_data out \<or> bo_data out + 2 * (N * C * (Hr * Wr)) \<le> a \<longrightarrow> rd s' a = rd s1 a)"
proof -
  let ?P = "H * W" and ?L = "Hr * Wr" and ?res = "apply_relu X act res"
  have HW: "0 < ?P" "?L \<le> ?P" using assms(8-11) by (auto intro: mult_le_mono)
  have NC: "N * C \<le> N * C * ?P" "N \<le> N * C" "C \<le> N * C" "?P \<le> N * C * ?P" using HW assms(6,7) by simp_all
  then have small: "N < 2 ^ 31" "C < 2 ^ 31" "N * C * ?L < 2 ^ 31"
    using assms(12) mult_le_mono2 [OF HW(2), of "N * C"] by linarith+
  have L: "?L < 2 ^ 32" using le_less_trans [OF order_trans [OF HW(2) NC(4)] assms(12)] by simp
  have "of_nat (N * C * ?P) = (of_nat N * of_nat C * of_nat H * of_nat W :: u32)" by (simp add: mult.assoc)
  then have dim: "gemm_out_dim out = Some (N * C * ?P)"
    using assms(3,12) sint_of_nat_u32 [of "N * C * ?P"] by (simp add: gemm_out_dim_def mk_shape_def del: of_nat_mult)
  have "unat (of_nat (Wr * Hr) :: u32) = ?L" using L by (simp add: unat_of_nat_u32 mult.commute del: of_nat_mult)
  then have len: "plane_len out wei = ?L" using assms(4,5) by (simp add: plane_len_def mk_shape_def)
  have lr: "N * C * ?P \<le> length ?res" using assms(16) by (simp add: apply_relu_def)
  have off: "plane_offset (bshape out) (k div C) (k mod C) = int (k * ?P)"
    "plane_offset (bshape_r out) (k div C) (k mod C) = int (k * ?L)" if "k < N * C" for k
    using plane_offset_of_nat [OF that assms(12)] plane_offset_of_nat [OF that small(3)] by (simp_all add: assms(3,4))
  have ks: "\<forall>k \<in> set [0..<N * C]. k < N * C" by simp
  obtain s' where s': "copy_planes X (bo_data out) out ?L ?res (map (\<lambda>k. (k div C, k mod C)) [0..<N * C]) s1 = Some s'"
    "\<forall>k \<in> set [0..<N * C]. \<forall>j < ?L. rd s' (bo_data out + 2 * (k * ?L + j)) = ?res ! (k * ?P + j)"
    "\<forall>a. (\<forall>k \<in> set [0..<N * C]. a + 2 \<le> bo_data out + 2 * (k * ?L) \<or> bo_data out + 2 * (k * ?L + ?L) \<le> a) \<longrightarrow> rd s' a = rd s1 a"
    by (rule exE [OF copy_planes_run [OF assms(1) distinct_upt ks off HW(2) lr assms(13)]], assumption+) (elim conjE, rule that)
  have "planes (bshape out) = map (\<lambda>k. (k div C, k mod C)) [0..<N * C]"
    using small assms(7) unfolding assms(3) by (intro planes_flat) simp_all
  then have run: "hip_emu_gemm_bias_act X out wei tr n32 base tmp bias act s = Some (0, s')"
    unfolding hip_emu_gemm_bias_act_def dim Let_def assms(14) [symmetric] bind.bind_lunit assms(15) len
    using assms(2) s'(1) by simp
  have el: "rd s' (bo_data out + 2 * (((n * C + c) * Hr + h) * Wr + w)) = ?res ! ((n * C + c) * ?P + h * Wr + w)"
    if "n < N" "c < C" "h < Hr" "w < Wr" for n c h w
  proof -
    have k: "n * C + c < N * C" and j: "h * Wr + w < ?L" using that by (intro radix_bound; simp)+
    have "((n * C + c) * Hr + h) * Wr + w = (n * C + c) * ?L + (h * Wr + w)" by (simp add: algebra_simps)
    moreover have "rd s' (bo_data out + 2 * ((n * C + c) * ?L + (h * Wr + w))) = ?res ! ((n * C + c) * ?P + (h * Wr + w))"
      by (rule s'(2) [rule_format, OF _ j]) (use k in simp)
    ultimately show ?thesis by (simp only: add.assoc)
  qed
  have "rd s' a = rd s1 a" if a: "a + 2 \<le> bo_data out \<or> bo_data out + 2 * (N * C * ?L) \<le> a" for a
  proof -
    have "\<forall>k \<in> set [0..<N * C]. a + 2 \<le> bo_data out + 2 * (k * ?L) \<or> bo_data out + 2 * (k * ?L + ?L) \<le> a"
    proof
      fix k assume "k \<in> set [0..<N * C]"
      then have "(k + 1) * ?L \<le> N * C * ?L" by (intro mult_le_mono1) simp
      then have "k * ?L + ?L \<le> N * C * ?L" by simp
      then have le: "bo_data out + 2 * (k * ?L + ?L) \<le> bo_data out + 2 * (N * C * ?L)"
        by (intro add_left_mono mult_le_mono2)
      from a show "a + 2 \<le> bo_data out + 2 * (k * ?L) \<or> bo_data out + 2 * (k * ?L + ?L) \<le> a"
        by (rule disj_forward) (erule trans_le_add1, erule order_trans [OF le])
    qed
    then show ?thesis by (rule s'(3) [THEN spec, THEN mp])
  qed
  with run el show ?thesis by blast
qed


text \<open>An instance: memory is a map from addresses to halves, the simulator's result counts up.\<close>

definition map_emu :: "(addr \<Rightarrow> u16) Emu" where
  "map_emu = \<lparr>sim_preload_data = (\<lambda>_ _ _ s. s), sim_execute_kernel = (\<lambda>_ _ s. s),
     sim_read_result = (\<lambda>_ n _. replicate (n div 2) 0), sim_read_result_gemv = (\<lambda>_ n _. map of_nat [0..<n]),
     em_read_into = (\<lambda>_ _ xs _. xs),
     em_write16 = (\<lambda>p xs s a. if p \<le> a \<and> a < p + 2 * length xs then xs ! ((a - p) div 2) else s a),
     em_fresh16 = (\<lambda>n _. replicate n 0), em_map = (\<lambda>p _ _. Some p), em_obj = (\<lambda>_ _. None),
     half_add = (+), half_neg = (\<lambda>_. False)\<rparr>"

lemma map_emu_law: "write16_law map_emu (\<lambda>s. s)"
  by (auto simp: write16_law_def map_emu_def)

definition demo_out :: PimBo where
  "demo_out = \<lparr>mem_type = MEM_TYPE_DEVICE, data_layout_type = RAW, bshape = mk_shape 1 1 2 4, bshape_r = mk_shape 1 1 2 3,
     precision = PIM_FP16, bo_size = 16, bo_size_r = 12, bo_data = 100, use_user_ptr = False, transposed = False\<rparr>"

lemma hip_gemm_result_rows_witness:
  "\<exists>s'. hip_emu_gemm_bias_act map_emu demo_out demo_out [] 0 0 0 None NONE (\<lambda>_. 0) = Some (0, s')
    \<and> (\<forall>n < 1. \<forall>c < 1. \<forall>h < 2. \<forall>w < 3. s' (bo_data demo_out + 2 * (((n * 1 + c) * 2 + h) * 3 + w))
          = apply_relu map_emu NONE (map of_nat [0..<8]) ! ((n * 1 + c) * (2 * 4) + h * 3 + w))
    \<and> (\<forall>a. a + 2 \<le> bo_data demo_out \<or> bo_data demo_out + 2 * (1 * 1 * (2 * 3)) \<le> a \<longrightarrow> s' a = (\<lambda>_. 0) a)"
  by (rule hip_gemm_result_rows [OF map_emu_law])
     (simp_all add: demo_out_def mk_shape_def map_emu_def simulate_def add_bias_def)

end
