(* ===== verification/Launch.thy ===== *)
theory Launch
  imports PimTypes
begin

text \<open>
  Kernel launches as values: the kernel that an executor starts with the arguments it passes
  (\<open>runtime/source/executor/hip/HipPimExecutor.cpp\<close> and \<open>ocl/OclPimExecutor.cpp\<close>).
\<close>

section \<open>Kernels\<close>

datatype GemmKernel =
    pim_aligned_gemm_bias_relu_8tile_fp16 | pim_aligned_gemm_bias_relu_fp16
  | pim_chwise_gemm_bias_relu_32tile_fp16 | pim_chwise_gemm_bias_relu_fp16

definition aligned_kernel :: "int \<Rightarrow> GemmKernel" where
  "aligned_kernel n_in_tile =
     (if n_in_tile = 8 then pim_aligned_gemm_bias_relu_8tile_fp16 else pim_aligned_gemm_bias_relu_fp16)"

definition chwise_kernel :: "int \<Rightarrow> GemmKernel" where
  "chwise_kernel n_in_tile =
     (if n_in_tile = 32 then pim_chwise_gemm_bias_relu_32tile_fp16 else pim_chwise_gemm_bias_relu_fp16)"

record GemmArgs =
  ga_base :: addr
  ga_input :: addr
  ga_weight :: addr
  ga_bias :: addr
  ga_output :: addr
  ga_tmp :: addr
  ga_iter_cnt :: int
  ga_in_h :: u32
  ga_in_w :: u32
  ga_out_w :: u32
  ga_in_tile :: int
  ga_out_tile :: int
  ga_is_bias :: bool
  ga_is_relu :: bool
  ga_crf :: addr
  ga_crf_size :: int

text \<open>
  The arguments of an element-wise kernel: sources, destination, base, a size or number of tiles, the
  program.
\<close>

datatype HipKernel =
    elt_op_pim addr addr addr addr int addr int
  | relu_pim addr addr addr int addr int
  | copy_pim addr addr addr int addr int
  | bn_pim_nr_sip addr addr addr addr int u32 u32 u32 addr int addr int
  | gemm_pim GemmKernel GemmArgs
  | dummy_kernel

datatype OclKernel =
    ocl_elt_op_pim addr addr addr addr int addr int
  | ocl_relu_pim_operation addr addr addr int addr int
  | ocl_copy_pim addr addr addr int addr int
  | ocl_bn_pim_nr_sip addr addr addr int addr int addr int
  | ocl_gemm_pim GemmKernel GemmArgs

end
