(* ===== verification/ExecBase.thy ===== *)
theory ExecBase
  imports CrfBin PimEmulator RuntimeCore Launch
begin

text \<open>
  What the two executors share: the retrieval of a program from the generator's cache, which allocates
  and fills device memory through the memory manager (\<open>get_crf_bin\<close>, \<open>make_crf_bin\<close>), the SRF image of
  batch normalisation, the kernels with their arguments, and the launch parameters they compute from
  buffer objects. The kernels themselves are device code and stay parameters: a launch is a value of
  type \<open>HipKernel\<close> or \<open>OclKernel\<close>.
\<close>

section \<open>Programs\<close>

text \<open>Host memory: \<open>new\<close> and \<open>delete\<close> of byte arrays and access through host pointers.\<close>

record 's HostMem =
  hm_new :: "nat \<Rightarrow> 's \<Rightarrow> addr \<times> 's"
  hm_delete :: "addr \<Rightarrow> 's \<Rightarrow> 's"
  hm_load8 :: "addr \<Rightarrow> nat \<Rightarrow> 's \<Rightarrow> u8 list"
  hm_store8 :: "addr \<Rightarrow> u8 list \<Rightarrow> 's \<Rightarrow> 's"
  hm_load16 :: "addr \<Rightarrow> nat \<Rightarrow> 's \<Rightarrow> u16 list"
  hm_store16 :: "addr \<Rightarrow> u16 list \<Rightarrow> 's \<Rightarrow> 's"

text \<open>
  \<open>make_crf_bin\<close> of the generator with its allocation and copy: the image that the generator leaves in
  the host buffer goes to the device. A failed allocation leaves the pointer unset (\<open>None\<close>).
\<close>

definition build_crf ::
    "'s MemOps \<Rightarrow> 's HostMem \<Rightarrow> PimOpType \<Rightarrow> int \<Rightarrow> CrfGen \<times> 's \<Rightarrow> (addr \<times> CrfGen \<times> 's) option" where
  "build_crf M Hm op data_size gs =
    (let (g, s) = gs; (h_crf, s) = hm_new Hm (max_crf_size g) s
     in do {
       (ret, d_crf, s) \<leftarrow> mm_alloc_memory M 0 (max_crf_size g) MEM_TYPE_DEVICE s;
       (d_crf, g', img) \<leftarrow> make_crf_bin vega20_pbi (if ret = 0 then Some d_crf else None)
          (hm_load8 Hm h_crf (max_crf_size g) s) op data_size (g, \<lambda>_. None);
       bin \<leftarrow> img d_crf;
       (ret, s) \<leftarrow> mm_copy_memory M d_crf h_crf (max_crf_size g) HOST_TO_DEVICE (hm_store8 Hm h_crf bin s);
       Some (d_crf, g', hm_delete Hm h_crf s)
     })"

definition get_crf_bin ::
    "'s MemOps \<Rightarrow> 's HostMem \<Rightarrow> PimOpType \<Rightarrow> int \<Rightarrow> CrfGen \<times> 's \<Rightarrow> (addr \<times> CrfGen \<times> 's) option" where
  "get_crf_bin M Hm op data_size gs =
    (let crf_bin = find_crf (fst gs) op data_size
     in if crf_bin \<noteq> 0 then Some (crf_bin, gs) else build_crf M Hm op data_size gs)"

text \<open>The bytes of the SRF buffer and the channels of a batch normalisation.\<close>

definition srf_bytes :: nat where
  "srf_bytes = nat (num_pim_chan vega20_pbi * num_pim_rank vega20_pbi * trans_size vega20_pbi)"

definition srf_channels :: "'s HostMem \<Rightarrow> PimBo \<Rightarrow> PimBo \<Rightarrow> PimBo \<Rightarrow> PimBo \<Rightarrow> 's \<Rightarrow> (u16 \<times> u16 \<times> u16 \<times> u16) list" where
  "srf_channels Hm beta gamma mean variance s =
    (let n = unat (sh_c (bshape beta)); ld = (\<lambda>b. hm_load16 Hm (bo_data b) n s)
     in zip (ld beta) (zip (ld gamma) (zip (ld mean) (ld variance))))"

definition fill_srf ::
    "'s HostMem \<Rightarrow> u16 srf_fns \<Rightarrow> PimBo \<Rightarrow> PimBo \<Rightarrow> PimBo \<Rightarrow> PimBo \<Rightarrow> addr \<Rightarrow> 's \<Rightarrow> 's option" where
  "fill_srf Hm fns beta gamma mean variance srf_binary s =
     map_option (\<lambda>img. hm_store16 Hm srf_binary img s)
       (preprocess_srf vega20_pbi fns (srf_channels Hm beta gamma mean variance s)
         (hm_load16 Hm srf_binary (srf_bytes div 2) s))"

section \<open>Launch parameters\<close>

text \<open>\<open>131072 << 1\<close>, the bytes one pass of the element-wise kernels works on.\<close>

definition elt_align :: int where
  "elt_align = 262144"

definition out_size :: "PimBo \<Rightarrow> int" where
  "out_size bo = i32 (int (bo_size bo))"

definition elt_num_tile :: "PimBo \<Rightarrow> int" where
  "elt_num_tile out = cdiv (i32 (out_size out + elt_align - 1)) elt_align"

text \<open>The same quotient in \<open>size_t\<close>.\<close>

definition size_num_tile :: "PimBo \<Rightarrow> int" where
  "size_num_tile out = (int (bo_size out) + elt_align - 1) mod 2 ^ 64 div elt_align"

definition gemm_in_tile :: "PimBo \<Rightarrow> int" where
  "gemm_in_tile inp = i32 (uint (sh_w (bshape inp)) * 2 div trans_size vega20_pbi div num_grf_A vega20_pbi)"

definition gemm_out_tile :: "PimBo \<Rightarrow> int" where
  "gemm_out_tile out =
     uint (sh_w (bshape out)) div (num_pim_chan vega20_pbi * num_pim_blocks vega20_pbi * num_grf_B vega20_pbi)"

definition aligned_iter_cnt :: "PimBo \<Rightarrow> int" where
  "aligned_iter_cnt wei =
     uint (sh_n (bshape wei) * sh_c (bshape wei) * sh_w (bshape wei)) div PIM_GEMV_OUT_ALIGN"

text \<open>A weight wider than 4096 makes the inner quotient zero: a division by zero.\<close>

definition chwise_iter_cnt :: "PimBo \<Rightarrow> int option" where
  "chwise_iter_cnt wei =
    (let w = uint (sh_w (bshape wei))
     in if w = 0 \<or> PIM_GEMV_OUT_ALIGN div w = 0 then None
        else Some (i32 (uint (sh_n (bshape wei) * sh_c (bshape wei)) div (PIM_GEMV_OUT_ALIGN div w))))"

definition gemv_key :: "PimBo \<Rightarrow> int" where
  "gemv_key inp = i32 (uint (sh_w (bshape inp)) * 2)"

section \<open>The emulator build\<close>

definition fmtd_size_per_ch :: nat where "fmtd_size_per_ch = 100000"
definition max_block_size :: nat where "max_block_size = nat (num_pim_chan vega20_pbi)"
definition max_fmtd_size :: nat where "max_fmtd_size = fmtd_size_per_ch * max_block_size"

text \<open>The kernel type from the first character of \<open>PIM_KERNEL_TYPE\<close>; unset, the member keeps its content.\<close>

definition parse_kernel_type :: "string option \<Rightarrow> PimKrnlType \<Rightarrow> PimKrnlType" where
  "parse_kernel_type env junk =
    (case env of
       None \<Rightarrow> junk
     | Some v \<Rightarrow> if take 1 v = ''1'' then PIM else if take 1 v = ''2'' then CUSTOM_GPU else OPTIMAL)"

end
