(* ===== verification/HipExec.thy ===== *)
theory HipExec
  imports ExecBase
begin

text \<open>
  The HIP executor, \<open>runtime/source/executor/hip/HipPimExecutor.cpp\<close>, for the hardware build and the
  emulator build. The HIP runtime, the kernels and the vendored matrix-vector routines are fields of
  \<open>HipRt\<close>; its results that the source does not look at are left out. \<open>execute_gemm\<close> and what it calls
  work on the state of the library, since they call the runtime and the C API back.
\<close>

section \<open>State and environment\<close>

datatype RocblasCall =
    gemv_fp16_Axy (r_mat: addr) (r_vec: addr) (r_out: addr) (r_m: u32) (r_n: u32) (r_k: u32) (r_accum: bool)
  | gemv_fp16_xAy (r_vec: addr) (r_mat: addr) (r_out: addr) (r_m: u32) (r_n: u32) (r_k: u32) (r_accum: bool)
  | addmv_fp16_Axy_large (r_in: addr) (r_mat: addr) (r_vec: addr) (r_out: addr) (r_m: u32) (r_n: u32) (r_k: u32) (r_relu: bool)
  | addmv_fp16_Axy (r_in: addr) (r_mat: addr) (r_vec: addr) (r_out: addr) (r_m: u32) (r_n: u32) (r_k: u32) (r_relu: bool)
  | addmv_fp16_xAy (r_in: addr) (r_vec: addr) (r_mat: addr) (r_out: addr) (r_m: u32) (r_n: u32) (r_k: u32) (r_relu: bool)

text \<open>
  \<open>hr_base_addr\<close> is \<open>g_pim_base_addr[device_id]\<close>, \<open>None\<close> outside the array. \<open>hr_trace\<close> gives what the kernel
  recorded: the number of entries of a block and the array of all blocks. \<open>hr_emu\<close> is \<open>None\<close> in the hardware
  build.
\<close>

record 's HipRt =
  hr_host :: "'s HostMem"
  hr_GetDevice :: "'s \<Rightarrow> int \<times> int"
  hr_SetDevice :: "u32 \<Rightarrow> 's \<Rightarrow> int \<times> 's"
  hr_Malloc :: "nat \<Rightarrow> 's \<Rightarrow> addr \<times> 's"
  hr_Memset :: "addr \<Rightarrow> nat \<Rightarrow> 's \<Rightarrow> 's"
  hr_Free :: "addr \<Rightarrow> 's \<Rightarrow> 's"
  hr_MemcpyHtoD :: "addr \<Rightarrow> addr \<Rightarrow> nat \<Rightarrow> 's \<Rightarrow> 's"
  hr_StreamCreate :: "'s \<Rightarrow> addr \<times> 's"
  hr_StreamSynchronize :: "addr \<Rightarrow> 's \<Rightarrow> int \<times> 's"
  hr_Launch :: "HipKernel \<Rightarrow> nat \<Rightarrow> nat \<Rightarrow> addr \<Rightarrow> 's \<Rightarrow> 's"
  hr_rocblas :: "RocblasCall \<Rightarrow> addr \<Rightarrow> 's \<Rightarrow> 's"
  hr_base_addr :: "int \<Rightarrow> 's \<Rightarrow> addr option"
  hr_trace :: "'s \<Rightarrow> nat \<times> PimMemTraceData list"
  hr_emu :: "'s Emu option"
  hr_srf_fns :: "u64 \<Rightarrow> u16 srf_fns"

record HipExec =
  he_crf_generator :: CrfGen
  he_precision :: PimPrecision
  he_gemv_type :: PimGemvType
  he_kernel_type :: PimKrnlType
  he_gemm_order :: PimGemmOrder
  he_srf_buffer :: addr
  he_tmp_buffer :: addr
  he_zero_buffer :: addr
  he_fmtd32 :: "PimMemTraceData list"

text \<open>The constructor; \<open>junk\<close> stands for the members it leaves unset.\<close>

definition HipPimExecutor_new :: "(string \<Rightarrow> string option) \<Rightarrow> HipExec \<Rightarrow> PimPrecision \<Rightarrow> HipExec" where
  "HipPimExecutor_new getenv junk prec = junk
    \<lparr>he_crf_generator := crf_gen_init, he_precision := prec,
     he_gemv_type := (case getenv ''ENABLE_NEXT_PIM'' of None \<Rightarrow> TILE_ACCUM
                      | Some v \<Rightarrow> if take 1 v = ''1'' then NEXT_PIM else TILE_ACCUM),
     he_kernel_type := parse_kernel_type (getenv ''PIM_KERNEL_TYPE'') (he_kernel_type junk)\<rparr>"

definition hip_ex_initialize :: "'s MemOps \<Rightarrow> 's HipRt \<Rightarrow> HipExec \<times> 's \<Rightarrow> (int \<times> HipExec \<times> 's) option" where
  "hip_ex_initialize M R es =
    (let (e, s) = es;
         e = e\<lparr>he_crf_generator := set_gemv_tile_tree (he_gemv_type e = TILE_TREE) (he_crf_generator e)\<rparr>;
         (srf, s) = hr_Malloc R 2048 s;
         (zero, s) = hr_Malloc R 32 s;
         s = hr_Memset R zero 32 s
     in do {
       (ret, tmp, s) \<leftarrow> mm_alloc_memory M (he_tmp_buffer e) (8 * 2 * 1024 * 1024) MEM_TYPE_PIM s;
       Some (0, e\<lparr>he_srf_buffer := srf, he_zero_buffer := zero, he_tmp_buffer := tmp\<rparr>, s)
     })"

definition hip_ex_deinitialize :: "'s MemOps \<Rightarrow> 's HipRt \<Rightarrow> HipExec \<times> 's \<Rightarrow> (int \<times> HipExec \<times> 's) option" where
  "hip_ex_deinitialize M R es =
    (let (e, s) = es
     in do {
       (ret, s) \<leftarrow> mm_free_memory M (he_tmp_buffer e) MEM_TYPE_PIM (hr_Free R (he_zero_buffer e) (hr_Free R (he_srf_buffer e) s));
       Some (0, e, s)
     })"

section \<open>Running a kernel\<close>

text \<open>
  The common tail: the hardware build waits for the stream when the call is blocking; the emulator
  build always waits, converts the trace and lets the emulator compute the result.
\<close>

definition hip_finish ::
    "'s HipRt \<Rightarrow> addr \<Rightarrow> bool \<Rightarrow> nat \<Rightarrow> addr \<Rightarrow>
     ('s Emu \<Rightarrow> PimMemTraceData list \<Rightarrow> int \<Rightarrow> u64 \<Rightarrow> 's \<Rightarrow> (int \<times> 's) option) \<Rightarrow>
     HipExec \<times> 's \<Rightarrow> (int \<times> HipExec \<times> 's) option" where
  "hip_finish R stream block blocks base emulate es =
    (let (e, s) = es
     in case hr_emu R of
          None \<Rightarrow> Some (0, e, if block then snd (hr_StreamSynchronize R stream s) else s)
        | Some X \<Rightarrow>
            let s = snd (hr_StreamSynchronize R stream s); (n, h16) = hr_trace R s
            in do {
              (tr, n32) \<leftarrow> emulator_trace_gen fmtd_size_per_ch blocks n (he_fmtd32 e) h16;
              (ret, s) \<leftarrow> emulate X tr n32 (of_nat base) s;
              Some (0, e\<lparr>he_fmtd32 := tr\<rparr>, s)
            })"

definition hip_crf :: "'s MemOps \<Rightarrow> 's HipRt \<Rightarrow> PimOpType \<Rightarrow> int \<Rightarrow> HipExec \<times> 's \<Rightarrow> (addr \<times> HipExec \<times> 's) option" where
  "hip_crf M R op data_size es = do {
     (crf_bin, g, s) \<leftarrow> get_crf_bin M (hr_host R) op data_size (he_crf_generator (fst es), snd es);
     Some (crf_bin, (fst es)\<lparr>he_crf_generator := g\<rparr>, s)
   }"

definition hip_elt_op ::
    "'s MemOps \<Rightarrow> 's HipRt \<Rightarrow> PimOpType \<Rightarrow> PimBo \<Rightarrow> PimBo \<Rightarrow> PimBo \<Rightarrow> addr \<Rightarrow> bool \<Rightarrow> HipExec \<times> 's \<Rightarrow> (int \<times> HipExec \<times> 's) option" where
  "hip_elt_op M R op out op0 op1 stream block es = do {
     (crf_bin, e, s) \<leftarrow> hip_crf M R op (out_size out) es;
     base \<leftarrow> hr_base_addr R (snd (hr_GetDevice R s)) s;
     hip_finish R stream block 64 base (\<lambda>X. hip_emu_elt_op X out op0 op1)
       (e, hr_Launch R (elt_op_pim (bo_data op0) (bo_data op1) base (bo_data out) (elt_num_tile out) crf_bin 32) 64 32 stream s)
   }"

definition hip_execute_add ::
    "'s MemOps \<Rightarrow> 's HipRt \<Rightarrow> PimBo \<Rightarrow> PimBo \<Rightarrow> PimBo \<Rightarrow> addr \<Rightarrow> bool \<Rightarrow> HipExec \<times> 's \<Rightarrow> (int \<times> HipExec \<times> 's) option" where
  "hip_execute_add M R = hip_elt_op M R OP_ELT_ADD"

definition hip_execute_mul ::
    "'s MemOps \<Rightarrow> 's HipRt \<Rightarrow> PimBo \<Rightarrow> PimBo \<Rightarrow> PimBo \<Rightarrow> addr \<Rightarrow> bool \<Rightarrow> HipExec \<times> 's \<Rightarrow> (int \<times> HipExec \<times> 's) option" where
  "hip_execute_mul M R = hip_elt_op M R OP_ELT_MUL"

definition hip_execute_relu ::
    "'s MemOps \<Rightarrow> 's HipRt \<Rightarrow> PimBo \<Rightarrow> PimBo \<Rightarrow> addr \<Rightarrow> bool \<Rightarrow> HipExec \<times> 's \<Rightarrow> (int \<times> HipExec \<times> 's) option" where
  "hip_execute_relu M R out inp stream block es = do {
     (crf_bin, e, s) \<leftarrow> hip_crf M R OP_RELU (out_size out) es;
     base \<leftarrow> hr_base_addr R (snd (hr_GetDevice R s)) s;
     hip_finish R stream block max_block_size base (\<lambda>X. hip_emu_relu_bn_copy X out inp)
       (e, hr_Launch R (relu_pim (bo_data inp) base (bo_data out) (out_size out) crf_bin 32) max_block_size 32 stream s)
   }"

definition hip_execute_copy ::
    "'s MemOps \<Rightarrow> 's HipRt \<Rightarrow> PimBo \<Rightarrow> PimBo \<Rightarrow> addr \<Rightarrow> bool \<Rightarrow> HipExec \<times> 's \<Rightarrow> (int \<times> HipExec \<times> 's) option" where
  "hip_execute_copy M R out inp stream block es = do {
     (crf_bin, e, s) \<leftarrow> hip_crf M R OP_COPY (out_size out) es;
     base \<leftarrow> hr_base_addr R (snd (hr_GetDevice R s)) s;
     hip_finish R stream block max_block_size base (\<lambda>X. hip_emu_relu_bn_copy X out inp)
       (e, hr_Launch R (copy_pim (bo_data inp) base (bo_data out) (out_size out) crf_bin 32) max_block_size 32 stream s)
   }"

text \<open>The number of tiles is rounded down here.\<close>

definition hip_execute_bn ::
    "'s MemOps \<Rightarrow> 's HipRt \<Rightarrow> PimBo \<Rightarrow> PimBo \<Rightarrow> PimBo \<Rightarrow> PimBo \<Rightarrow> PimBo \<Rightarrow> PimBo \<Rightarrow> u64 \<Rightarrow> addr \<Rightarrow> bool \<Rightarrow> HipExec \<times> 's
     \<Rightarrow> (int \<times> HipExec \<times> 's) option" where
  "hip_execute_bn M R out inp beta gamma mean variance epsilon stream block es = do {
     (crf_bin, e, s) \<leftarrow> hip_crf M R OP_BN (out_size out) es;
     (let (srf_binary, s) = hm_new (hr_host R) srf_bytes s
      in do {
        s \<leftarrow> fill_srf (hr_host R) (hr_srf_fns R epsilon) beta gamma mean variance srf_binary s;
        (let s = hr_MemcpyHtoD R (he_srf_buffer e) srf_binary srf_bytes s
         in do {
           base \<leftarrow> hr_base_addr R (snd (hr_GetDevice R s)) s;
           (ret, e, s) \<leftarrow> hip_finish R stream block 64 base (\<lambda>X. hip_emu_relu_bn_copy X out inp)
             (e, hr_Launch R (bn_pim_nr_sip (bo_data inp) base (he_tmp_buffer e) (bo_data out) (cdiv (out_size out) elt_align)
                   (sh_n (bshape out)) (sh_c (bshape out)) (sh_w (bshape out)) crf_bin 64 (he_srf_buffer e) (int srf_bytes))
                 64 32 stream s);
           Some (ret, e, hm_delete (hr_host R) srf_binary s)
         })
      })
   }"

section \<open>Matrix products on PIM\<close>

definition bias_data :: "PimBo option \<Rightarrow> addr" where
  "bias_data bias = (case bias of None \<Rightarrow> 0 | Some b \<Rightarrow> bo_data b)"

definition gemm_args ::
    "addr \<Rightarrow> addr \<Rightarrow> PimBo \<Rightarrow> PimBo \<Rightarrow> PimBo \<Rightarrow> PimBo option \<Rightarrow> PimActFunc \<Rightarrow> int \<Rightarrow> int \<Rightarrow> addr \<Rightarrow> GemmArgs" where
  "gemm_args base tmp out inp wei bias act iter_cnt n_out_tile crf_bin =
    \<lparr>ga_base = base, ga_input = bo_data inp, ga_weight = bo_data wei, ga_bias = bias_data bias, ga_output = bo_data out,
     ga_tmp = tmp, ga_iter_cnt = iter_cnt, ga_in_h = sh_h (bshape inp), ga_in_w = sh_w (bshape inp), ga_out_w = sh_w (bshape out),
     ga_in_tile = gemm_in_tile inp, ga_out_tile = n_out_tile, ga_is_bias = (bias \<noteq> None), ga_is_relu = (act = ACT_RELU),
     ga_crf = crf_bin, ga_crf_size = 32\<rparr>"

definition hip_gemm_tile_accum ::
    "'s MemOps \<Rightarrow> 's HipRt \<Rightarrow> GemmKernel \<Rightarrow> int \<Rightarrow> int \<Rightarrow> PimBo \<Rightarrow> PimBo \<Rightarrow> PimBo \<Rightarrow> PimBo option \<Rightarrow> PimActFunc \<Rightarrow> addr \<Rightarrow> bool
     \<Rightarrow> HipExec \<times> 's \<Rightarrow> (int \<times> HipExec \<times> 's) option" where
  "hip_gemm_tile_accum M R kern iter_cnt n_out_tile out inp wei bias act stream block es = do {
     (crf_bin, e, s) \<leftarrow> hip_crf M R OP_GEMV (gemv_key inp) es;
     base \<leftarrow> hr_base_addr R (snd (hr_GetDevice R s)) s;
     hip_finish R stream block max_block_size base
       (\<lambda>X tr n32 b. hip_emu_gemm_bias_act X out wei tr n32 b (he_tmp_buffer e) bias act)
       (e, hr_Launch R (gemm_pim kern (gemm_args base (he_tmp_buffer e) out inp wei bias act iter_cnt n_out_tile crf_bin))
           max_block_size 64 stream s)
   }"

definition hip_execute_aligned_gemm ::
    "'s MemOps \<Rightarrow> 's HipRt \<Rightarrow> PimBo \<Rightarrow> PimBo \<Rightarrow> PimBo \<Rightarrow> PimBo option \<Rightarrow> PimActFunc \<Rightarrow> addr \<Rightarrow> bool
     \<Rightarrow> HipExec \<times> 's \<Rightarrow> (int \<times> HipExec \<times> 's) option" where
  "hip_execute_aligned_gemm M R out inp wei =
     hip_gemm_tile_accum M R (aligned_kernel (gemm_in_tile inp)) (aligned_iter_cnt wei) (gemm_out_tile out) out inp wei"

definition hip_execute_chwise_gemm ::
    "'s MemOps \<Rightarrow> 's HipRt \<Rightarrow> PimBo \<Rightarrow> PimBo \<Rightarrow> PimBo \<Rightarrow> PimBo option \<Rightarrow> PimActFunc \<Rightarrow> addr \<Rightarrow> bool
     \<Rightarrow> HipExec \<times> 's \<Rightarrow> (int \<times> HipExec \<times> 's) option" where
  "hip_execute_chwise_gemm M R out inp wei bias act stream block es = do {
     iter_cnt \<leftarrow> chwise_iter_cnt wei;
     hip_gemm_tile_accum M R (chwise_kernel (gemm_in_tile inp)) iter_cnt 1 out inp wei bias act stream block es
   }"

text \<open>A weight in no PIM layout is only reported; the call returns 0.\<close>

definition hip_execute_hip_gemm ::
    "'s MemOps \<Rightarrow> 's HipRt \<Rightarrow> PimBo \<Rightarrow> PimBo \<Rightarrow> PimBo \<Rightarrow> PimBo option \<Rightarrow> PimActFunc \<Rightarrow> addr \<Rightarrow> bool
     \<Rightarrow> HipExec \<times> 's \<Rightarrow> (int \<times> HipExec \<times> 's) option" where
  "hip_execute_hip_gemm M R out inp wei bias act stream block es =
    (case data_layout_type wei of
       CHWISE_GEMM_WEIGHT \<Rightarrow> hip_execute_chwise_gemm M R out inp wei bias act stream block es
     | ALIGNED_GEMM_WEIGHT \<Rightarrow> hip_execute_aligned_gemm M R out inp wei bias act stream block es
     | RAW \<Rightarrow> Some (0, es))"

section \<open>Matrix-vector products on the GPU\<close>

text \<open>The order of the call that is made and its extents m, n and k.\<close>

definition gemv_dims :: "PimGemmOrder \<Rightarrow> PimBo \<Rightarrow> PimGemmOrder \<times> u32 \<times> u32 \<times> u32" where
  "gemv_dims order wei =
    (let h = sh_h (bshape_r wei); w = sh_w (bshape_r wei)
     in if transposed wei
        then if order = W_X_I then (I_X_W, 1, h, w) else (W_X_I, w, 1, h)
        else if order = W_X_I then (W_X_I, h, 1, w) else (I_X_W, 1, w, h))"

definition gemv_supported :: "PimBo \<Rightarrow> PimBo \<Rightarrow> bool" where
  "gemv_supported vec mat \<longleftrightarrow> sh_n (bshape_r vec) = 1 \<and> data_layout_type mat = RAW \<and> data_layout_type vec = RAW"

definition gemv_call :: "PimGemmOrder \<Rightarrow> PimBo \<Rightarrow> PimBo \<Rightarrow> PimBo \<Rightarrow> bool \<Rightarrow> RocblasCall" where
  "gemv_call order out vec mat accum =
    (let (o', m, n, k) = gemv_dims order mat
     in if o' = W_X_I then gemv_fp16_Axy (bo_data mat) (bo_data vec) (bo_data out) m n k accum
        else gemv_fp16_xAy (bo_data vec) (bo_data mat) (bo_data out) m n k accum)"

definition addmv_call :: "PimGemmOrder \<Rightarrow> PimBo \<Rightarrow> PimBo \<Rightarrow> PimBo \<Rightarrow> PimBo \<Rightarrow> bool \<Rightarrow> RocblasCall" where
  "addmv_call order out vec mat inp relu =
    (let (o', m, n, k) = gemv_dims order mat
     in if o' = W_X_I
        then (if m = 32317 then addmv_fp16_Axy_large else addmv_fp16_Axy)
               (bo_data inp) (bo_data mat) (bo_data vec) (bo_data out) m n k relu
        else addmv_fp16_xAy (bo_data inp) (bo_data vec) (bo_data mat) (bo_data out) m n k relu)"

definition hip_execute_custom_gemv_add ::
    "'s HipRt \<Rightarrow> PimBo \<Rightarrow> PimBo \<Rightarrow> PimBo \<Rightarrow> PimBo \<Rightarrow> bool \<Rightarrow> addr \<Rightarrow> HipExec \<times> 's \<Rightarrow> (int \<times> HipExec \<times> 's) option" where
  "hip_execute_custom_gemv_add R out vec mat inp relu stream es =
    (if \<not> gemv_supported vec mat then Some (1, es)
     else Some (0, fst es, hr_rocblas R (addmv_call (he_gemm_order (fst es)) out vec mat inp relu) stream (snd es)))"

definition hip_run_gemv ::
    "'s HipRt \<Rightarrow> PimBo \<Rightarrow> PimBo \<Rightarrow> PimBo \<Rightarrow> bool \<Rightarrow> addr \<Rightarrow> HipExec \<times> 's \<Rightarrow> (int \<times> HipExec \<times> 's) option" where
  "hip_run_gemv R out vec mat accum stream es =
     Some (0, fst es, hr_rocblas R (gemv_call (he_gemm_order (fst es)) out vec mat accum) stream (snd es))"

section \<open>Remaining operations\<close>

definition hip_execute_sync :: "'s HipRt \<Rightarrow> addr \<Rightarrow> HipExec \<times> 's \<Rightarrow> (int \<times> HipExec \<times> 's) option" where
  "hip_execute_sync R stream es = (case hr_StreamSynchronize R stream (snd es) of (ret, s) \<Rightarrow> Some (ret, fst es, s))"

definition hip_execute_dummy :: "'s HipRt \<Rightarrow> HipExec \<times> 's \<Rightarrow> (int \<times> HipExec \<times> 's) option" where
  "hip_execute_dummy R es = Some (0, fst es, snd (hr_StreamSynchronize R 0 (hr_Launch R dummy_kernel 1 1 0 (snd es))))"

definition hip_create_stream :: "'s HipRt \<Rightarrow> HipExec \<times> 's \<Rightarrow> (addr \<times> HipExec \<times> 's) option" where
  "hip_create_stream R es = (case hr_StreamCreate R (snd es) of (p, s) \<Rightarrow> Some (p, fst es, s))"

definition hip_set_device :: "'s HipRt \<Rightarrow> u32 \<Rightarrow> HipExec \<times> 's \<Rightarrow> (int \<times> HipExec \<times> 's) option" where
  "hip_set_device R d es = (case hr_SetDevice R d (snd es) of (ret, s) \<Rightarrow> Some (ret, fst es, s))"

definition hip_get_device :: "'s HipRt \<Rightarrow> HipExec \<times> 's \<Rightarrow> int \<times> u32" where
  "hip_get_device R es = (case hr_GetDevice R (snd es) of (ret, d) \<Rightarrow> (ret, of_int d))"

definition hip_exec_ops ::
    "'s MemOps \<Rightarrow> 's HipRt \<Rightarrow> (string \<Rightarrow> string option) \<Rightarrow> HipExec \<Rightarrow> ('s, HipExec) ExecOps" where
  "hip_exec_ops M R getenv junk =
    \<lparr>ex_create = (\<lambda>_ prec s. Some (HipPimExecutor_new getenv junk prec, s)),
     ex_initialize = hip_ex_initialize M R, ex_deinitialize = hip_ex_deinitialize M R,
     ex_set_device = hip_set_device R, ex_get_device = hip_get_device R, ex_create_stream = hip_create_stream R,
     ex_add = hip_execute_add M R, ex_mul = hip_execute_mul M R, ex_relu = hip_execute_relu M R,
     ex_copy = hip_execute_copy M R, ex_bn = hip_execute_bn M R, ex_sync = hip_execute_sync R,
     ex_dummy = hip_execute_dummy R, ex_set_gemm_order = (\<lambda>order e. e\<lparr>he_gemm_order := order\<rparr>)\<rparr>"

end
