(* ===== verification/OclExec.thy ===== *)
theory OclExec
  imports HipExec
begin

text \<open>
  The OpenCL executor, \<open>runtime/source/executor/ocl/OclPimExecutor.cpp\<close>: construction with the program
  from a binary or a source file, initialisation, and the operations, whose buffers are
  \<open>OclBufferObj\<close> handles. Every OpenCL call under \<open>cl_ok\<close> that fails stops the program (\<open>None\<close>).
\<close>

section \<open>State and environment\<close>

text \<open>
  \<open>cr_files\<close> tells whether the program binary and the source can be opened. \<open>cr_Launch\<close> sets the arguments
  and enqueues the kernel. \<open>cr_caller_device\<close> is the content of the variable passed to \<open>get_device\<close>, which
  the OpenCL executor leaves as it is.
\<close>

record 's OclRt =
  cr_host :: "'s HostMem"
  cr_obj :: "'s \<Rightarrow> addr \<Rightarrow> OclBufferObj option"
  cr_files :: "bool \<times> bool"
  cr_build_with_source :: "'s \<Rightarrow> int \<times> 's"
  cr_build_with_binary :: "'s \<Rightarrow> int \<times> 's"
  cr_save_binary :: "'s \<Rightarrow> 's"
  cr_CreateKernel :: "string \<Rightarrow> 's \<Rightarrow> bool \<times> 's"
  cr_FillBuffer :: "addr \<Rightarrow> nat \<Rightarrow> 's \<Rightarrow> 's"
  cr_trace_buffers :: "'s \<Rightarrow> bool \<times> 's"
  cr_Launch :: "OclKernel \<Rightarrow> nat \<Rightarrow> nat \<Rightarrow> 's \<Rightarrow> bool \<times> 's"
  cr_Finish :: "'s \<Rightarrow> bool \<times> 's"
  cr_base_addr :: "'s \<Rightarrow> addr"
  cr_trace :: "'s \<Rightarrow> nat \<times> PimMemTraceData list"
  cr_emu :: "'s Emu option"
  cr_srf_fns :: "u64 \<Rightarrow> u16 srf_fns"
  cr_caller_device :: "'s \<Rightarrow> u32"

record OclExec =
  oe_crf_generator :: CrfGen
  oe_gemv_type :: PimGemvType
  oe_kernel_type :: PimKrnlType
  oe_gemm_order :: PimGemmOrder
  oe_base_address :: addr
  oe_srf_buffer :: addr
  oe_tmp_buffer :: addr
  oe_zero_buffer :: addr
  oe_fmtd32 :: "PimMemTraceData list"

section \<open>Construction\<close>

definition check_cl_program_path :: "bool \<times> bool \<Rightarrow> int" where
  "check_cl_program_path files = (if fst files then 1 else if snd files then 0 else -1)"

definition kernel_names :: "string list" where
  "kernel_names = [''elt_op_pim'', ''relu_pim_operation'', ''copy_pim'', ''bn_pim_nr_sip'',
     ''pim_aligned_gemm_bias_relu_8tile_fp16'', ''pim_aligned_gemm_bias_relu_fp16'',
     ''pim_chwise_gemm_bias_relu_32tile_fp16'', ''pim_chwise_gemm_bias_relu_fp16'']"

fun create_kernels :: "'s OclRt \<Rightarrow> string list \<Rightarrow> 's \<Rightarrow> 's option" where
  "create_kernels R [] s = Some s"
| "create_kernels R (k # ks) s = cl_ok (cr_CreateKernel R k s) \<bind> create_kernels R ks"

text \<open>Only a failed build from source is checked.\<close>

definition build_cl_program :: "'s OclRt \<Rightarrow> 's \<Rightarrow> 's option" where
  "build_cl_program R s =
    (let ret = check_cl_program_path (cr_files R)
     in if ret = 0
        then (case cr_build_with_source R s of (err, s) \<Rightarrow> if err \<noteq> 0 then None else Some (cr_save_binary R s))
        else if ret = 1 then Some (snd (cr_build_with_binary R s))
        else None)"

definition OclPimExecutor_new ::
    "'s OclRt \<Rightarrow> (string \<Rightarrow> string option) \<Rightarrow> OclExec \<Rightarrow> 's \<Rightarrow> (OclExec \<times> 's) option" where
  "OclPimExecutor_new R getenv junk s = do {
     s \<leftarrow> build_cl_program R s;
     s \<leftarrow> create_kernels R kernel_names s;
     Some (junk\<lparr>oe_crf_generator := crf_gen_init, oe_gemv_type := TILE_ACCUM, oe_base_address := 0,
                oe_kernel_type := parse_kernel_type (getenv ''PIM_KERNEL_TYPE'') (oe_kernel_type junk)\<rparr>, s)
   }"

definition ocl_ex_initialize :: "'s MemOps \<Rightarrow> 's OclRt \<Rightarrow> OclExec \<times> 's \<Rightarrow> (int \<times> OclExec \<times> 's) option" where
  "ocl_ex_initialize M R es =
    (let (e, s) = es;
         e = e\<lparr>oe_crf_generator := set_gemv_tile_tree (oe_gemv_type e = TILE_TREE) (oe_crf_generator e)\<rparr>
     in do {
       (ret, srf, s) \<leftarrow> mm_alloc_memory M (oe_srf_buffer e) (2048 * 2) MEM_TYPE_DEVICE s;
       (ret, zero, s) \<leftarrow> mm_alloc_memory M (oe_zero_buffer e) (32 * 2) MEM_TYPE_DEVICE s;
       (ret, tmp, s) \<leftarrow> mm_alloc_memory M (oe_tmp_buffer e) (8 * 2 * 1024 * 1024) MEM_TYPE_PIM (cr_FillBuffer R zero (32 * 2) s);
       base \<leftarrow> (if oe_base_address e = 0 then mm_get_base_memobj M s else Some (oe_base_address e));
       s \<leftarrow> (if cr_emu R = None then Some s else cl_ok (cr_trace_buffers R s));
       Some (0, e\<lparr>oe_srf_buffer := srf, oe_zero_buffer := zero, oe_tmp_buffer := tmp, oe_base_address := base\<rparr>, s)
     })"

definition ocl_ex_deinitialize :: "'s MemOps \<Rightarrow> OclExec \<times> 's \<Rightarrow> (int \<times> OclExec \<times> 's) option" where
  "ocl_ex_deinitialize M es =
    (let (e, s) = es
     in do {
       (r1, s) \<leftarrow> mm_free_memory M (oe_tmp_buffer e) MEM_TYPE_PIM s;
       (r2, s) \<leftarrow> mm_free_memory M (oe_srf_buffer e) MEM_TYPE_DEVICE s;
       (r3, s) \<leftarrow> mm_free_memory M (oe_zero_buffer e) MEM_TYPE_DEVICE s;
       Some (or (or r1 r2) r3, e, s)
     })"

section \<open>Operations\<close>

definition ocl_dev :: "'s OclRt \<Rightarrow> PimBo \<Rightarrow> 's \<Rightarrow> addr option" where
  "ocl_dev R bo s = map_option dev_addr (cr_obj R s (bo_data bo))"

definition ocl_crf :: "'s MemOps \<Rightarrow> 's OclRt \<Rightarrow> PimOpType \<Rightarrow> int \<Rightarrow> OclExec \<times> 's \<Rightarrow> (addr \<times> OclExec \<times> 's) option" where
  "ocl_crf M R op data_size es = do {
     (crf_bin, g, s) \<leftarrow> get_crf_bin M (cr_host R) op data_size (oe_crf_generator (fst es), snd es);
     Some (crf_bin, (fst es)\<lparr>oe_crf_generator := g\<rparr>, s)
   }"

text \<open>Launch, wait, and in the emulator build conversion of the trace and emulation.\<close>

definition ocl_run ::
    "'s OclRt \<Rightarrow> OclKernel \<Rightarrow> nat \<Rightarrow> ('s Emu \<Rightarrow> PimMemTraceData list \<Rightarrow> int \<Rightarrow> u64 \<Rightarrow> 's \<Rightarrow> (int \<times> 's) option)
     \<Rightarrow> OclExec \<times> 's \<Rightarrow> (int \<times> OclExec \<times> 's) option" where
  "ocl_run R kern threads emulate es = do {
     s \<leftarrow> cl_ok (cr_Launch R kern 64 threads (snd es));
     (let s = snd (cr_Finish R s)
      in case cr_emu R of
           None \<Rightarrow> Some (0, fst es, s)
         | Some X \<Rightarrow>
             let (n, h16) = cr_trace R s
             in do {
               (tr, n32) \<leftarrow> emulator_trace_gen fmtd_size_per_ch 64 n (oe_fmtd32 (fst es)) h16;
               (ret, s) \<leftarrow> emulate X tr n32 (of_nat (cr_base_addr R s)) s;
               Some (0, (fst es)\<lparr>oe_fmtd32 := tr\<rparr>, s)
             })
   }"

definition ocl_execute_eltwise ::
    "'s MemOps \<Rightarrow> 's OclRt \<Rightarrow> PimOpType \<Rightarrow> PimBo \<Rightarrow> PimBo \<Rightarrow> PimBo \<Rightarrow> addr \<Rightarrow> bool \<Rightarrow> OclExec \<times> 's \<Rightarrow> (int \<times> OclExec \<times> 's) option" where
  "ocl_execute_eltwise M R op out op0 op1 stream block es = do {
     (crf_bin, e, s) \<leftarrow> ocl_crf M R op (out_size out) es;
     d0 \<leftarrow> ocl_dev R op0 s;
     d1 \<leftarrow> ocl_dev R op1 s;
     d \<leftarrow> ocl_dev R out s;
     ocl_run R (ocl_elt_op_pim d0 d1 d (oe_base_address e) (elt_num_tile out) crf_bin 32) 32
       (\<lambda>X. ocl_emu_elt_op X out op0 op1) (e, s)
   }"

definition ocl_execute_add ::
    "'s MemOps \<Rightarrow> 's OclRt \<Rightarrow> PimBo \<Rightarrow> PimBo \<Rightarrow> PimBo \<Rightarrow> addr \<Rightarrow> bool \<Rightarrow> OclExec \<times> 's \<Rightarrow> (int \<times> OclExec \<times> 's) option" where
  "ocl_execute_add M R = ocl_execute_eltwise M R OP_ELT_ADD"

definition ocl_execute_mul ::
    "'s MemOps \<Rightarrow> 's OclRt \<Rightarrow> PimBo \<Rightarrow> PimBo \<Rightarrow> PimBo \<Rightarrow> addr \<Rightarrow> bool \<Rightarrow> OclExec \<times> 's \<Rightarrow> (int \<times> OclExec \<times> 's) option" where
  "ocl_execute_mul M R = ocl_execute_eltwise M R OP_ELT_MUL"

text \<open>The size is rounded up before the program is looked up.\<close>

definition aligned_outsize :: "PimBo \<Rightarrow> int" where
  "aligned_outsize out = i32 (size_num_tile out * elt_align)"

definition ocl_execute_relu ::
    "'s MemOps \<Rightarrow> 's OclRt \<Rightarrow> PimBo \<Rightarrow> PimBo \<Rightarrow> addr \<Rightarrow> bool \<Rightarrow> OclExec \<times> 's \<Rightarrow> (int \<times> OclExec \<times> 's) option" where
  "ocl_execute_relu M R out inp stream block es = do {
     (crf_bin, e, s) \<leftarrow> ocl_crf M R OP_RELU (aligned_outsize out) es;
     d0 \<leftarrow> ocl_dev R inp s;
     d \<leftarrow> ocl_dev R out s;
     ocl_run R (ocl_relu_pim_operation d0 d (oe_base_address e) (aligned_outsize out) crf_bin 32) 32
       (\<lambda>X. ocl_emu_relu_bn_copy X out inp) (e, s)
   }"

definition ocl_execute_copy ::
    "'s MemOps \<Rightarrow> 's OclRt \<Rightarrow> PimBo \<Rightarrow> PimBo \<Rightarrow> addr \<Rightarrow> bool \<Rightarrow> OclExec \<times> 's \<Rightarrow> (int \<times> OclExec \<times> 's) option" where
  "ocl_execute_copy M R out inp stream block es = do {
     (crf_bin, e, s) \<leftarrow> ocl_crf M R OP_COPY (out_size out) es;
     d0 \<leftarrow> ocl_dev R inp s;
     d \<leftarrow> ocl_dev R out s;
     ocl_run R (ocl_copy_pim d0 d (oe_base_address e) (out_size out) crf_bin 32) 32
       (\<lambda>X. ocl_emu_relu_bn_copy X out inp) (e, s)
   }"

definition ocl_execute_bn ::
    "'s MemOps \<Rightarrow> 's OclRt \<Rightarrow> PimBo \<Rightarrow> PimBo \<Rightarrow> PimBo \<Rightarrow> PimBo \<Rightarrow> PimBo \<Rightarrow> PimBo \<Rightarrow> u64 \<Rightarrow> addr \<Rightarrow> bool \<Rightarrow> OclExec \<times> 's
     \<Rightarrow> (int \<times> OclExec \<times> 's) option" where
  "ocl_execute_bn M R out inp beta gamma mean variance epsilon stream block es = do {
     (crf_bin, e, s) \<leftarrow> ocl_crf M R OP_BN (out_size out) es;
     (let (srf_binary, s) = hm_new (cr_host R) srf_bytes s
      in do {
        s \<leftarrow> fill_srf (cr_host R) (cr_srf_fns R epsilon) beta gamma mean variance srf_binary s;
        (ret, s) \<leftarrow> mm_copy_memory M (oe_srf_buffer e) srf_binary srf_bytes HOST_TO_DEVICE s;
        d0 \<leftarrow> ocl_dev R inp s;
        d \<leftarrow> ocl_dev R out s;
        (ret, e, s) \<leftarrow> ocl_run R (ocl_bn_pim_nr_sip d0 d (oe_base_address e) (i32 (size_num_tile out)) crf_bin 64
            (oe_srf_buffer e) (int srf_bytes)) 32 (\<lambda>X. ocl_emu_relu_bn_copy X out inp) (e, s);
        Some (ret, e, hm_delete (cr_host R) srf_binary s)
      })
   }"

text \<open>Input, bias and output of a product are plain buffers; the weight and the scratch buffer are handles.\<close>

definition ocl_gemm_tile_accum ::
    "'s MemOps \<Rightarrow> 's OclRt \<Rightarrow> GemmKernel \<Rightarrow> int \<Rightarrow> int \<Rightarrow> PimBo \<Rightarrow> PimBo \<Rightarrow> PimBo \<Rightarrow> PimBo option \<Rightarrow> PimActFunc
     \<Rightarrow> OclExec \<times> 's \<Rightarrow> (int \<times> OclExec \<times> 's) option" where
  "ocl_gemm_tile_accum M R kern iter_cnt n_out_tile out inp wei bias act es = do {
     (crf_bin, e, s) \<leftarrow> ocl_crf M R OP_GEMV (gemv_key inp) es;
     w \<leftarrow> ocl_dev R wei s;
     tmp \<leftarrow> map_option dev_addr (cr_obj R s (oe_tmp_buffer e));
     ocl_run R (ocl_gemm_pim kern ((gemm_args (oe_base_address e) tmp out inp wei bias act iter_cnt n_out_tile crf_bin)\<lparr>ga_weight := w\<rparr>)) 64
       (\<lambda>X tr n32 b. ocl_emu_gemm_bias_act X out wei tr n32 b (oe_tmp_buffer e) bias act) (e, s)
   }"

definition ocl_execute_aligned_gemm ::
    "'s MemOps \<Rightarrow> 's OclRt \<Rightarrow> PimBo \<Rightarrow> PimBo \<Rightarrow> PimBo \<Rightarrow> PimBo option \<Rightarrow> PimActFunc \<Rightarrow> OclExec \<times> 's \<Rightarrow> (int \<times> OclExec \<times> 's) option" where
  "ocl_execute_aligned_gemm M R out inp wei =
     ocl_gemm_tile_accum M R (aligned_kernel (gemm_in_tile inp)) (aligned_iter_cnt wei) (gemm_out_tile out) out inp wei"

definition ocl_execute_chwise_gemm ::
    "'s MemOps \<Rightarrow> 's OclRt \<Rightarrow> PimBo \<Rightarrow> PimBo \<Rightarrow> PimBo \<Rightarrow> PimBo option \<Rightarrow> PimActFunc \<Rightarrow> OclExec \<times> 's \<Rightarrow> (int \<times> OclExec \<times> 's) option" where
  "ocl_execute_chwise_gemm M R out inp wei bias act es = do {
     iter_cnt \<leftarrow> chwise_iter_cnt wei;
     ocl_gemm_tile_accum M R (chwise_kernel (gemm_in_tile inp)) iter_cnt 1 out inp wei bias act es
   }"

definition ocl_execute_ocl_gemm ::
    "'s MemOps \<Rightarrow> 's OclRt \<Rightarrow> PimBo \<Rightarrow> PimBo \<Rightarrow> PimBo \<Rightarrow> PimBo option \<Rightarrow> PimActFunc \<Rightarrow> OclExec \<times> 's \<Rightarrow> (int \<times> OclExec \<times> 's) option" where
  "ocl_execute_ocl_gemm M R out inp wei bias act es =
    (case data_layout_type wei of
       CHWISE_GEMM_WEIGHT \<Rightarrow> ocl_execute_chwise_gemm M R out inp wei bias act es
     | ALIGNED_GEMM_WEIGHT \<Rightarrow> ocl_execute_aligned_gemm M R out inp wei bias act es
     | RAW \<Rightarrow> Some (0, es))"

definition ocl_execute_sync :: "'s OclRt \<Rightarrow> addr \<Rightarrow> OclExec \<times> 's \<Rightarrow> (int \<times> OclExec \<times> 's) option" where
  "ocl_execute_sync R stream es = map_option (\<lambda>s. (0, fst es, s)) (cl_ok (cr_Finish R (snd es)))"

definition ocl_exec_ops ::
    "'s MemOps \<Rightarrow> 's OclRt \<Rightarrow> (string \<Rightarrow> string option) \<Rightarrow> OclExec \<Rightarrow> ('s, OclExec) ExecOps" where
  "ocl_exec_ops M R getenv junk =
    \<lparr>ex_create = (\<lambda>_ _ s. OclPimExecutor_new R getenv junk s),
     ex_initialize = ocl_ex_initialize M R, ex_deinitialize = ocl_ex_deinitialize M,
     ex_set_device = (\<lambda>_ es. Some (0, es)), ex_get_device = (\<lambda>es. (0, cr_caller_device R (snd es))),
     ex_create_stream = (\<lambda>es. Some (0, es)),
     ex_add = ocl_execute_add M R, ex_mul = ocl_execute_mul M R, ex_relu = ocl_execute_relu M R,
     ex_copy = ocl_execute_copy M R, ex_bn = ocl_execute_bn M R, ex_sync = ocl_execute_sync R,
     ex_dummy = (\<lambda>es. Some (-1, es)), ex_set_gemm_order = (\<lambda>order e. e\<lparr>oe_gemm_order := order\<rparr>)\<rparr>"

end
