(* ===== verification/PimExec.thy ===== *)
theory PimExec
  imports OclExec
begin

text \<open>
  The executor behind \<open>IPimExecutor\<close>: the factory \<open>PimExecutorFactory\<close>, the virtual calls, and
  \<open>execute_gemm\<close> of both executors on the state of the library, with the preparation of the weight, the
  exchange of extents for weight-first products, and the GPU fallback.
\<close>

section \<open>Virtual calls\<close>

definition on_exec ::
    "('h \<times> 's \<Rightarrow> ('a \<times> 'h \<times> 's) option) \<Rightarrow> ('o \<times> 's \<Rightarrow> ('a \<times> 'o \<times> 's) option) \<Rightarrow> ('h + 'o) \<times> 's
     \<Rightarrow> ('a \<times> ('h + 'o) \<times> 's) option" where
  "on_exec f g es =
    (case fst es of
       Inl h \<Rightarrow> map_option (\<lambda>(r, h', s'). (r, Inl h', s')) (f (h, snd es))
     | Inr x \<Rightarrow> map_option (\<lambda>(r, x', s'). (r, Inr x', s')) (g (x, snd es)))"

definition getPimExecutor ::
    "bool \<Rightarrow> ('s, 'h) ExecOps \<Rightarrow> ('s, 'o) ExecOps \<Rightarrow> PimRuntimeType \<Rightarrow> PimPrecision \<Rightarrow> 's \<Rightarrow> (('h + 'o) \<times> 's) option" where
  "getPimExecutor amd A B rt prec s =
    (case rt of
       RT_TYPE_HIP \<Rightarrow> if amd then map_option (\<lambda>(e, s). (Inl e, s)) (ex_create A rt prec s) else None
     | RT_TYPE_OPENCL \<Rightarrow> map_option (\<lambda>(e, s). (Inr e, s)) (ex_create B rt prec s))"

definition exec_dispatch :: "bool \<Rightarrow> ('s, 'h) ExecOps \<Rightarrow> ('s, 'o) ExecOps \<Rightarrow> ('s, 'h + 'o) ExecOps" where
  "exec_dispatch amd A B =
    \<lparr>ex_create = getPimExecutor amd A B,
     ex_initialize = on_exec (ex_initialize A) (ex_initialize B), ex_deinitialize = on_exec (ex_deinitialize A) (ex_deinitialize B),
     ex_set_device = (\<lambda>d. on_exec (ex_set_device A d) (ex_set_device B d)),
     ex_get_device = (\<lambda>es. case fst es of Inl h \<Rightarrow> ex_get_device A (h, snd es) | Inr x \<Rightarrow> ex_get_device B (x, snd es)),
     ex_create_stream = on_exec (ex_create_stream A) (ex_create_stream B),
     ex_add = (\<lambda>out a b st bk. on_exec (ex_add A out a b st bk) (ex_add B out a b st bk)),
     ex_mul = (\<lambda>out a b st bk. on_exec (ex_mul A out a b st bk) (ex_mul B out a b st bk)),
     ex_relu = (\<lambda>out a st bk. on_exec (ex_relu A out a st bk) (ex_relu B out a st bk)),
     ex_copy = (\<lambda>out a st bk. on_exec (ex_copy A out a st bk) (ex_copy B out a st bk)),
     ex_bn = (\<lambda>out a be ga me va ep st bk. on_exec (ex_bn A out a be ga me va ep st bk) (ex_bn B out a be ga me va ep st bk)),
     ex_sync = (\<lambda>st. on_exec (ex_sync A st) (ex_sync B st)), ex_dummy = on_exec (ex_dummy A) (ex_dummy B),
     ex_set_gemm_order = (\<lambda>order. map_sum (ex_set_gemm_order A order) (ex_set_gemm_order B order))\<rparr>"

text \<open>A member function of one executor, run by the executor itself.\<close>

definition hip_member ::
    "(HipExec \<times> 's \<Rightarrow> ('a \<times> HipExec \<times> 's) option) \<Rightarrow> ('s, HipExec + 'o) Pim \<Rightarrow> ('a \<times> ('s, HipExec + 'o) Pim) option" where
  "hip_member f = run_exec (on_exec f (\<lambda>_. None))"

definition ocl_member ::
    "(OclExec \<times> 's \<Rightarrow> ('a \<times> OclExec \<times> 's) option) \<Rightarrow> ('s, 'h + OclExec) Pim \<Rightarrow> ('a \<times> ('s, 'h + OclExec) Pim) option" where
  "ocl_member f = run_exec (on_exec (\<lambda>_. None) f)"

section \<open>The operands of a matrix product\<close>

text \<open>\<open>set_pimbo_t\<close> on objects behind pointers: in place, one after the other, null skipped.\<close>

fun transpose_bos :: "addr list \<Rightarrow> ('s, 'e) Pim \<Rightarrow> ('s, 'e) Pim option" where
  "transpose_bos [] s = Some s"
| "transpose_bos (p # ps) s =
    (if p = 0 then transpose_bos ps s
     else do {
       b \<leftarrow> set_pimbo_t (pim_bos s p);
       transpose_bos ps (put_bo p b s)
     })"

definition transpose_for :: "PimGemmOrder \<Rightarrow> addr list \<Rightarrow> ('s, 'e) Pim \<Rightarrow> ('s, 'e) Pim option" where
  "transpose_for order ps s = (if order = W_X_I then transpose_bos ps s else Some s)"

definition bias_bo :: "('s, 'e) Pim \<Rightarrow> addr \<Rightarrow> PimBo option option" where
  "bias_bo s bias = (if bias = 0 then Some None else map_option Some (pim_bos s bias))"

text \<open>The converted weight, unless the user provides one in a PIM layout.\<close>

definition pim_weight :: "('s, 'e) Env \<Rightarrow> addr \<Rightarrow> PimGemmOrder \<Rightarrow> ('s, 'e) Pim \<Rightarrow> (addr \<times> ('s, 'e) Pim) option" where
  "pim_weight E wei order s = do {
     w \<leftarrow> pim_bos s wei;
     (if data_layout_type w = RAW then get_preloaded_pim_gemm_weight E wei order False True s else Some (wei, s))
   }"

section \<open>The HIP executor\<close>

text \<open>
  A weight in host memory is copied to a new device buffer, from which the extents are then taken.
\<close>

definition hip_execute_custom_gemv ::
    "('s, HipExec + 'o) Env \<Rightarrow> 's HipRt \<Rightarrow> addr \<Rightarrow> addr \<Rightarrow> addr \<Rightarrow> bool \<Rightarrow> addr \<Rightarrow> ('s, HipExec + 'o) Pim
     \<Rightarrow> (int \<times> ('s, HipExec + 'o) Pim) option" where
  "hip_execute_custom_gemv E R out vec mat accum stream s = do {
     v \<leftarrow> pim_bos s vec;
     m \<leftarrow> pim_bos s mat;
     (if \<not> gemv_supported v m then Some (-1, s)
      else if mem_type m = MEM_TYPE_HOST
      then do {
        (dev, s) \<leftarrow> create_like E (bshape m) MEM_TYPE_DEVICE s;
        d \<leftarrow> pim_bos s dev;
        pm \<leftarrow> the_manager s;
        (ret, pm) \<leftarrow> pm_copy_memory (env_mem E) (bo_data d) (bo_data m) (bo_size m) HOST_TO_DEVICE pm;
        bo \<leftarrow> pim_bos s out;
        (ret, s) \<leftarrow> hip_member (hip_run_gemv R bo v d accum stream) (put_manager pm s);
        (dret, s) \<leftarrow> PimDestroyBo E dev s;
        Some (ret, s)
      }
      else do {
        bo \<leftarrow> pim_bos s out;
        hip_member (hip_run_gemv R bo v m accum stream) s
      })
   }"

definition hip_execute_gemv ::
    "('s, HipExec + 'o) Env \<Rightarrow> 's HipRt \<Rightarrow> addr \<Rightarrow> addr \<Rightarrow> addr \<Rightarrow> addr \<Rightarrow> PimActFunc \<Rightarrow> addr \<Rightarrow> ('s, HipExec + 'o) Pim
     \<Rightarrow> (int \<times> ('s, HipExec + 'o) Pim) option" where
  "hip_execute_gemv E R out inp wei bias act stream s =
    (if bias = 0 then hip_execute_custom_gemv E R out inp wei False stream s
     else do {
       bo \<leftarrow> pim_bos s out;
       b \<leftarrow> pim_bos s bias;
       (if bo_data bo = bo_data b then hip_execute_custom_gemv E R out inp wei True stream s
        else do {
          v \<leftarrow> pim_bos s inp;
          m \<leftarrow> pim_bos s wei;
          hip_member (hip_execute_custom_gemv_add R bo v m b (act = ACT_RELU) stream) s
        })
     })"

definition hip_gemm_on_pim ::
    "('s, HipExec + 'o) Env \<Rightarrow> 's HipRt \<Rightarrow> PimGemmOrder \<Rightarrow> addr \<Rightarrow> addr \<Rightarrow> addr \<Rightarrow> addr \<Rightarrow> PimActFunc \<Rightarrow> addr \<Rightarrow> bool
     \<Rightarrow> ('s, HipExec + 'o) Pim \<Rightarrow> (int \<times> ('s, HipExec + 'o) Pim) option" where
  "hip_gemm_on_pim E R order out inp wei bias act stream block s = do {
     (pim_wei, s) \<leftarrow> pim_weight E wei order s;
     s \<leftarrow> transpose_for order [inp, pim_wei, bias, out] s;
     w \<leftarrow> pim_bos s pim_wei;
     bo \<leftarrow> pim_bos s out;
     b0 \<leftarrow> pim_bos s inp;
     bi \<leftarrow> bias_bo s bias;
     (ret, s) \<leftarrow> hip_member (hip_execute_hip_gemm (env_mem E) R bo b0 w bi act stream block) s;
     s \<leftarrow> transpose_for order [inp, pim_wei, bias, out] s;
     Some (ret, s)
   }"

definition hip_execute_gemm :: "('s, HipExec + 'o) Env \<Rightarrow> 's HipRt \<Rightarrow> HipExec \<Rightarrow> ('s, HipExec + 'o) gemm_op" where
  "hip_execute_gemm E R this out inp wei bias act stream block s =
    (case he_kernel_type this of
       CUSTOM_GPU \<Rightarrow> hip_execute_gemv E R out inp wei bias act stream s
     | PIM \<Rightarrow> hip_gemm_on_pim E R (he_gemm_order this) out inp wei bias act stream block s
     | OPTIMAL \<Rightarrow> do {
         w \<leftarrow> pim_bos s wei;
         (if is_pim_applicable w (he_gemm_order this)
          then hip_gemm_on_pim E R (he_gemm_order this) out inp wei bias act stream block s
          else hip_execute_gemv E R out inp wei bias act stream s)
       })"

section \<open>The OpenCL executor\<close>

text \<open>No exchange of extents, and no GPU fallback: those cases return 0 without computing anything.\<close>

definition ocl_gemm_on_pim ::
    "('s, 'h + OclExec) Env \<Rightarrow> 's OclRt \<Rightarrow> PimGemmOrder \<Rightarrow> addr \<Rightarrow> addr \<Rightarrow> addr \<Rightarrow> addr \<Rightarrow> PimActFunc
     \<Rightarrow> ('s, 'h + OclExec) Pim \<Rightarrow> (int \<times> ('s, 'h + OclExec) Pim) option" where
  "ocl_gemm_on_pim E C order out inp wei bias act s = do {
     (pim_wei, s) \<leftarrow> pim_weight E wei order s;
     w \<leftarrow> pim_bos s pim_wei;
     bo \<leftarrow> pim_bos s out;
     b0 \<leftarrow> pim_bos s inp;
     bi \<leftarrow> bias_bo s bias;
     ocl_member (ocl_execute_ocl_gemm (env_mem E) C bo b0 w bi act) s
   }"

definition ocl_execute_gemm :: "('s, 'h + OclExec) Env \<Rightarrow> 's OclRt \<Rightarrow> OclExec \<Rightarrow> ('s, 'h + OclExec) gemm_op" where
  "ocl_execute_gemm E C this out inp wei bias act stream block s =
    (case oe_kernel_type this of
       CUSTOM_GPU \<Rightarrow> Some (0, s)
     | PIM \<Rightarrow> ocl_gemm_on_pim E C (oe_gemm_order this) out inp wei bias act s
     | OPTIMAL \<Rightarrow> do {
         w \<leftarrow> pim_bos s wei;
         (if is_pim_applicable w (oe_gemm_order this)
          then ocl_gemm_on_pim E C (oe_gemm_order this) out inp wei bias act s
          else Some (0, s))
       })"

definition pim_execute_gemm ::
    "('s, HipExec + OclExec) Env \<Rightarrow> 's HipRt \<Rightarrow> 's OclRt \<Rightarrow> ('s, HipExec + OclExec) gemm_op" where
  "pim_execute_gemm E R C out inp wei bias act stream block s = do {
     rt \<leftarrow> pim_runtime s;
     (case rt_executor rt of
        Inl this \<Rightarrow> hip_execute_gemm E R this out inp wei bias act stream block s
      | Inr this \<Rightarrow> ocl_execute_gemm E C this out inp wei bias act stream block s)
   }"

end
