(* ===== verification/RuntimeProps.thy ===== *)
theory RuntimeProps
  imports DemoWorld
begin

text \<open>
  The life cycle of the library and the cache of converted weights: what the calls of the C API do to
  the globals, which states a client can reach, what is refused before initialisation, and how weights
  are recognised.
\<close>

section \<open>The key of a weight\<close>

lemma key_loop_first:
  assumes "0 < n" "rd 0 = Some v" "i32_range step" "step mod 2 ^ 64 \<ge> int n"
  shows "key_loop rd n step 0 0 = Some v"
  using assms by (subst key_loop.simps, simp, subst key_loop.simps) simp

lemma weight_step:
  assumes "4 \<le> sz" "sz < 2 ^ 33"
  shows "i32_range (i32 (int (sz div 2)))" "int (sz div 4) \<le> i32 (int (sz div 2)) mod 2 ^ 64"
proof -
  define h where "h = int (sz div 2)"
  have "sz div 2 < 2 ^ 32" "sz div 4 \<le> sz div 2"
    using assms(2) by (simp_all add: div_less_iff_less_mult div_le_mono2)
  then have h: "0 \<le> h" "h < 2 ^ 32" "int (sz div 4) \<le> h" by (simp_all add: h_def)
  have "i32_range (i32 h) \<and> int (sz div 4) \<le> i32 h mod 2 ^ 64"
  proof (cases "h < 2 ^ 31")
    case True
    then have "i32 h = h" using h(1) by (simp add: i32_def)
    then show ?thesis using h True by (simp add: i32_range_def)
  next
    case False
    have "(h + 2 ^ 31) mod 2 ^ 32 = (h - 2 ^ 31 + 2 ^ 32) mod 2 ^ 32" by (simp add: add.commute)
    also have "\<dots> = h - 2 ^ 31" unfolding mod_add_self2 using h False by (intro mod_pos_pos_trivial) simp_all
    finally have "(h + 2 ^ 31) mod 2 ^ 32 = h - 2 ^ 31" .
    then have e: "i32 h = h - 2 ^ 32" by (simp add: i32_def)
    have "(h - 2 ^ 32) mod 2 ^ 64 = (h - 2 ^ 32 + 2 ^ 64) mod 2 ^ 64" unfolding mod_add_self2 ..
    also have "\<dots> = h - 2 ^ 32 + 2 ^ 64" using h False by (intro mod_pos_pos_trivial) simp_all
    finally have "(h - 2 ^ 32) mod 2 ^ 64 = h - 2 ^ 32 + 2 ^ 64" .
    then show ?thesis using h False e by (simp add: i32_range_def)
  qed
  then show "i32_range (i32 (int (sz div 2)))" "int (sz div 4) \<le> i32 (int (sz div 2)) mod 2 ^ 64"
    by (simp_all add: h_def)
qed

lemma weight_key_first_word:
  assumes "4 \<le> bo_size w" "bo_size w < 2 ^ 33" "env_read32 E mm (bo_data w) = Some v"
  shows "weight_key E w mm = Some v"
  unfolding weight_key_def
  using weight_step [OF assms(1,2)] assms by (intro key_loop_first) simp_all


text \<open>With a step of 0 the index never reaches the end.\<close>

lemma key_loop_stuck:
  assumes "key_loop rd n 0 i key = Some k"
  shows "\<not> i mod 2 ^ 64 < int n"
proof -
  have "step = 0 \<longrightarrow> \<not> i mod 2 ^ 64 < int n" if "key_loop rd n step i key = Some k" for step
    by (rule key_loop.raw_induct [OF _ that]) (auto simp: bind_eq_Some_conv split: if_splits)
  then show ?thesis using assms by blast
qed

text \<open>C20: the search for the key of a weight returns for every size below 8 GB whose first word can be
  read, and the key is that word (0 when there is none); at 8 GB the step, an \<open>int\<close>, is 0 and the loop
  never ends.
\<close>

theorem weight_key_returns:
  "(bo_size w < 2 ^ 33 \<longrightarrow> env_read32 E mm (bo_data w) = Some v \<longrightarrow>
      weight_key E w mm = Some (if bo_size w < 4 then 0 else v))
   \<and> (bo_size w = 2 ^ 33 \<longrightarrow> weight_key E w mm = None)"
proof (intro conjI impI)
  assume "bo_size w < 2 ^ 33" "env_read32 E mm (bo_data w) = Some v"
  then show "weight_key E w mm = Some (if bo_size w < 4 then 0 else v)"
    using weight_key_first_word [of w E mm v] by (auto simp: weight_key_def key_loop.simps)
next
  assume sz: "bo_size w = 2 ^ 33"
  show "weight_key E w mm = None"
  proof (rule ccontr)
    assume "weight_key E w mm \<noteq> None"
    then obtain k where "key_loop (\<lambda>i. env_read32 E mm (bo_data w + 4 * nat i)) (2 ^ 31) 0 0 0 = Some k"
      by (auto simp: weight_key_def sz i32_def)
    then show False using key_loop_stuck by force
  qed
qed


lemma weight_key_returns_witness:
  "weight_key demo_env (blank_bo\<lparr>bo_size := 4096, bo_data := 16\<rparr>) (Inl demo_hip) = Some 0x13121110
   \<and> weight_key demo_env (blank_bo\<lparr>bo_size := 2 ^ 33\<rparr>) (Inl demo_hip) = None"
  using weight_key_returns [where w = "blank_bo\<lparr>bo_size := 4096, bo_data := 16\<rparr>" and E = demo_env
      and mm = "Inl demo_hip" and v = "0x13121110"]
    weight_key_returns [where w = "blank_bo\<lparr>bo_size := 2 ^ 33\<rparr>" and E = demo_env and mm = "Inl demo_hip"]
  by (simp add: demo_env_def demo_bytes_def demo_hip_def)

text \<open>C22: the cache of converted weights looks at the first word of a weight only: once a weight is stored,
  every weight that begins with the same four bytes is taken for it, whatever its other data, its
  shape, its size or the order of the product.
\<close>

theorem preloaded_by_first_word:
  assumes "pim_runtime s = Some rt" "pm_instance s = Some pm" "pim_bos s p = Some w"
    "4 \<le> bo_size w" "bo_size w < 2 ^ 33" "env_read32 E (pim_memory_manager pm) (bo_data w) = Some v"
    "map_of (weight_map rt) v = Some q" "q \<noteq> 0"
  shows "get_preloaded_pim_gemm_weight E p order on_device reuse s = Some (q, s)"
  using weight_key_first_word [OF assms(4-6)] assms
  by (simp add: get_preloaded_pim_gemm_weight_def find_preloaded_pim_weight_def the_manager_def)

lemma preloaded_by_first_word_witness:
  "get_preloaded_pim_gemm_weight demo_env 7 W_X_I False True
      (demo_pim\<lparr>pim_runtime := Some (demo_runtime\<lparr>weight_map := [(0x13121110, 5)]\<rparr>),
                pim_bos := [7 \<mapsto> blank_bo\<lparr>bo_size := 4096, bo_data := 16\<rparr>]\<rparr>)
    = Some (5, demo_pim\<lparr>pim_runtime := Some (demo_runtime\<lparr>weight_map := [(0x13121110, 5)]\<rparr>),
                pim_bos := [7 \<mapsto> blank_bo\<lparr>bo_size := 4096, bo_data := 16\<rparr>]\<rparr>)"
  by (rule preloaded_by_first_word [where v = "0x13121110" and rt = "demo_runtime\<lparr>weight_map := [(0x13121110, 5)]\<rparr>"
        and pm = demo_pm and w = "blank_bo\<lparr>bo_size := 4096, bo_data := 16\<rparr>"])
    (simp_all add: demo_pim_def demo_pm_def demo_env_def demo_bytes_def demo_hip_def)

section \<open>What the calls keep\<close>

text \<open>The flags of the life cycle, the keys of the cache and the type of the manager.\<close>

definition lib :: "('s, 'e) Pim \<Rightarrow> bool \<times> (u32 \<times> addr) list option \<times> PimRuntimeType option" where
  "lib s = (pim_initialized s, map_option weight_map (pim_runtime s), map_option pm_rt_type (pm_instance s))"

lemma pm_type:
  "pm_alloc_memory M ptr sz mt pm = Some (ret, p, pm') \<Longrightarrow> pm_rt_type pm' = pm_rt_type pm"
  "pm_alloc_memory_bo M bo pm = Some (ret, bo', pm') \<Longrightarrow> pm_rt_type pm' = pm_rt_type pm"
  "pm_free_memory M ptr mt pm = Some (ret, pm') \<Longrightarrow> pm_rt_type pm' = pm_rt_type pm"
  "pm_free_memory_bo M bo pm = Some (ret, bo', pm') \<Longrightarrow> pm_rt_type pm' = pm_rt_type pm"
  "pm_copy_memory M dst src sz k pm = Some (ret, pm') \<Longrightarrow> pm_rt_type pm' = pm_rt_type pm"
  "pm_copy_memory_bo M d b k pm = Some (ret, pm') \<Longrightarrow> pm_rt_type pm' = pm_rt_type pm"
  "pm_copy_memory_3d M c pm = Some (ret, pm') \<Longrightarrow> pm_rt_type pm' = pm_rt_type pm"
  "pm_convert_data_layout M d b on_device pm = Some (ret, d', pm') \<Longrightarrow> pm_rt_type pm' = pm_rt_type pm"
  by (auto simp: pm_put_def pm_alloc_memory_def pm_alloc_memory_bo_def pm_free_memory_def pm_free_memory_bo_def
      pm_copy_memory_def pm_copy_memory_bo_def pm_copy_memory_3d_def pm_convert_data_layout_def)

lemma pm_put_type [simp]:
  "pm_rt_type (pm_put pm mm) = pm_rt_type pm" "pm_rt_type (pm_set_gemm_order M order pm) = pm_rt_type pm"
  "pm_rt_type (snd (pm_initialize M pm)) = pm_rt_type pm" "pm_rt_type (snd (pm_deinitialize M pm)) = pm_rt_type pm"
  by (simp_all add: pm_put_def pm_set_gemm_order_def pm_initialize_def pm_deinitialize_def)

lemma lib_put [simp]:
  "lib (put_bo p bo s) = lib s" "lib (put_desc p d s) = lib s"
  "lib (s\<lparr>pim_bos := m\<rparr>) = lib s" "lib (s\<lparr>pim_descs := ds\<rparr>) = lib s" "lib (s\<lparr>pim_gemm_descs := gs\<rparr>) = lib s"
  "the_manager s = Some pm \<Longrightarrow> pm_rt_type pm' = pm_rt_type pm \<Longrightarrow> lib (put_manager pm' s) = lib s"
  by (simp_all add: lib_def put_bo_def put_desc_def put_manager_def the_manager_def)

lemma run_exec_lib: "run_exec f s = Some (ret, s') \<Longrightarrow> lib s' = lib s"
  by (auto simp: run_exec_def bind_eq_Some_conv lib_def put_manager_def the_manager_def)

lemma mem_lib:
  "rt_alloc_memory E ptr sz mt s = Some (ret, p, s') \<Longrightarrow> lib s' = lib s"
  "rt_alloc_memory_bo E bo u s = Some (ret, bo', s') \<Longrightarrow> lib s' = lib s"
  "rt_free_memory E ptr mt s = Some (ret, s') \<Longrightarrow> lib s' = lib s"
  "rt_free_memory_bo E q s = Some (ret, s') \<Longrightarrow> lib s' = lib s"
  "rt_copy_memory E dst src sz k s = Some (ret, s') \<Longrightarrow> lib s' = lib s"
  "rt_copy_memory_bo E dst src k s = Some (ret, s') \<Longrightarrow> lib s' = lib s"
  "rt_copy_memory_3d E c s = Some (ret, s') \<Longrightarrow> lib s' = lib s"
  "rt_convert_data_layout E dst src on_device s = Some (ret, s') \<Longrightarrow> lib s' = lib s"
  "rt_transpose E dst src s = Some s' \<Longrightarrow> lib s' = lib s"
  "rt_set_gemm_order E order s = Some s' \<Longrightarrow> lib s' = lib s"
  subgoal by (auto simp: rt_alloc_memory_def bind_eq_Some_conv dest!: pm_type)
  subgoal by (auto simp: rt_alloc_memory_bo_def bind_eq_Some_conv dest!: pm_type split: if_splits)
  subgoal by (auto simp: rt_free_memory_def bind_eq_Some_conv dest!: pm_type)
  subgoal by (auto simp: rt_free_memory_bo_def bind_eq_Some_conv dest!: pm_type split: if_splits)
  subgoal by (auto simp: rt_copy_memory_def bind_eq_Some_conv dest!: pm_type)
  subgoal by (auto simp: rt_copy_memory_bo_def bind_eq_Some_conv dest!: run_exec_lib pm_type split: if_splits)
  subgoal by (auto simp: rt_copy_memory_3d_def bind_eq_Some_conv dest!: pm_type)
  subgoal by (auto simp: rt_convert_data_layout_def bind_eq_Some_conv dest!: pm_type)
  subgoal by (auto simp: rt_transpose_def bind_eq_Some_conv Let_def dest!: pm_type)
  subgoal by (auto simp: rt_set_gemm_order_def bind_eq_Some_conv dest!: pm_type)
  done

lemma create_bo_lib: "create_bo E bo u s = Some (p, s') \<Longrightarrow> lib s' = lib s"
  by (auto simp: create_bo_def Let_def bind_eq_Some_conv dest: mem_lib)

lemma bo_lib:
  "PimCreateBo E n c h w prec mt u tr s = Some (p, s') \<Longrightarrow> lib s' = lib s"
  "PimDestroyBo E p s = Some (ret, s') \<Longrightarrow> lib s' = lib s"
  "PimCopyMemory_bo E dst src k s = Some (ret, s') \<Longrightarrow> lib s' = lib s"
  "create_like E sh mt s = Some (p, s') \<Longrightarrow> lib s' = lib s"
  by (auto simp: PimCreateBo_def PimDestroyBo_def PimCopyMemory_bo_def create_like_def bind_eq_Some_conv Let_def
      dest: mem_lib create_bo_lib split: if_splits)

lemmas libs = run_exec_lib mem_lib create_bo_lib bo_lib

lemma gather_lib: "gather_weight E w order hw ht s = Some s' \<Longrightarrow> lib s' = lib s"
  by (auto simp: gather_weight_def bind_eq_Some_conv split: if_splits dest!: libs pm_type)

lemma convert_lib:
  "convert_on_device E p w order s = Some (q, s') \<Longrightarrow> lib s' = lib s"
  "convert_on_host E p w order s = Some (q, s') \<Longrightarrow> lib s' = lib s"
  subgoal by (auto simp: convert_on_device_def bind_eq_Some_conv dest!: libs)
  subgoal by (auto simp: convert_on_host_def bind_eq_Some_conv dest!: libs gather_lib)
  done


section \<open>Calls and reachable states\<close>

datatype PimCall =
    Initialize PimRuntimeType PimPrecision | Deinitialize | SetDevice u32
  | CreateBo int int int int PimPrecision PimMemType addr bool
  | CreateBoDesc addr PimMemType PimMemFlag addr bool | CreateBoGemm addr PimMemType PimMemFlag addr bool
  | CreateDesc int int int int PimPrecision PimOpType | CreateGemmDesc int int int int int int PimPrecision PimGemmOrder
  | DestroyBo addr | DestroyDesc addr | DestroyGemmDesc addr
  | AllocMemory addr nat PimMemType | AllocMemoryBo addr | FreeMemory addr PimMemType | FreeMemoryBo addr
  | CopyMemory addr addr nat PimMemCpyType | CopyMemoryBo addr addr PimMemCpyType | CopyMemoryRect PimCopy3D
  | CreateStream PimRuntimeType | ExecuteAdd addr addr addr addr bool | ExecuteAddScalar addr addr addr addr bool
  | ExecuteMul addr addr addr addr bool | ExecuteMulScalar addr addr addr addr bool
  | ExecuteGemm addr addr addr addr PimActFunc PimGemmOrder addr bool | ExecuteRelu addr addr addr bool
  | ExecuteBN addr addr addr addr addr addr u64 addr bool | Synchronize addr | ExecuteDummy
  | ConvertGemmWeight addr PimGemmOrder bool bool

text \<open>A result is an error code or a pointer.\<close>

datatype PimResult = Ret int | Ptr addr

definition ret_of :: "(int \<times> 'st) option \<Rightarrow> (PimResult \<times> 'st) option" where
  "ret_of r = map_option (\<lambda>(i, s). (Ret i, s)) r"

definition ptr_of :: "(addr \<times> 'st) option \<Rightarrow> (PimResult \<times> 'st) option" where
  "ptr_of r = map_option (\<lambda>(p, s). (Ptr p, s)) r"

fun pim_call :: "('s, 'e) Env \<Rightarrow> ('s, 'e) gemm_op \<Rightarrow> PimCall \<Rightarrow> ('s, 'e) Pim \<Rightarrow> (PimResult \<times> ('s, 'e) Pim) option" where
  "pim_call E gemm (Initialize rt prec) s = ret_of (PimInitialize E rt prec s)"
| "pim_call E gemm Deinitialize s = ret_of (PimDeinitialize E s)"
| "pim_call E gemm (SetDevice d) s = ret_of (PimSetDevice E d s)"
| "pim_call E gemm (CreateBo n c h w prec mt u tr) s = ptr_of (PimCreateBo E n c h w prec mt u tr s)"
| "pim_call E gemm (CreateBoDesc d mt f u tr) s = ptr_of (PimCreateBo_desc E d mt f u tr s)"
| "pim_call E gemm (CreateBoGemm d mt f u tr) s = ptr_of (PimCreateBo_gemm E d mt f u tr s)"
| "pim_call E gemm (CreateDesc n c h w prec op) s = ptr_of (PimCreateDesc E n c h w prec op s)"
| "pim_call E gemm (CreateGemmDesc n c ih iw oh ow prec order) s = ptr_of (PimCreateGemmDesc E n c ih iw oh ow prec order s)"
| "pim_call E gemm (DestroyBo p) s = ret_of (PimDestroyBo E p s)"
| "pim_call E gemm (DestroyDesc p) s = ret_of (PimDestroyDesc p s)"
| "pim_call E gemm (DestroyGemmDesc p) s = ret_of (PimDestroyGemmDesc p s)"
| "pim_call E gemm (AllocMemory p n mt) s = ret_of (map_option (\<lambda>(ret, q, s). (ret, s)) (PimAllocMemory E p n mt s))"
| "pim_call E gemm (AllocMemoryBo p) s = ret_of (PimAllocMemory_bo E p s)"
| "pim_call E gemm (FreeMemory p mt) s = ret_of (PimFreeMemory E p mt s)"
| "pim_call E gemm (FreeMemoryBo p) s = ret_of (PimFreeMemory_bo E p s)"
| "pim_call E gemm (CopyMemory d b n k) s = ret_of (PimCopyMemory E d b n k s)"
| "pim_call E gemm (CopyMemoryBo d b k) s = ret_of (PimCopyMemory_bo E d b k s)"
| "pim_call E gemm (CopyMemoryRect c) s = ret_of (PimCopyMemoryRect E c s)"
| "pim_call E gemm (CreateStream rt) s = ptr_of (PimCreateStream E rt s)"
| "pim_call E gemm (ExecuteAdd o0 o1 o2 st bk) s = ret_of (PimExecuteAdd E o0 o1 o2 st bk s)"
| "pim_call E gemm (ExecuteAddScalar o0 o1 o2 st bk) s = ret_of (PimExecuteAdd_scalar E o0 o1 o2 st bk s)"
| "pim_call E gemm (ExecuteMul o0 o1 o2 st bk) s = ret_of (PimExecuteMul E o0 o1 o2 st bk s)"
| "pim_call E gemm (ExecuteMulScalar o0 o1 o2 st bk) s = ret_of (PimExecuteMul_scalar E o0 o1 o2 st bk s)"
| "pim_call E gemm (ExecuteGemm o0 o1 o2 o3 act order st bk) s = ret_of (PimExecuteGemm E gemm o0 o1 o2 o3 act order st bk s)"
| "pim_call E gemm (ExecuteRelu o0 o1 st bk) s = ret_of (PimExecuteRelu E o0 o1 st bk s)"
| "pim_call E gemm (ExecuteBN o0 o1 o2 o3 o4 o5 eps st bk) s = ret_of (PimExecuteBN E o0 o1 o2 o3 o4 o5 eps st bk s)"
| "pim_call E gemm (Synchronize st) s = ret_of (PimSynchronize E st s)"
| "pim_call E gemm ExecuteDummy s = ret_of (PimExecuteDummy E s)"
| "pim_call E gemm (ConvertGemmWeight p order dev reuse) s = ptr_of (PimConvertGemmWeight E p order dev reuse s)"

inductive pim_reach :: "('s, 'e) Env \<Rightarrow> ('s, 'e) gemm_op \<Rightarrow> ('s, 'e) Pim \<Rightarrow> bool" for E gemm where
  pim_start: "pim_reach E gemm pim_start"
| pim_step: "pim_reach E gemm s \<Longrightarrow> pim_call E gemm c s = Some (r, s') \<Longrightarrow> pim_reach E gemm s'"

text \<open>before initialisation, and again after deinitialisation, every call is refused: it returns -1 or
  a null pointer and leaves the library as it is. Only \<open>PimInitialize\<close>, the harmless \<open>PimDeinitialize\<close> and
  \<open>PimDestroyGemmDesc\<close>, which does not look at the runtime, answer differently.
\<close>

theorem calls_need_runtime:
  assumes "pim_runtime s = None" "\<not> pim_initialized s"
  shows "pim_call E gemm c s =
    (case c of
       Initialize rt prec \<Rightarrow> ret_of (PimInitialize E rt prec s)
     | Deinitialize \<Rightarrow> Some (Ret 0, s)
     | DestroyGemmDesc p \<Rightarrow> ret_of (PimDestroyGemmDesc p s)
     | CreateBo n ch h w prec mt u tr \<Rightarrow> Some (Ptr 0, s) | CreateBoDesc d mt f u tr \<Rightarrow> Some (Ptr 0, s)
     | CreateBoGemm d mt f u tr \<Rightarrow> Some (Ptr 0, s) | CreateDesc n ch h w prec op \<Rightarrow> Some (Ptr 0, s)
     | CreateGemmDesc n ch ih iw oh ow prec order \<Rightarrow> Some (Ptr 0, s) | CreateStream rt \<Rightarrow> Some (Ptr 0, s)
     | ConvertGemmWeight p order dev reuse \<Rightarrow> Some (Ptr 0, s)
     | _ \<Rightarrow> Some (Ret (-1), s))"
  by (cases c)
    (simp_all add: assms ret_of_def ptr_of_def PimDeinitialize_def PimSetDevice_def with_runtime_def PimCreateBo_def PimCreateBo_desc_def
      PimCreateBo_gemm_def PimCreateDesc_def PimCreateGemmDesc_def PimDestroyBo_def PimDestroyDesc_def PimAllocMemory_def
      PimAllocMemory_bo_def PimFreeMemory_def PimFreeMemory_bo_def PimCopyMemory_def PimCopyMemory_bo_def PimCopyMemoryRect_def
      PimCreateStream_def PimExecuteAdd_def PimExecuteAdd_scalar_def PimExecuteMul_def PimExecuteMul_scalar_def PimExecuteGemm_def
      PimExecuteRelu_def PimExecuteBN_def PimSynchronize_def PimExecuteDummy_def PimConvertGemmWeight_def)

lemma calls_need_runtime_witness:
  "pim_call demo_env demo_gemm (ExecuteAdd 1 2 3 0 True) pim_start = Some (Ret (-1), pim_start)"
  using calls_need_runtime [of pim_start demo_env demo_gemm "ExecuteAdd 1 2 3 0 True"] by (simp add: pim_start_def)


section \<open>Invariant of the library\<close>

text \<open>
  What a call other than \<open>PimInitialize\<close> and \<open>PimDeinitialize\<close> does to the life cycle: nothing, but the
  cache may gain a key.
\<close>

definition keys_ok :: "(u32 \<times> addr) list option \<Rightarrow> bool" where
  "keys_ok m \<longleftrightarrow> (case m of None \<Rightarrow> True | Some ws \<Rightarrow> distinct (map fst ws))"

fun grows :: "bool \<times> (u32 \<times> addr) list option \<times> PimRuntimeType option \<Rightarrow> bool \<times> (u32 \<times> addr) list option \<times> PimRuntimeType option \<Rightarrow> bool" where
  "grows (i, m, t) (i', m', t') \<longleftrightarrow> i' = i \<and> t' = t \<and> (m' = None \<longleftrightarrow> m = None) \<and> (keys_ok m \<longrightarrow> keys_ok m')"

lemma grows_refl [simp]: "grows l l"
  by (cases l) simp

lemma grows_trans: "grows k l \<Longrightarrow> grows l m \<Longrightarrow> grows k m"
  by (cases k; cases l; cases m) auto

definition gemm_keeps :: "('s, 'e) gemm_op \<Rightarrow> bool" where
  "gemm_keeps gemm \<longleftrightarrow> (\<forall>out inp wei bias act stream block s ret s'.
     gemm out inp wei bias act stream block s = Some (ret, s') \<longrightarrow> grows (lib s) (lib s'))"

definition lib_inv :: "('s, 'e) Pim \<Rightarrow> bool" where
  "lib_inv s \<longleftrightarrow> (pim_initialized s \<longleftrightarrow> pim_runtime s \<noteq> None) \<and> (pim_runtime s \<noteq> None \<longrightarrow> pm_instance s \<noteq> None)
     \<and> keys_ok (map_option weight_map (pim_runtime s))"

lemma insert_grows: "insert_preloaded_pim_weight E w p s = Some (ret, s') \<Longrightarrow> grows (lib s) (lib s')"
  by (auto simp: insert_preloaded_pim_weight_def bind_eq_Some_conv lib_def keys_ok_def map_of_eq_None_iff split: if_splits)

lemma preloaded_grows: "get_preloaded_pim_gemm_weight E p order dev reuse s = Some (q, s') \<Longrightarrow> grows (lib s) (lib s')"
  by (auto simp: get_preloaded_pim_gemm_weight_def bind_eq_Some_conv split: if_splits dest!: convert_lib insert_grows)

lemma generate_grows:
  assumes "generate_gemm_weight_from_buffer E p order dev reuse s = Some (q, s')"
  shows "grows (lib s) (lib s')"
  using assms
  by (auto simp: generate_gemm_weight_from_buffer_def bind_eq_Some_conv split: if_splits dest!: preloaded_grows libs)

lemma fill_scalar_lib: "fill_scalar E d sc is s = Some s' \<Longrightarrow> lib s' = lib s"
  by (induction "is" arbitrary: s) (auto simp: bind_eq_Some_conv dest!: mem_lib)

lemma scalar_op_lib:
  assumes "scalar_op f E sc v s = Some (ret, s')" "\<And>q s ret s'. f q s = Some (ret, s') \<Longrightarrow> lib s' = lib s"
  shows "lib s' = lib s"
  using assms(1) by (auto simp: scalar_op_def bind_eq_Some_conv Let_def dest!: libs fill_scalar_lib assms(2))

lemma exec_lib:
  "rt_execute_add E a b c st bk s = Some (ret, s') \<Longrightarrow> lib s' = lib s"
  "rt_execute_mul E a b c st bk s = Some (ret, s') \<Longrightarrow> lib s' = lib s"
  "rt_execute_relu E a b st bk s = Some (ret, s') \<Longrightarrow> lib s' = lib s"
  "rt_execute_bn E a b c d e f eps st bk s = Some (ret, s') \<Longrightarrow> lib s' = lib s"
  "rt_set_device E i s = Some (ret, s') \<Longrightarrow> lib s' = lib s"
  "rt_create_stream E rt s = Some (p, s') \<Longrightarrow> lib s' = lib s"
  "rt_execute_sync E st s = Some (ret, s') \<Longrightarrow> lib s' = lib s"
  "rt_execute_dummy E s = Some (ret, s') \<Longrightarrow> lib s' = lib s"
  by (auto simp: rt_execute_add_def rt_execute_mul_def rt_execute_relu_def rt_execute_bn_def rt_set_device_def
      rt_create_stream_def rt_execute_sync_def rt_execute_dummy_def bind_eq_Some_conv dest: run_exec_lib split: if_splits)

lemma gemm_grows:
  assumes "gemm_keeps gemm" "rt_execute_gemm E gemm a b c d act order st bk s = Some (ret, s')"
  shows "grows (lib s) (lib s')"
proof -
  obtain rt where rt: "pim_runtime s = Some rt"
    and call: "gemm a b c d act st bk (s\<lparr>pim_runtime := Some (rt\<lparr>rt_executor := ex_set_gemm_order (env_exec E) order (rt_executor rt)\<rparr>)\<rparr>)
      = Some (ret, s')" using assms(2) by (auto simp: rt_execute_gemm_def bind_eq_Some_conv)
  have "lib (s\<lparr>pim_runtime := Some (rt\<lparr>rt_executor := ex_set_gemm_order (env_exec E) order (rt_executor rt)\<rparr>)\<rparr>) = lib s"
    by (simp add: lib_def rt)
  then show ?thesis using assms(1) call unfolding gemm_keeps_def by metis
qed

definition life_call :: "PimCall \<Rightarrow> bool" where
  "life_call c \<longleftrightarrow> (case c of Initialize rt prec \<Rightarrow> True | Deinitialize \<Rightarrow> True | _ \<Rightarrow> False)"


lemma with_runtime_lib:
  assumes "with_runtime f s = Some (ret, s')" "\<And>ret s'. f s = Some (ret, s') \<Longrightarrow> grows (lib s) (lib s')"
  shows "grows (lib s) (lib s')"
  using assms by (auto simp: with_runtime_def split: if_splits)

lemma ret_ofD: "ret_of x = Some (r, s') \<Longrightarrow> \<exists>i. x = Some (i, s')"
  by (auto simp: ret_of_def)

lemma ptr_ofD: "ptr_of x = Some (r, s') \<Longrightarrow> \<exists>p. x = Some (p, s')"
  by (auto simp: ptr_of_def)

lemma create_call_lib:
  "PimCreateBo_desc E d mt f u tr s = Some (p, s') \<Longrightarrow> lib s' = lib s"
  "PimCreateBo_gemm E d mt f u tr s = Some (p, s') \<Longrightarrow> lib s' = lib s"
  "PimCreateDesc E n c h w prec op s = Some (p, s') \<Longrightarrow> lib s' = lib s"
  "PimCreateGemmDesc E n c ih iw oh ow prec order s = Some (p, s') \<Longrightarrow> lib s' = lib s"
  "PimDestroyGemmDesc q s = Some (ret, s') \<Longrightarrow> lib s' = lib s"
  "PimAllocMemory E q k mt s = Some (ret, p, s') \<Longrightarrow> lib s' = lib s"
  "PimCreateStream E rt s = Some (p, s') \<Longrightarrow> lib s' = lib s"
  subgoal by (auto simp: PimCreateBo_desc_def bind_eq_Some_conv split: if_splits prod.splits dest!: create_bo_lib)
  subgoal by (auto simp: PimCreateBo_gemm_def bind_eq_Some_conv split: if_splits dest!: create_bo_lib)
  subgoal by (auto simp: PimCreateDesc_def bind_eq_Some_conv Let_def split: if_splits)
  subgoal unfolding PimCreateGemmDesc_def Let_def by (auto simp: bind_eq_Some_conv split: if_splits)
  subgoal by (auto simp: PimDestroyGemmDesc_def split: if_splits)
  subgoal by (auto simp: PimAllocMemory_def split: if_splits dest!: mem_lib)
  subgoal by (auto simp: PimCreateStream_def split: if_splits dest!: exec_lib)
  done

lemma runtime_call_grows:
  "PimSetDevice E i s = Some (ret, s') \<Longrightarrow> grows (lib s) (lib s')"
  "PimDestroyDesc q s = Some (ret, s') \<Longrightarrow> grows (lib s) (lib s')"
  "PimAllocMemory_bo E q s = Some (ret, s') \<Longrightarrow> grows (lib s) (lib s')"
  "PimFreeMemory E q mt s = Some (ret, s') \<Longrightarrow> grows (lib s) (lib s')"
  "PimFreeMemory_bo E q s = Some (ret, s') \<Longrightarrow> grows (lib s) (lib s')"
  "PimCopyMemory E a b k cp s = Some (ret, s') \<Longrightarrow> grows (lib s) (lib s')"
  "PimCopyMemoryRect E c3 s = Some (ret, s') \<Longrightarrow> grows (lib s) (lib s')"
  "PimExecuteAdd E a b c st bk s = Some (ret, s') \<Longrightarrow> grows (lib s) (lib s')"
  "PimExecuteMul E a b c st bk s = Some (ret, s') \<Longrightarrow> grows (lib s) (lib s')"
  "PimExecuteRelu E a b st bk s = Some (ret, s') \<Longrightarrow> grows (lib s) (lib s')"
  "PimExecuteBN E a b c d e f eps st bk s = Some (ret, s') \<Longrightarrow> grows (lib s) (lib s')"
  "PimSynchronize E st s = Some (ret, s') \<Longrightarrow> grows (lib s) (lib s')"
  "PimExecuteDummy E s = Some (ret, s') \<Longrightarrow> grows (lib s) (lib s')"
  by (auto simp: PimSetDevice_def PimDestroyDesc_def PimAllocMemory_bo_def PimFreeMemory_def PimFreeMemory_bo_def
      PimCopyMemory_def PimCopyMemoryRect_def PimExecuteAdd_def PimExecuteMul_def PimExecuteRelu_def PimExecuteBN_def
      PimSynchronize_def PimExecuteDummy_def bind_eq_Some_conv elim!: with_runtime_lib split: if_splits dest!: libs exec_lib)

lemma scalar_call_grows:
  "PimExecuteAdd_scalar E a b c st bk s = Some (ret, s') \<Longrightarrow> grows (lib s) (lib s')"
  "PimExecuteMul_scalar E a b c st bk s = Some (ret, s') \<Longrightarrow> grows (lib s) (lib s')"
  subgoal unfolding PimExecuteAdd_scalar_def
    by (erule with_runtime_lib) (metis exec_lib(1) grows_refl scalar_op_lib)
  subgoal unfolding PimExecuteMul_scalar_def
    by (erule with_runtime_lib) (metis exec_lib(2) grows_refl scalar_op_lib)
  done

lemma call_grows:
  assumes "gemm_keeps gemm" "\<not> life_call c" "pim_call E gemm c s = Some (r, s')"
  shows "grows (lib s) (lib s')"
proof (cases c)
  case (ExecuteGemm a b c d act order st bk)
  then show ?thesis
    using assms(3) gemm_grows [OF assms(1)]
    by (auto simp: PimExecuteGemm_def dest!: ret_ofD elim!: with_runtime_lib)
next
  case (ConvertGemmWeight p order dev reuse)
  then show ?thesis using assms(3) by (auto simp: PimConvertGemmWeight_def dest!: ptr_ofD generate_grows split: if_splits)
qed (use assms(2,3) in \<open>auto simp: life_call_def dest!: ret_ofD ptr_ofD bo_lib create_call_lib runtime_call_grows scalar_call_grows\<close>)


lemma free_weights_lib: "free_weights E ws s = Some s' \<Longrightarrow> lib s' = lib s"
  by (induction E ws s rule: free_weights.induct) (fastforce simp: bind_eq_Some_conv dest: mem_lib(4))+

lemma initialize_lib:
  assumes "PimInitialize E rt prec s = Some (ret, s')"
  shows "if pim_initialized s then lib s' = lib s
    else lib s' = (True, Some [], Some (case pm_instance s of None \<Rightarrow> rt | Some pm \<Rightarrow> pm_rt_type pm))
      \<and> map_option rt_type (pim_runtime s') = Some rt"
proof (cases "pim_initialized s")
  case True
  then show ?thesis using assms by (auto simp: PimInitialize_def lib_def)
next
  case False
  from assms False obtain r s1 s2 where c: "PimRuntime_new E rt prec (s\<lparr>log_initialized := True\<rparr>) = Some (r, s1)"
    "rt_initialize E (s1\<lparr>pim_runtime := Some r\<rparr>) = Some (ret, s2)" "s' = s2\<lparr>pim_initialized := True\<rparr>"
    by (auto simp: PimInitialize_def bind_eq_Some_conv Let_def)
  have r: "weight_map r = []" "RuntimeCore.rt_type r = rt"
    "map_option pm_rt_type (pm_instance s1) = Some (case pm_instance s of None \<Rightarrow> rt | Some pm \<Rightarrow> pm_rt_type pm)"
    using c(1) by (auto simp: PimRuntime_new_def bind_eq_Some_conv put_manager_def get_instance_def PimManager_new_def split: option.splits)
  have "lib s2 = lib (s1\<lparr>pim_runtime := Some r\<rparr>) \<and> map_option rt_type (pim_runtime s2) = Some rt"
    using c(2) r(2) by (auto simp: rt_initialize_def run_exec_def bind_eq_Some_conv lib_def put_manager_def the_manager_def)
  then show ?thesis using False r c(3) by (simp add: lib_def)
qed

lemma deinitialize_lib:
  assumes "PimDeinitialize E s = Some (ret, s')"
  shows "if pim_initialized s then lib s' = (False, None, snd (snd (lib s))) else s' = s"
proof (cases "pim_initialized s")
  case True
  then obtain s1 where s1: "rt_deinitialize E s = Some (ret, s1)" "s' = s1\<lparr>pim_runtime := None, pim_initialized := False\<rparr>"
    using assms by (auto simp: PimDeinitialize_def bind_eq_Some_conv)
  have "lib s1 = lib s"
    using s1(1) by (auto simp: rt_deinitialize_def bind_eq_Some_conv dest!: free_weights_lib run_exec_lib)
  then show ?thesis using True s1(2) by (auto simp: lib_def)
qed (use assms in \<open>auto simp: PimDeinitialize_def\<close>)

definition lib_ok :: "bool \<times> (u32 \<times> addr) list option \<times> PimRuntimeType option \<Rightarrow> bool" where
  "lib_ok l = (case l of (i, m, t) \<Rightarrow> (i \<longleftrightarrow> m \<noteq> None) \<and> (m \<noteq> None \<longrightarrow> t \<noteq> None) \<and> keys_ok m)"

lemma lib_inv_ok: "lib_inv s \<longleftrightarrow> lib_ok (lib s)"
  by (simp add: lib_inv_def lib_ok_def lib_def)

lemma grows_ok: "lib_ok k \<Longrightarrow> grows k l \<Longrightarrow> lib_ok l"
  by (cases k; cases l) (auto simp: lib_ok_def)

lemma call_inv:
  assumes "gemm_keeps gemm" "lib_inv s" "pim_call E gemm c s = Some (r, s')"
  shows "lib_inv s'"
proof (cases "life_call c")
  case False
  then show ?thesis using call_grows [OF assms(1) False assms(3)] assms(2) grows_ok by (simp add: lib_inv_ok)
next
  case True
  then consider rt prec where "c = Initialize rt prec" | "c = Deinitialize" by (auto simp: life_call_def split: PimCall.splits)
  then show ?thesis
  proof cases
    case 1
    then obtain i where "PimInitialize E rt prec s = Some (i, s')" using assms(3) by (auto dest!: ret_ofD)
    from initialize_lib [OF this] show ?thesis using assms(2) by (auto simp: lib_inv_ok lib_ok_def keys_ok_def split: if_splits)
  next
    case 2
    then obtain i where "PimDeinitialize E s = Some (i, s')" using assms(3) by (auto dest!: ret_ofD)
    from deinitialize_lib [OF this] show ?thesis using assms(2) by (auto simp: lib_inv_ok lib_ok_def keys_ok_def split: if_splits)
  qed
qed

text \<open>in every state the library reaches by any sequence of calls, the flag \<open>pim_initialized\<close> agrees with
  the runtime pointer, the manager singleton exists whenever the runtime does, and the keys of the
  weight cache are distinct.
\<close>

theorem library_invariant:
  assumes "gemm_keeps gemm" "pim_reach E gemm s"
  shows "lib_inv s"
  using assms(2)
proof (induction rule: pim_reach.induct)
  case pim_start
  then show ?case by (simp add: lib_inv_def pim_start_def keys_ok_def)
next
  case (pim_step s c r s')
  then show ?case using call_inv [OF assms(1)] by blast
qed

lemma demo_gemm_keeps: "gemm_keeps demo_gemm"
  by (simp add: gemm_keeps_def demo_gemm_def)

lemma demo_reach: "pim_reach demo_env demo_gemm demo_pim"
  by (rule pim_step [OF pim_start, where c = "Initialize RT_TYPE_HIP PIM_FP16"]) (simp add: demo_initialize ret_of_def)

lemma library_invariant_witness: "lib_inv demo_pim"
  by (rule library_invariant [OF demo_gemm_keeps demo_reach])


lemma demo_reinitialize:
  "\<exists>s'. pim_call demo_env demo_gemm (Initialize RT_TYPE_OPENCL PIM_FP16) (demo_pim\<lparr>pim_initialized := False, pim_runtime := None\<rparr>)
     = Some (Ret 0, s')"
  by (simp add: ret_of_def PimInitialize_def demo_pim_def PimRuntime_new_def get_instance_def demo_env_def
      demo_exec_def put_manager_def pm_put_def rt_initialize_def the_manager_def run_exec_def
      pm_initialize_def dispatch_def HipManager_def demo_pm_def Let_def)


end
