(* ===== verification/ObjectStore.thy ===== *)
theory ObjectStore
  imports DemoWorld
begin

text \<open>
  The store of buffer objects: which operations of the runtime leave the objects of the caller as they
  are. \<open>extends D\<close> is an order on states; every operation that creates, fills and destroys objects of its
  own lies in it.
\<close>

section \<open>Extension of the store\<close>

text \<open>
  The objects at the addresses \<open>D\<close> are there, an object has a non-null address, and \<open>new\<close> finds a fresh
  one. A call extends the store over \<open>D\<close> when it ends in such a state with these objects unchanged.
\<close>

definition store_ok :: "addr set \<Rightarrow> ('s, 'e) Pim \<Rightarrow> bool" where
  "store_ok D s \<longleftrightarrow> D \<subseteq> dom (pim_bos s) \<and> finite (live_objs s) \<and> pim_bos s 0 = None"

definition extends :: "addr set \<Rightarrow> ('s, 'e) Pim \<Rightarrow> ('s, 'e) Pim \<Rightarrow> bool" where
  "extends D s s' \<longleftrightarrow> (store_ok D s \<longrightarrow> store_ok D s' \<and> (\<forall>p \<in> D. pim_bos s' p = pim_bos s p))"

lemma extends_refl [simp]: "extends D s s"
  by (simp add: extends_def)

lemma extends_trans: "extends D s t \<Longrightarrow> extends D t u \<Longrightarrow> extends D s u"
  by (simp add: extends_def)

lemma live_objs_simps [simp]:
  "live_objs (s\<lparr>pim_runtime := r\<rparr>) = live_objs s" "live_objs (put_manager pm s) = live_objs s"
  "live_objs (s\<lparr>pm_instance := i\<rparr>) = live_objs s"
  "pim_bos (put_manager pm s) = pim_bos s"
  "pim_bos (put_bo p b s) = (pim_bos s)(p \<mapsto> b)" "live_objs (put_bo p b s) = insert p (live_objs s)"
  by (auto simp: live_objs_def put_manager_def put_bo_def)

lemma extends_same: "pim_bos s' = pim_bos s \<Longrightarrow> live_objs s' = live_objs s \<Longrightarrow> extends D s s'"
  by (simp add: extends_def store_ok_def)

lemma extends_put: "p \<notin> D \<Longrightarrow> p \<noteq> 0 \<Longrightarrow> extends D s (put_bo p b s)"
  by (auto simp: extends_def store_ok_def)

lemma bos_live: "pim_bos s p = Some b \<Longrightarrow> p \<in> live_objs s"
  by (auto simp: live_objs_def)

lemma store_ok_nonnull: "store_ok D s \<Longrightarrow> pim_bos s p = Some b \<Longrightarrow> p \<noteq> 0"
  by (cases "p = 0") (simp_all add: store_ok_def)

lemma store_ok_live: "store_ok D s \<Longrightarrow> p \<in> D \<Longrightarrow> p \<in> live_objs s"
  by (auto simp: store_ok_def subset_iff dest: bos_live)

lemma live_objs_drop: "live_objs (s\<lparr>pim_bos := (pim_bos s)(p := None)\<rparr>) \<subseteq> live_objs s"
  by (auto simp: live_objs_def)

lemma extends_drop:
  assumes "p \<notin> D"
  shows "extends D s (s\<lparr>pim_bos := (pim_bos s)(p := None)\<rparr>)"
proof -
  have "D \<subseteq> dom ((pim_bos s)(p := None))" if "D \<subseteq> dom (pim_bos s)" using that assms by auto
  moreover have "\<forall>q \<in> D. ((pim_bos s)(p := None)) q = pim_bos s q" using assms by auto
  ultimately show ?thesis
    using finite_subset [OF live_objs_drop [of s p]] by (simp add: extends_def store_ok_def)
qed

lemma extendsI: "(store_ok D s \<Longrightarrow> extends D s s') \<Longrightarrow> extends D s s'"
  by (simp add: extends_def)

text \<open>An operation that does not touch the store, followed by an update of an object outside \<open>D\<close>.\<close>

lemma extends_then_put:
  "pim_bos t = pim_bos s \<Longrightarrow> live_objs t = live_objs s \<Longrightarrow> p \<notin> D \<Longrightarrow> p \<noteq> 0 \<Longrightarrow> extends D s (put_bo p b t)"
  by (rule extends_trans [OF extends_same extends_put])


lemma extends_not_null: "store_ok D s \<Longrightarrow> 0 \<notin> D"
  by (auto simp: store_ok_def)

lemma run_exec_store: "run_exec f s = Some (ret, s') \<Longrightarrow> pim_bos s' = pim_bos s \<and> live_objs s' = live_objs s"
  by (auto simp: run_exec_def bind_eq_Some_conv)

lemma run_exec_extends: "run_exec f s = Some (ret, s') \<Longrightarrow> extends D s s'"
  by (rule extends_same) (simp_all add: run_exec_store)

section \<open>Operations of the runtime\<close>

lemma alloc_bo_store:
  "rt_alloc_memory_bo E bo u s = Some (ret, bo', s') \<Longrightarrow> pim_bos s' = pim_bos s \<and> live_objs s' = live_objs s"
  by (auto simp: rt_alloc_memory_bo_def bind_eq_Some_conv split: if_splits)

lemma create_bo_extends:
  assumes "new_ok (env_new E)" "create_bo E bo u s = Some (p, s')"
  shows "extends D s s'" "store_ok D s \<Longrightarrow> p \<notin> D"
proof -
  let ?q = "env_new E (live_objs s)"
  obtain ret b t where r: "rt_alloc_memory_bo E bo u s = Some (ret, b, t)" "p = (if ret \<noteq> 0 then 0 else ?q)" "s' = put_bo ?q b t"
    using assms(2) by (auto simp: create_bo_def Let_def bind_eq_Some_conv)
  have fresh: "?q \<noteq> 0" "?q \<notin> D" if "store_ok D s"
  proof -
    have "?q \<noteq> 0 \<and> ?q \<notin> live_objs s" using assms(1) that by (simp add: new_ok_def store_ok_def)
    then show "?q \<noteq> 0" "?q \<notin> D" using store_ok_live [OF that] by auto
  qed
  show "extends D s s'"
    unfolding r(3) using alloc_bo_store [OF r(1)] by (intro extendsI [OF extends_then_put]) (simp_all add: fresh)
  show "p \<notin> D" if "store_ok D s"
    using fresh [OF that] extends_not_null [OF that] r(2) by simp
qed

lemma create_like_eq:
  "\<exists>bo. create_like E sh mt s = (if pim_runtime s = None then Some (0, s) else create_bo E bo 0 s)"
  unfolding create_like_def PimCreateBo_def Let_def by (rule exI) (rule refl)

lemma create_like_extends:
  assumes "new_ok (env_new E)" "create_like E sh mt s = Some (p, s')"
  shows "extends D s s'" "store_ok D s \<Longrightarrow> p \<notin> D"
proof -
  obtain bo where "create_like E sh mt s = (if pim_runtime s = None then Some (0, s) else create_bo E bo 0 s)"
    using create_like_eq by blast
  then consider "p = 0" "s' = s" | "create_bo E bo 0 s = Some (p, s')"
    using assms(2) by (cases "pim_runtime s = None") simp_all
  then have "extends D s s' \<and> (store_ok D s \<longrightarrow> p \<notin> D)"
  proof cases
    case 1
    then show ?thesis using extends_not_null [of D s] by simp
  next
    case 2
    then show ?thesis using create_bo_extends [OF assms(1) 2] by simp
  qed
  then show "extends D s s'" "store_ok D s \<Longrightarrow> p \<notin> D" by simp_all
qed

lemma free_bo_extends:
  assumes "rt_free_memory_bo E p s = Some (ret, s')" "p \<notin> D"
  shows "extends D s s'"
proof (rule extendsI)
  assume ok: "store_ok D s"
  obtain bo where bo: "pim_bos s p = Some bo" using assms(1) by (auto simp: rt_free_memory_bo_def bind_eq_Some_conv)
  then have "p \<noteq> 0" by (rule store_ok_nonnull [OF ok])
  then show "extends D s s'" using assms bo
    by (auto simp: rt_free_memory_bo_def bind_eq_Some_conv split: if_splits intro!: extends_then_put)
qed

lemma destroy_extends:
  assumes "PimDestroyBo E p s = Some (ret, s')" "p \<notin> D"
  shows "extends D s s'"
proof (cases "pim_runtime s = None")
  case True
  then show ?thesis using assms(1) by (simp add: PimDestroyBo_def)
next
  case False
  then obtain r t where t: "rt_free_memory_bo E p s = Some (r, t)"
    "s' = t \<or> s' = t\<lparr>pim_bos := (pim_bos t)(p := None)\<rparr>"
    using assms(1) by (auto simp: PimDestroyBo_def bind_eq_Some_conv split: if_splits)
  then show ?thesis
    using extends_trans [OF free_bo_extends [OF t(1) assms(2)] extends_drop [OF assms(2)]] free_bo_extends [OF t(1) assms(2)] by auto
qed

lemma copy_bo_extends:
  assumes "PimCopyMemory_bo E dst src k s = Some (ret, s')" "dst \<notin> D"
  shows "extends D s s'"
proof (cases "pim_runtime s = None")
  case True
  then show ?thesis using assms(1) by (simp add: PimCopyMemory_bo_def)
next
  case False
  then obtain d b r t where d: "pim_bos s dst = Some d" and s': "s' = put_bo dst (d\<lparr>data_layout_type := data_layout_type b\<rparr>) t"
    and run: "(if k = PIM_TO_PIM then run_exec (ex_copy (env_exec E) d b 0 True) s
        else do {
          pm \<leftarrow> the_manager s;
          (ret, pm) \<leftarrow> pm_copy_memory_bo (env_mem E) d b k pm;
          Some (ret, put_manager pm s)
        }) = Some (r, t)"
    using assms(1) by (auto simp: PimCopyMemory_bo_def rt_copy_memory_bo_def bind_eq_Some_conv)
  have "pim_bos t = pim_bos s \<and> live_objs t = live_objs s"
    using run by (cases "k = PIM_TO_PIM") (auto simp: bind_eq_Some_conv dest: run_exec_store)
  note t = d this [THEN conjunct1] this [THEN conjunct2] s'
  show ?thesis
  proof (rule extendsI)
    assume "store_ok D s"
    then have "dst \<noteq> 0" using t(1) by (rule store_ok_nonnull)
    then show "extends D s s'" using t assms(2) by (simp add: extends_then_put)
  qed
qed

lemma convert_layout_extends:
  assumes "rt_convert_data_layout E dst src dev s = Some (ret, s')" "dst \<notin> D"
  shows "extends D s s'"
proof (rule extendsI)
  assume ok: "store_ok D s"
  obtain d b' pm where t: "pim_bos s dst = Some d" "s' = put_bo dst b' (put_manager pm s)"
    using assms(1) by (auto simp: rt_convert_data_layout_def bind_eq_Some_conv)
  have "dst \<noteq> 0" by (rule store_ok_nonnull [OF ok t(1)])
  then show "extends D s s'" using t(2) assms(2) by (simp add: extends_then_put)
qed

lemma transpose_store: "rt_transpose E dst src s = Some s' \<Longrightarrow> pim_bos s' = pim_bos s \<and> live_objs s' = live_objs s"
  by (auto simp: rt_transpose_def bind_eq_Some_conv Let_def)

lemma set_order_store: "rt_set_gemm_order E order s = Some s' \<Longrightarrow> pim_bos s' = pim_bos s \<and> live_objs s' = live_objs s"
  by (auto simp: rt_set_gemm_order_def bind_eq_Some_conv)

lemma insert_store:
  "insert_preloaded_pim_weight E w p s = Some (ret, s') \<Longrightarrow> pim_bos s' = pim_bos s \<and> live_objs s' = live_objs s"
  by (auto simp: insert_preloaded_pim_weight_def bind_eq_Some_conv split: if_splits)


lemma extends_ok: "extends D s t \<Longrightarrow> store_ok D s \<Longrightarrow> store_ok D t"
  by (simp add: extends_def)

lemma convert_on_device_extends:
  assumes "new_ok (env_new E)" "convert_on_device E dev_wei w order s = Some (q, s')"
  shows "extends D s s'"
proof (rule extendsI)
  assume ok: "store_ok D s"
  obtain s1 s2 r where st: "rt_set_gemm_order E order s = Some s1" "create_like E (bshape w) MEM_TYPE_PIM s1 = Some (q, s2)"
    "rt_convert_data_layout E q dev_wei True s2 = Some (r, s')"
    using assms(2) by (auto simp: convert_on_device_def bind_eq_Some_conv)
  have e1: "extends D s s1" using set_order_store [OF st(1)] by (simp add: extends_same)
  note ok1 = extends_ok [OF e1 ok]
  note e2 = create_like_extends(1) [OF assms(1) st(2), of D]
  note e3 = convert_layout_extends [OF st(3) create_like_extends(2) [OF assms(1) st(2) ok1]]
  show "extends D s s'" by (rule extends_trans [OF e1 extends_trans [OF e2 e3]])
qed

text \<open>The four objects that the conversion on the host makes, and the data it moves before the conversion.\<close>

lemma gather_weight_store:
  assumes "gather_weight E w order hw ht s = Some s'"
  shows "pim_bos s' = pim_bos s \<and> live_objs s' = live_objs s"
proof (cases "check_need_for_transpose order w")
  case True
  then obtain pm where "rt_transpose E hw ht (put_manager pm s) = Some s'"
    using assms by (auto simp: gather_weight_def bind_eq_Some_conv)
  from transpose_store [OF this] show ?thesis by simp
next
  case False
  then show ?thesis using assms by (auto simp: gather_weight_def bind_eq_Some_conv)
qed

lemma convert_on_host_extends:
  assumes "new_ok (env_new E)" "convert_on_host E dev_wei w order s = Some (q, s')"
  shows "extends D s s'"
proof (rule extendsI)
  assume ok: "store_ok D s"
  obtain hw s1 ht s2 hr s3 s4 s5 s6 r7 s7 r8 s8 r9 s9 r10 s10 r11 where st:
    "create_like E (bshape w) MEM_TYPE_HOST s = Some (hw, s1)"
    "create_like E (bshape w) MEM_TYPE_HOST s1 = Some (ht, s2)"
    "create_like E (bshape w) MEM_TYPE_HOST s2 = Some (hr, s3)"
    "create_like E (bshape w) MEM_TYPE_PIM s3 = Some (q, s4)"
    "gather_weight E w order hw ht s4 = Some s5"
    "rt_set_gemm_order E order s5 = Some s6"
    "rt_convert_data_layout E hr hw False s6 = Some (r7, s7)"
    "PimCopyMemory_bo E q hr HOST_TO_PIM s7 = Some (r8, s8)"
    "PimDestroyBo E hw s8 = Some (r9, s9)" "PimDestroyBo E ht s9 = Some (r10, s10)" "PimDestroyBo E hr s10 = Some (r11, s')"
    using assms(2) by (auto simp: convert_on_host_def bind_eq_Some_conv)
  note like = create_like_extends [OF assms(1)]
  note e1 = like(1) [OF st(1), of D] and n1 = like(2) [OF st(1) ok]
  note ok1 = extends_ok [OF e1 ok]
  note e2 = like(1) [OF st(2), of D] and n2 = like(2) [OF st(2) ok1]
  note ok2 = extends_ok [OF e2 ok1]
  note e3 = like(1) [OF st(3), of D] and n3 = like(2) [OF st(3) ok2]
  note ok3 = extends_ok [OF e3 ok2]
  note e4 = like(1) [OF st(4), of D] and n4 = like(2) [OF st(4) ok3]
  have e5: "extends D s4 s5" using gather_weight_store [OF st(5)] by (simp add: extends_same)
  have e6: "extends D s5 s6" using set_order_store [OF st(6)] by (simp add: extends_same)
  note e7 = convert_layout_extends [OF st(7) n3] and e8 = copy_bo_extends [OF st(8) n4]
  note e9 = destroy_extends [OF st(9) n1] and e10 = destroy_extends [OF st(10) n2] and e11 = destroy_extends [OF st(11) n3]
  note [trans] = extends_trans
  note e1 also note e2 also note e3 also note e4 also note e5 also note e6 also note e7 also note e8
  also note e9 also note e10 also note e11
  finally show "extends D s s'" .
qed

lemma preloaded_extends:
  assumes "new_ok (env_new E)" "get_preloaded_pim_gemm_weight E p order dev reuse s = Some (q, s')"
  shows "extends D s s'"
proof -
  obtain w pre where w: "pim_bos s p = Some w" "find_preloaded_pim_weight E w s = Some pre"
    using assms(2) by (auto simp: get_preloaded_pim_gemm_weight_def bind_eq_Some_conv)
  show ?thesis
  proof (cases "pre \<noteq> 0 \<or> \<not> dev \<and> bo_data w = 0")
    case True
    then have "s' = s" using assms(2) w by (auto simp: get_preloaded_pim_gemm_weight_def split: if_splits)
    then show ?thesis by simp
  next
    case False
    then obtain x t where t: "(if dev then convert_on_device E p w order s else convert_on_host E p w order s) = Some (x, t)"
      "(if reuse then do { (ret, s) \<leftarrow> insert_preloaded_pim_weight E w x t; Some (x, s) } else Some (x, t)) = Some (q, s')"
      using assms(2) w by (auto simp: get_preloaded_pim_gemm_weight_def bind_eq_Some_conv split del: if_split)
    have "extends D s t"
      using t(1) convert_on_device_extends [OF assms(1)] convert_on_host_extends [OF assms(1)] by (cases dev) simp_all
    moreover have "extends D t s'"
      using t(2) by (cases reuse) (auto simp: bind_eq_Some_conv intro: extends_same dest!: insert_store)
    ultimately show ?thesis by (rule extends_trans)
  qed
qed

end
