(* ===== verification/IsaCheck.thy ===== *)
theory IsaCheck
  imports CommandCodec
begin

text \<open>
  The offline CRF tools under \<open>tools/crfcodegen\<close> and \<open>tools/crfdecoder\<close>: the validation checker
  \<open>PimValidationChecker\<close> with its tables, the conversion API \<open>ConvertToBinary\<close>, and the decoder's
  \<open>main\<close>. The tools carry a copy of the command class, whose codec is that of \<open>CommandCodec\<close>. Every
  result is an \<open>int option\<close>: \<open>None\<close> is an access outside a table or a command vector or a failed
  \<open>assert\<close>.
\<close>

section \<open>Tables\<close>

datatype PimCmdPairType = CP_MUL | CP_ADD | CP_MAC | CP_MAD | CP_ETC

datatype PimOpdPairType = OP_GRF_A | OP_GRF_B | OP_EVEN_BANK | OP_ODD_BANK | OP_SRF_M | OP_SRF_A | OP_ETC

fun cmd_pair_idx :: "PimCmdPairType \<Rightarrow> nat" where
  "cmd_pair_idx CP_MUL = 0" | "cmd_pair_idx CP_ADD = 1" | "cmd_pair_idx CP_MAC = 2"
| "cmd_pair_idx CP_MAD = 3" | "cmd_pair_idx CP_ETC = 4"

fun opd_pair_idx :: "PimOpdPairType \<Rightarrow> nat" where
  "opd_pair_idx OP_GRF_A = 0" | "opd_pair_idx OP_GRF_B = 1" | "opd_pair_idx OP_EVEN_BANK = 2"
| "opd_pair_idx OP_ODD_BANK = 3" | "opd_pair_idx OP_SRF_M = 4" | "opd_pair_idx OP_SRF_A = 5"
| "opd_pair_idx OP_ETC = 6"

definition src_pair_table :: "int list list list" where
  "src_pair_table =
    [[[0, 0, 0, 0], [1, 1, 2, 1], [1, 1, 1, 1], [1, 1, 1, 1], [0, 0, 0, 1], [0, 1, 0, 0]],
     [[1, 1, 2, 1], [0, 0, 0, 0], [1, 1, 2, 1], [1, 1, 2, 1], [0, 0, 2, 1], [0, 1, 0, 0]],
     [[1, 1, 1, 0], [1, 1, 2, 1], [1, 1, 1, 3], [0, 0, 0, 0], [0, 0, 0, 1], [0, 1, 0, 0]],
     [[1, 1, 1, 0], [1, 1, 2, 1], [0, 0, 0, 0], [1, 1, 1, 3], [0, 0, 0, 1], [0, 1, 0, 0]],
     [[0, 0, 0, 0], [0, 0, 2, 0], [0, 0, 0, 0], [0, 0, 0, 0], [0, 0, 0, 0], [0, 0, 0, 0]],
     [[0, 1, 0, 0], [0, 1, 0, 0], [0, 1, 0, 0], [0, 1, 0, 0], [0, 0, 0, 0], [0, 0, 0, 0]]]"

definition data_hazard_table :: "int list list" where
  "data_hazard_table = [[1, 1, -1, -1, 0], [2, 2, 3, 3, 1]]"

definition structual_hazard_table :: "int list list list list" where
  "structual_hazard_table =
    [[[[1, 1, 1, 2, 0], [1, 1, 1, 2, 0], [0, 0, 0, 1, 0], [0, 0, 1, 1, 0], [3, 3, 3, 4, 1]],
      [[2, 2, 2, 3, 0], [2, 2, 2, 3, 0], [-1, -1, -1, -1, -1], [-1, -1, -1, -1, -1], [3, 3, 3, 4, 1]],
      [[0, 0, -1, -1, 0], [0, 0, -1, -1, 0], [0, 0, -1, -1, 0], [0, 0, -1, -1, 0], [2, 2, -1, -1, 1]],
      [[1, 1, -1, -1, 0], [1, 1, -1, -1, 0], [-1, -1, -1, -1, -1], [-1, -1, -1, -1, -1], [2, 2, -1, -1, 1]]],
     [[[0, 0, 1, 1, 0], [0, 0, 1, 1, 0], [0, 0, 0, 0, 0], [0, 0, 1, 0, 0], [2, 2, 3, 3, 0]],
      [[1, 1, 2, 2, 0], [1, 1, 2, 2, 0], [-1, -1, -1, -1, -1], [-1, -1, -1, -1, -1], [2, 2, 3, 3, 0]],
      [[0, 0, -1, -1, 0], [0, 0, -1, -1, 0], [0, 0, -1, -1, 0], [0, 0, -1, -1, 0], [1, 1, -1, -1, 0]],
      [[0, 0, -1, -1, 0], [0, 0, -1, -1, 0], [-1, -1, -1, -1, -1], [-1, -1, -1, -1, -1], [1, 1, -1, -1, 0]]]]"

section \<open>Operand pairs\<close>

text \<open>Reserved command types take the value-initialised result, the first enumerator.\<close>

fun change_cmd_type :: "PimCmdType \<Rightarrow> PimCmdPairType" where
  "change_cmd_type MUL = CP_MUL"
| "change_cmd_type ADD = CP_ADD"
| "change_cmd_type MAC = CP_MAC"
| "change_cmd_type MAD = CP_MAD"
| "change_cmd_type EXIT = CP_ETC"
| "change_cmd_type NOP = CP_ETC"
| "change_cmd_type JUMP = CP_ETC"
| "change_cmd_type FILL = CP_ETC"
| "change_cmd_type MOV = CP_ETC"
| "change_cmd_type _ = CP_MUL"

fun change_opd_type :: "PimOpdType \<Rightarrow> PimOpdPairType" where
  "change_opd_type EVEN_BANK = OP_EVEN_BANK"
| "change_opd_type ODD_BANK = OP_ODD_BANK"
| "change_opd_type GRF_A = OP_GRF_A"
| "change_opd_type GRF_B = OP_GRF_B"
| "change_opd_type SRF_M = OP_SRF_M"
| "change_opd_type SRF_A = OP_SRF_A"
| "change_opd_type A_OUT = OP_ETC"
| "change_opd_type M_OUT = OP_ETC"

definition pair_entry :: "nat \<Rightarrow> nat \<Rightarrow> nat \<Rightarrow> int option" where
  "pair_entry i j k =
     (if i < 6 \<and> j < 6 \<and> k < 4 then Some (src_pair_table ! i ! j ! k) else None)"

definition check_validate_pair :: "PimCommand \<Rightarrow> int option" where
  "check_validate_pair c =
    (if change_cmd_type (cmd_type c) = CP_ETC then Some 1
     else map_option (\<lambda>e.
       if e = 0 \<or> e = 2 \<and> is_auto c = 0 \<or> e = 3 \<and> is_auto c \<noteq> 0
          \<or> src2 c \<noteq> SRF_A \<and> src2 c \<noteq> A_OUT
          \<or> src2 c = SRF_A \<and> cmd_type c \<noteq> MAD
          \<or> cmd_type c = MAC \<and> dst c = GRF_A
          \<or> dst c \<noteq> GRF_A \<and> dst c \<noteq> GRF_B
       then 0 else 1)
       (pair_entry (opd_pair_idx (change_opd_type (src0 c))) (opd_pair_idx (change_opd_type (src1 c)))
          (cmd_pair_idx (change_cmd_type (cmd_type c)))))"

text \<open>The loop returns at the first rejected command; \<open>ret\<close> starts at 1.\<close>

fun check_cmd_validation :: "PimCommand list \<Rightarrow> int option" where
  "check_cmd_validation [] = Some 1"
| "check_cmd_validation (c # cs) =
     (case check_validate_pair c of
        None \<Rightarrow> None
      | Some r \<Rightarrow> if r = 0 then Some 0 else if cs = [] then Some r else check_cmd_validation cs)"

section \<open>ISA restrictions\<close>

definition next_is :: "PimCommand list \<Rightarrow> nat \<Rightarrow> PimCmdType \<Rightarrow> bool" where
  "next_is cmds i t \<longleftrightarrow> i + 1 < length cmds \<and> cmd_type (cmds ! (i + 1)) = t"

text \<open>One round of the loop: \<open>Some v\<close> tells whether the round found no violation.\<close>

definition isa_jump :: "PimCommand list \<Rightarrow> nat \<Rightarrow> bool option" where
  "isa_jump cmds i =
    (let c = cmds ! i; tgt = int i - loop_offset c + 1
     in if tgt < 0 then Some False
        else case arr_get cmds tgt of
               None \<Rightarrow> None
             | Some t \<Rightarrow> Some (loop_counter c \<noteq> 0 \<and> cmd_type t \<noteq> NOP \<and> cmd_type t \<noteq> JUMP
                               \<and> \<not> next_is cmds i NOP))"

definition isa_nop :: "PimCommand list \<Rightarrow> nat \<Rightarrow> bool" where
  "isa_nop cmds i \<longleftrightarrow>
     \<not> (loop_counter (cmds ! i) > 0 \<and> next_is cmds i JUMP)
     \<and> \<not> (next_is cmds i NOP \<and> loop_counter (cmds ! i) > 0 \<and> loop_counter (cmds ! 1) > 0)"

definition isa_round :: "PimCommand list \<Rightarrow> nat \<Rightarrow> bool option" where
  "isa_round cmds i =
    (if cmd_type (cmds ! i) = JUMP then isa_jump cmds i
     else if cmd_type (cmds ! i) = NOP then Some (isa_nop cmds i) else Some True)"

fun isa_loop :: "PimCommand list \<Rightarrow> nat list \<Rightarrow> bool \<Rightarrow> bool option" where
  "isa_loop cmds [] ok = Some ok"
| "isa_loop cmds (i # is) ok =
     (case isa_round cmds i of None \<Rightarrow> None | Some v \<Rightarrow> isa_loop cmds is (ok \<and> v))"

definition check_isa_restriction :: "PimCommand list \<Rightarrow> int option" where
  "check_isa_restriction cmds =
    (if cmds = [] then None
     else map_option (\<lambda>ok. if ok then 1 else 0)
            (isa_loop cmds [0..<length cmds] (cmd_type (cmds ! 0) \<noteq> NOP)))"

section \<open>Hazards\<close>

fun is_register :: "PimOpdType \<Rightarrow> bool" where
  "is_register GRF_A = True" | "is_register GRF_B = True" | "is_register SRF_M = True"
| "is_register SRF_A = True" | "is_register _ = False"

definition is_read_register :: "PimCommand \<Rightarrow> bool" where
  "is_read_register c \<longleftrightarrow> is_register (src0 c) \<or> is_register (src1 c) \<or> cmd_type c = MAC \<or> is_register (src2 c)"

fun get_hazard_table_idx :: "PimCmdType \<Rightarrow> int" where
  "get_hazard_table_idx ADD = 0" | "get_hazard_table_idx MUL = 1" | "get_hazard_table_idx MAC = 2"
| "get_hazard_table_idx MAD = 3" | "get_hazard_table_idx FILL = 4" | "get_hazard_table_idx MOV = 4"
| "get_hazard_table_idx _ = -1"

text \<open>\<open>find_next_op\<close>: the index of the next operation (0 if there is none) and the cycles of the
  \<open>NOP\<close>s in between.\<close>

function find_next_op :: "PimCommand list \<Rightarrow> nat \<Rightarrow> int \<Rightarrow> nat \<times> int" where
  "find_next_op cmds i num_nop =
    (if length cmds \<le> i then (0, num_nop)
     else let nop = (if cmd_type (cmds ! i) = NOP then num_nop + loop_counter (cmds ! i) + 1 else num_nop)
          in if get_hazard_table_idx (cmd_type (cmds ! i)) = -1 then find_next_op cmds (i + 1) nop
             else (i, nop))"
  by pat_completeness auto
termination by (relation "measure (\<lambda>(cmds, i, n). length cmds - i)") auto

declare find_next_op.simps [simp del]

definition detect_structural_hazard :: "PimCommand \<Rightarrow> PimCommand \<Rightarrow> int \<Rightarrow> int option" where
  "detect_structural_hazard cur nxt num_nop =
    (let c = get_hazard_table_idx (cmd_type cur); n = get_hazard_table_idx (cmd_type nxt)
     in if c < 0 \<or> n < 0 then None
        else let consecutive = (if dst cur = dst nxt then 1 else 0);
                 r_nonr = (if is_read_register cur then 0 else 2) + (if is_read_register nxt then 0 else 1);
                 need = structual_hazard_table ! consecutive ! r_nonr ! nat n ! nat c
             in if need = -1 then Some (-1) else if num_nop < need then Some 1 else Some 0)"

definition same_reg :: "PimCommand \<Rightarrow> PimCommand \<Rightarrow> bool" where
  "same_reg cur c \<longleftrightarrow> dst cur = src0 c \<or> dst cur = src1 c"

definition same_reg_idx :: "PimCommand \<Rightarrow> PimCommand \<Rightarrow> bool" where
  "same_reg_idx cur c \<longleftrightarrow> dst cur = src0 c \<and> dst_idx cur = src0_idx c \<or> dst cur = src1 c \<and> dst_idx cur = src1_idx c"

fun data_loop :: "PimCommand \<Rightarrow> int \<Rightarrow> PimCommand list \<Rightarrow> int \<Rightarrow> int \<Rightarrow> int" where
  "data_loop cur need [] num_nop hazard = hazard"
| "data_loop cur need (c # cs) num_nop hazard =
    (if need \<le> num_nop then hazard
     else let hit = (if is_auto cur \<noteq> 0 \<or> is_auto c \<noteq> 0 then same_reg cur c else same_reg_idx cur c)
          in if hit then data_loop cur need cs num_nop 1
             else data_loop cur need cs (num_nop + 1 + is_auto c * 7) hazard)"

definition detect_data_hazard :: "PimCommand list \<Rightarrow> nat \<Rightarrow> nat \<Rightarrow> int \<Rightarrow> int option" where
  "detect_data_hazard cmds cur nxt num_nop =
    (let op = get_hazard_table_idx (cmd_type (cmds ! cur))
     in if op < 0 then None
        else let need = data_hazard_table ! (if is_read_register (cmds ! cur) then 1 else 0) ! nat op;
                 max_idx = nat (min (int cur + need + 1) (int (length cmds)))
             in Some (data_loop (cmds ! cur) need (drop nxt (take max_idx cmds)) num_nop 0))"

function hazard_loop :: "PimCommand list \<Rightarrow> nat \<Rightarrow> int \<Rightarrow> int option" where
  "hazard_loop cmds i num_hazard =
    (if length cmds \<le> i then Some num_hazard
     else if get_hazard_table_idx (cmd_type (cmds ! i)) = -1 then hazard_loop cmds (i + 1) num_hazard
     else let (nxt, nop) = find_next_op cmds (i + 1) 0
          in if nxt = 0 then Some num_hazard
             else if 4 \<le> nop then hazard_loop cmds (max (i + 1) nxt) num_hazard
             else case (detect_structural_hazard (cmds ! i) (cmds ! nxt) nop, detect_data_hazard cmds i nxt nop) of
                    (Some s, Some d) \<Rightarrow>
                      hazard_loop cmds (i + 1)
                        (num_hazard + (if s \<noteq> 0 then 1 else 0) + (if d \<noteq> 0 then 1 else 0))
                  | _ \<Rightarrow> None)"
  by pat_completeness auto
termination by (relation "measure (\<lambda>(cmds, i, n). length cmds - i)") auto

declare hazard_loop.simps [simp del]

definition check_hazard :: "PimCommand list \<Rightarrow> int option" where
  "check_hazard cmds = hazard_loop cmds 0 0"

section \<open>The API\<close>

text \<open>\<open>&=\<close> on the \<open>int\<close> results.\<close>

definition validation_check :: "PimCommand list \<Rightarrow> int option" where
  "validation_check cmds =
    Option.bind (check_cmd_validation cmds) (\<lambda>a.
    Option.bind (check_isa_restriction cmds) (\<lambda>b.
    Option.bind (check_hazard cmds) (\<lambda>h. Some ((a AND b) AND h))))"

definition convert_to_binary :: "PimCommand list \<Rightarrow> u32 list \<Rightarrow> u32 list option" where
  "convert_to_binary cmds buf =
    (if length cmds \<le> length buf then Some (map to_int cmds @ drop (length cmds) buf) else None)"

definition ConvertToBinary :: "PimCommand list \<Rightarrow> u32 list \<Rightarrow> (int \<times> u32 list) option" where
  "ConvertToBinary cmds buf =
    (case validation_check cmds of
       None \<Rightarrow> None
     | Some ret \<Rightarrow>
         if ret \<noteq> 0 then map_option (\<lambda>b. (ret, b)) (convert_to_binary cmds buf) else Some (ret, buf))"

definition ConvertCommand :: "PimCommand \<Rightarrow> u32 list \<Rightarrow> (int \<times> u32 list) option" where
  "ConvertCommand c buf =
    (case check_validate_pair c of
       None \<Rightarrow> None
     | Some ret \<Rightarrow>
         if ret \<noteq> 0 then map_option (\<lambda>b. (ret, b)) (arr_set buf 0 (to_int c)) else Some (ret, buf))"

text \<open>
  The decoder parses its argument with \<open>std::stoul\<close> in base 16 (white space, a sign and a \<open>0x\<close> prefix
  are accepted, the rest after the digits is ignored, no digits or a value of more than 64 bits throw)
  and prints the command the low 32 bits stand for; without exactly one argument it exits with 1.
\<close>

definition hex_digit :: "char \<Rightarrow> int option" where
  "hex_digit c = (let n = of_char c :: int
     in if 48 \<le> n \<and> n \<le> 57 then Some (n - 48) else if 97 \<le> n \<and> n \<le> 102 then Some (n - 87)
        else if 65 \<le> n \<and> n \<le> 70 then Some (n - 55) else None)"

fun hex_value :: "int \<Rightarrow> string \<Rightarrow> int" where
  "hex_value acc [] = acc"
| "hex_value acc (c # cs) = (case hex_digit c of None \<Rightarrow> acc | Some d \<Rightarrow> hex_value (16 * acc + d) cs)"

definition is_space :: "char \<Rightarrow> bool" where
  "is_space c \<longleftrightarrow> of_char c \<in> {32, 9, 10, 11, 12, 13 :: int}"

definition starts_hex :: "string \<Rightarrow> bool" where
  "starts_hex s \<longleftrightarrow> s \<noteq> [] \<and> hex_digit (hd s) \<noteq> None"

definition stoul16 :: "string \<Rightarrow> 64 word option" where
  "stoul16 str =
    (let s1 = dropWhile is_space str;
         neg = (take 1 s1 = ''-'');
         s2 = (if take 1 s1 \<in> {''-'', ''+''} then tl s1 else s1);
         s3 = (if take 2 s2 \<in> {''0x'', ''0X''} \<and> starts_hex (drop 2 s2) then drop 2 s2 else s2)
     in if starts_hex s3
        then let v = hex_value 0 s3
             in if 2 ^ 64 \<le> v then None else Some (if neg then - of_int v else of_int v)
        else None)"

datatype DecoderExit = Usage | Thrown | Printed string

definition crfdecoder_main :: "string list \<Rightarrow> DecoderExit" where
  "crfdecoder_main argv =
    (if length argv \<noteq> 2 then Usage
     else case stoul16 (argv ! 1) of
            None \<Rightarrow> Thrown
          | Some v \<Rightarrow> Printed (to_str (from_int cmd_default (ucast v))))"

section \<open>Hazards counted\<close>

text \<open>The number of hazards an operation causes with the next one, as a function of the position.\<close>

definition hazard_at :: "PimCommand list \<Rightarrow> nat \<Rightarrow> int" where
  "hazard_at cmds i =
    (if get_hazard_table_idx (cmd_type (cmds ! i)) = -1 then 0
     else let (nxt, nop) = find_next_op cmds (i + 1) 0
          in if nxt = 0 \<or> 4 \<le> nop then 0
             else (if detect_structural_hazard (cmds ! i) (cmds ! nxt) nop = Some 0 then 0 else 1)
                  + (if detect_data_hazard cmds i nxt nop = Some 0 then 0 else 1))"

lemma hazard_idx_nonneg: "get_hazard_table_idx t \<noteq> -1 \<Longrightarrow> 0 \<le> get_hazard_table_idx t"
  by (cases t) auto

lemma find_next_op_cases:
  assumes "find_next_op cmds i n = (nxt, m)" and "0 < i"
  shows "(nxt = 0 \<and> (\<forall>k. i \<le> k \<and> k < length cmds \<longrightarrow> get_hazard_table_idx (cmd_type (cmds ! k)) = -1))
    \<or> (i \<le> nxt \<and> nxt < length cmds \<and> get_hazard_table_idx (cmd_type (cmds ! nxt)) \<noteq> -1
        \<and> (\<forall>k. i \<le> k \<and> k < nxt \<longrightarrow> get_hazard_table_idx (cmd_type (cmds ! k)) = -1))"
  using assms
proof (induction cmds i n arbitrary: nxt m rule: find_next_op.induct)
  case (1 cmds i n)
  let ?op = "\<lambda>k. get_hazard_table_idx (cmd_type (cmds ! k))"
  show ?case
  proof (cases "i < length cmds \<and> ?op i = -1")
    case True
    then have "find_next_op cmds (i + 1) (if cmd_type (cmds ! i) = NOP then n + loop_counter (cmds ! i) + 1 else n) = (nxt, m)"
      using "1.prems" by (simp add: find_next_op.simps [of cmds i] Let_def)
    from "1.IH" [OF _ refl _ this] True
    have *: "(nxt = 0 \<and> (\<forall>k. i + 1 \<le> k \<and> k < length cmds \<longrightarrow> ?op k = -1))
      \<or> (i + 1 \<le> nxt \<and> nxt < length cmds \<and> ?op nxt \<noteq> -1 \<and> (\<forall>k. i + 1 \<le> k \<and> k < nxt \<longrightarrow> ?op k = -1))"
      by simp
    have split_at: "i \<le> k \<longleftrightarrow> k = i \<or> i + 1 \<le> k" for k
      by auto
    show ?thesis
      using * True unfolding split_at by blast
  next
    case False
    then show ?thesis
      using "1.prems" by (auto simp: find_next_op.simps [of cmds i] Let_def split: if_splits)
  qed
qed

lemma detect_structural_hazard_Some:
  assumes "get_hazard_table_idx (cmd_type c) \<noteq> -1" "get_hazard_table_idx (cmd_type d) \<noteq> -1"
  shows "\<exists>s. detect_structural_hazard c d n = Some s"
  using assms [THEN hazard_idx_nonneg] by (auto simp: detect_structural_hazard_def Let_def)

lemma detect_data_hazard_Some:
  assumes "get_hazard_table_idx (cmd_type (cmds ! i)) \<noteq> -1"
  shows "\<exists>d. detect_data_hazard cmds i j n = Some d"
  using hazard_idx_nonneg [OF assms] by (auto simp: detect_data_hazard_def Let_def)

lemma hazard_at_zero: "get_hazard_table_idx (cmd_type (cmds ! i)) = -1 \<Longrightarrow> hazard_at cmds i = 0"
  by (simp add: hazard_at_def)

lemma sum_hazards_skip:
  assumes "i \<le> j" and "j \<le> length cmds" and "\<And>k. i \<le> k \<Longrightarrow> k < j \<Longrightarrow> hazard_at cmds k = 0"
  shows "sum (hazard_at cmds) {i..<length cmds} = sum (hazard_at cmds) {j..<length cmds}"
proof -
  have "sum (hazard_at cmds) {i..<length cmds} = sum (hazard_at cmds) {i..<j} + sum (hazard_at cmds) {j..<length cmds}"
    using assms(1,2) by (simp add: sum.atLeastLessThan_concat)
  then show ?thesis
    using assms(3) by simp
qed

text \<open>No operation lies between an operation and the next one found, so no hazard does either.\<close>

lemma sum_hazards_next:
  assumes "find_next_op cmds (i + 1) 0 = (nxt, nop)" and "i < length cmds"
  shows "nxt = 0 \<Longrightarrow> sum (hazard_at cmds) {i..<length cmds} = hazard_at cmds i"
    and "nxt \<noteq> 0 \<Longrightarrow> i < nxt \<and> sum (hazard_at cmds) {i..<length cmds} = hazard_at cmds i + sum (hazard_at cmds) {nxt..<length cmds}"
proof -
  note nx = find_next_op_cases [OF assms(1), simplified]
  have first: "sum (hazard_at cmds) {i..<length cmds} = hazard_at cmds i + sum (hazard_at cmds) {Suc i..<length cmds}"
    using assms(2) by (simp add: sum.atLeast_Suc_lessThan)
  show "sum (hazard_at cmds) {i..<length cmds} = hazard_at cmds i" if "nxt = 0"
  proof -
    have "sum (hazard_at cmds) {Suc i..<length cmds} = sum (hazard_at cmds) {length cmds..<length cmds}"
      using assms(2) nx \<open>nxt = 0\<close> by (intro sum_hazards_skip hazard_at_zero) auto
    then show ?thesis using first by simp
  qed
  show "i < nxt \<and> sum (hazard_at cmds) {i..<length cmds} = hazard_at cmds i + sum (hazard_at cmds) {nxt..<length cmds}"
    if "nxt \<noteq> 0"
  proof -
    have "sum (hazard_at cmds) {Suc i..<length cmds} = sum (hazard_at cmds) {nxt..<length cmds}"
      using nx \<open>nxt \<noteq> 0\<close> by (intro sum_hazards_skip hazard_at_zero) auto
    then show ?thesis using first nx \<open>nxt \<noteq> 0\<close> by auto
  qed
qed

lemma hazard_loop_op:
  assumes "find_next_op cmds (i + 1) 0 = (nxt, nop)" and "i < length cmds"
    and "get_hazard_table_idx (cmd_type (cmds ! i)) \<noteq> -1"
  shows "nxt = 0 \<Longrightarrow> hazard_loop cmds i n = Some (n + hazard_at cmds i)"
    and "nxt \<noteq> 0 \<Longrightarrow> 4 \<le> nop \<Longrightarrow> hazard_loop cmds i n = hazard_loop cmds (max (i + 1) nxt) (n + hazard_at cmds i)"
    and "nxt \<noteq> 0 \<Longrightarrow> \<not> 4 \<le> nop \<Longrightarrow> hazard_loop cmds i n = hazard_loop cmds (i + 1) (n + hazard_at cmds i)"
proof -
  have unf: "hazard_loop cmds i n =
     (if nxt = 0 then Some n
      else if 4 \<le> nop then hazard_loop cmds (max (i + 1) nxt) n
      else case (detect_structural_hazard (cmds ! i) (cmds ! nxt) nop, detect_data_hazard cmds i nxt nop) of
             (Some s, Some d) \<Rightarrow> hazard_loop cmds (i + 1) (n + (if s \<noteq> 0 then 1 else 0) + (if d \<noteq> 0 then 1 else 0))
           | _ \<Rightarrow> None)"
    using assms by (subst hazard_loop.simps) simp
  show "nxt = 0 \<Longrightarrow> hazard_loop cmds i n = Some (n + hazard_at cmds i)"
    and "nxt \<noteq> 0 \<Longrightarrow> 4 \<le> nop \<Longrightarrow> hazard_loop cmds i n = hazard_loop cmds (max (i + 1) nxt) (n + hazard_at cmds i)"
    using unf assms by (simp_all add: hazard_at_def)
  show "hazard_loop cmds i n = hazard_loop cmds (i + 1) (n + hazard_at cmds i)" if "nxt \<noteq> 0" "\<not> 4 \<le> nop"
  proof -
    have "get_hazard_table_idx (cmd_type (cmds ! nxt)) \<noteq> -1"
      using find_next_op_cases [OF assms(1)] \<open>nxt \<noteq> 0\<close> by auto
    then obtain s d where "detect_structural_hazard (cmds ! i) (cmds ! nxt) nop = Some s"
      "detect_data_hazard cmds i nxt nop = Some d"
      using assms(3) detect_structural_hazard_Some detect_data_hazard_Some by metis
    then show ?thesis
      using unf that assms by (simp add: hazard_at_def add.assoc)
  qed
qed

lemma hazard_loop_counts:
  "hazard_loop cmds i n = Some (n + sum (hazard_at cmds) {i..<length cmds})"
proof (induction "length cmds - i" arbitrary: i n rule: less_induct)
  case less
  consider (out) "length cmds \<le> i" | (noop) "i < length cmds" "get_hazard_table_idx (cmd_type (cmds ! i)) = -1"
    | (op) "i < length cmds" "get_hazard_table_idx (cmd_type (cmds ! i)) \<noteq> -1"
    by linarith
  then show ?case
  proof cases
    case out
    then show ?thesis by (simp add: hazard_loop.simps [of cmds i])
  next
    case noop
    then show ?thesis
      using less [of "i + 1" n] by (simp add: hazard_loop.simps [of cmds i] sum.atLeast_Suc_lessThan hazard_at_zero)
  next
    case op
    obtain nxt nop where fn: "find_next_op cmds (i + 1) 0 = (nxt, nop)"
      by fastforce
    note loop = hazard_loop_op [OF fn op] and rest = sum_hazards_next [OF fn op(1)]
    consider "nxt = 0" | "nxt \<noteq> 0" "4 \<le> nop" | "nxt \<noteq> 0" "\<not> 4 \<le> nop"
      by blast
    then show ?thesis
      using loop rest op less [of "max (i + 1) nxt"] less [of "i + 1"]
      by cases (auto simp: max_def sum.atLeast_Suc_lessThan)
  qed
qed

section \<open>Verdicts\<close>

lemma check_validate_pair_bin: "check_validate_pair c = Some r \<Longrightarrow> r = 0 \<or> r = 1"
  by (auto simp: check_validate_pair_def split: if_splits)

lemma check_cmd_validation_bin: "check_cmd_validation cmds = Some r \<Longrightarrow> r = 0 \<or> r = 1"
  by (induction cmds rule: check_cmd_validation.induct)
     (auto split: option.splits if_splits dest: check_validate_pair_bin)

lemma check_isa_restriction_bin: "check_isa_restriction cmds = Some r \<Longrightarrow> r = 0 \<or> r = 1"
  by (auto simp: check_isa_restriction_def split: if_splits)

lemma bin_and: "(1::int) AND n = n mod 2" "(0::int) AND n = 0"
  by (simp_all add: and.commute [of 1] and_one_eq)

definition jumps_in_range :: "PimCommand list \<Rightarrow> bool" where
  "jumps_in_range cmds \<longleftrightarrow>
     (\<forall>i<length cmds. cmd_type (cmds ! i) = JUMP \<longrightarrow> int i - loop_offset (cmds ! i) + 1 < int (length cmds))"

definition bank_or_register :: "PimOpdType \<Rightarrow> bool" where
  "bank_or_register t \<longleftrightarrow> t \<noteq> A_OUT \<and> t \<noteq> M_OUT"

definition operands_ok :: "PimCommand \<Rightarrow> bool" where
  "operands_ok c \<longleftrightarrow> change_cmd_type (cmd_type c) = CP_ETC \<or> bank_or_register (src0 c) \<and> bank_or_register (src1 c)"

lemma opd_idx_bound: "bank_or_register t \<Longrightarrow> opd_pair_idx (change_opd_type t) < 6"
  by (cases t) (auto simp: bank_or_register_def)

lemma check_validate_pair_Some: "operands_ok c \<Longrightarrow> \<exists>r. check_validate_pair c = Some r"
  by (cases "change_cmd_type (cmd_type c)")
     (auto simp: operands_ok_def check_validate_pair_def pair_entry_def opd_idx_bound)

lemma check_cmd_validation_Some:
  "(\<forall>c\<in>set cmds. operands_ok c) \<Longrightarrow> \<exists>r. check_cmd_validation cmds = Some r"
  by (induction cmds rule: check_cmd_validation.induct) (auto dest!: check_validate_pair_Some)

lemma isa_round_Some:
  "jumps_in_range cmds \<Longrightarrow> i < length cmds \<Longrightarrow> \<exists>v. isa_round cmds i = Some v"
  by (auto simp: isa_round_def isa_jump_def jumps_in_range_def arr_get_def Let_def)

lemma isa_loop_Some:
  "jumps_in_range cmds \<Longrightarrow> (\<forall>i\<in>set is. i < length cmds) \<Longrightarrow> \<exists>v. isa_loop cmds is ok = Some v"
  by (induction cmds "is" ok rule: isa_loop.induct) (use isa_round_Some in \<open>fastforce split: option.split\<close>)+

section \<open>Properties\<close>

text \<open>C34: \<open>check_hazard\<close> always returns, and its result is the number of structural and data hazards
  each operation causes with the next operation fewer than four idle cycles away, summed over the
  program: jumping ahead over a long pause and leaving the loop at the last operation skip nothing.
\<close>

theorem check_hazard_counts:
  "check_hazard cmds = Some (\<Sum>i<length cmds. hazard_at cmds i)"
  by (simp add: check_hazard_def hazard_loop_counts atLeast0LessThan)

text \<open>C35: \<open>validation_check\<close> accepts a program exactly when every command is valid, no ISA restriction
  is broken and the number of hazards is odd: the hazard count is combined as if it were a verdict,
  so a program without hazards is always refused.
\<close>

theorem validation_accepts_iff:
  "validation_check cmds = Some 1 \<longleftrightarrow>
     check_cmd_validation cmds = Some 1 \<and> check_isa_restriction cmds = Some 1
     \<and> odd (\<Sum>i<length cmds. hazard_at cmds i)"
proof -
  let ?h = "\<Sum>i<length cmds. hazard_at cmds i"
  have h: "check_hazard cmds = Some ?h"
    by (simp add: check_hazard_def hazard_loop_counts atLeast0LessThan)
  show ?thesis
  proof (cases "\<exists>a b. check_cmd_validation cmds = Some a \<and> check_isa_restriction cmds = Some b")
    case True
    then obtain a b where ab: "check_cmd_validation cmds = Some a" "check_isa_restriction cmds = Some b"
      by blast
    then show ?thesis
      using h check_cmd_validation_bin [OF ab(1)] check_isa_restriction_bin [OF ab(2)]
      by (auto simp: validation_check_def bin_and odd_iff_mod_2_eq_one)
  next
    case False
    then show ?thesis
      by (auto simp: validation_check_def split: Option.bind_splits)
  qed
qed

text \<open>on a non-empty program whose arithmetic commands name banks or registers as sources and whose
  jumps do not point past the end, the checker stays inside its tables and the program and returns
  0 or 1.
\<close>

theorem validation_check_total:
  assumes "cmds \<noteq> []" and "\<forall>c\<in>set cmds. operands_ok c" and "jumps_in_range cmds"
  shows "\<exists>r\<in>{0, 1}. validation_check cmds = Some r"
proof -
  obtain a where a: "check_cmd_validation cmds = Some a"
    using check_cmd_validation_Some assms(2) by blast
  obtain v where "isa_loop cmds [0..<length cmds] (cmd_type (cmds ! 0) \<noteq> NOP) = Some v"
    using isa_loop_Some [OF assms(3)] by fastforce
  then have b: "check_isa_restriction cmds = Some (if v then 1 else 0)"
    using assms(1) by (simp add: check_isa_restriction_def)
  obtain h where "check_hazard cmds = Some h"
    by (simp add: check_hazard_def hazard_loop_counts)
  then show ?thesis
    using a b check_cmd_validation_bin [OF a] by (auto simp: validation_check_def bin_and)
qed

text \<open>C36: what \<open>ConvertToBinary\<close> reports with a non-zero result is a program in the buffer that decodes
  to the commands given, with the rest of the buffer unchanged; with result 0 the buffer is unchanged.
\<close>

theorem ConvertToBinary_decodes:
  assumes "ConvertToBinary cmds buf = Some (ret, out)"
  shows "length out = length buf \<and> drop (length cmds) out = drop (length cmds) buf
     \<and> (if ret = 0 then out = buf
        else map (from_int cmd_default) (take (length cmds) out) = map canonical cmds)"
  using assms
  by (auto simp: ConvertToBinary_def convert_to_binary_def decode_encode o_def split: option.splits if_splits)

text \<open>
  A program the converter accepts: the second \<open>ADD\<close> reads the result of the first one cycle too
  early, which is one hazard.
\<close>

definition hazard_prog :: "PimCommand list" where
  "hazard_prog = [cmd_alu2 ADD GRF_A GRF_A EVEN_BANK 1 0 0 0, cmd_ctrl NOP 0,
     cmd_alu2 ADD GRF_B GRF_A EVEN_BANK 1 0 0 0, cmd_ctrl EXIT 0]"

lemmas isa_eval =
  validation_check_def check_isa_restriction_def check_hazard_def hazard_loop.simps find_next_op.simps
  detect_structural_hazard_def detect_data_hazard_def check_validate_pair_def pair_entry_def isa_round_def
  isa_nop_def isa_jump_def next_is_def is_read_register_def same_reg_def same_reg_idx_def
  src_pair_table_def data_hazard_table_def structual_hazard_table_def cmd_ctor_defs

lemma hazard_prog_parts:
  "check_cmd_validation hazard_prog = Some 1" "check_isa_restriction hazard_prog = Some 1"
  "check_hazard hazard_prog = Some 1"
  by (simp_all add: isa_eval hazard_prog_def upt_rec numeral_2_eq_2 numeral_3_eq_3)

lemma hazard_prog_accepted: "validation_check hazard_prog = Some 1"
  by (simp add: validation_check_def hazard_prog_parts bin_and)

theorem ConvertToBinary_decodes_witness:
  "map (from_int cmd_default) (take 4 (map to_int hazard_prog @ [9])) = map canonical hazard_prog"
proof -
  have "length hazard_prog = 4"
    by (simp add: hazard_prog_def)
  then have "ConvertToBinary hazard_prog [0, 0, 0, 0, 9] = Some (1, map to_int hazard_prog @ [9])"
    by (simp add: ConvertToBinary_def hazard_prog_accepted convert_to_binary_def)
  from ConvertToBinary_decodes [OF this] show ?thesis
    using \<open>length hazard_prog = 4\<close> by simp
qed

theorem validation_check_total_witness:
  "\<exists>r\<in>{0, 1}. validation_check hazard_prog = Some r"
  by (rule validation_check_total)
     (auto simp: hazard_prog_def operands_ok_def bank_or_register_def jumps_in_range_def cmd_ctor_defs
       less_Suc_eq numeral_nat)

definition two_long_nops :: "PimCommand list" where
  "two_long_nops = [cmd_move FILL GRF_A EVEN_BANK 1 0 0 0 0, cmd_move FILL GRF_B EVEN_BANK 1 0 0 0 0,
     cmd_ctrl NOP 3, cmd_ctrl NOP 3, cmd_ctrl EXIT 0]"

text \<open>two consecutive multi-cycle \<open>NOP\<close>s pass the ISA check, because the second counter is read from
  command 1 instead of the following command.
\<close>

theorem two_long_nops_accepted:
  "check_isa_restriction two_long_nops = Some 1
   \<and> cmd_type (two_long_nops ! 2) = NOP \<and> 0 < loop_counter (two_long_nops ! 2)
   \<and> cmd_type (two_long_nops ! 3) = NOP \<and> 0 < loop_counter (two_long_nops ! 3)"
  by (simp add: check_isa_restriction_def two_long_nops_def isa_round_def isa_nop_def next_is_def
      upt_rec cmd_move_def cmd_ctrl_def)

end
