(* ===== verification/ProgramCheck.thy ===== *)
theory ProgramCheck
  imports CrfBin IsaCheck
begin

text \<open>
  The programs of the runtime's generator (\<open>PimCrfBinGen.cpp\<close>) under the offline code generator's
  checker (\<open>PimValidationChecker.cpp\<close>): both describe the same command set. Every generated command is
  well typed, that is, its operand combination is in the checker's table and the encoding keeps it, but
  every generated program breaks the checker's rules on the order of pauses and jumps.
\<close>

section \<open>The generated programs, spelled out\<close>

text \<open>The loop counters for which every counter of the program fits its field.\<close>

definition counter_ok :: "CrfGen \<Rightarrow> PimOpType \<Rightarrow> int \<Rightarrow> bool" where
  "counter_ok g op lc \<longleftrightarrow>
     (if op = OP_GEMV \<and> \<not> is_gemv_tile_tree g then 2 \<le> lc \<and> lc < 2 ^ 14 else 0 \<le> lc \<and> lc < 2 ^ 17)"

lemma half_ceil_exact:
  assumes "0 \<le> lc" "lc \<le> 2 ^ 24"
  shows "half_ceil lc = (lc + 1) div 2"
proof -
  have n: "nat lc \<le> 2 ^ 24" using assms by simp
  have "half_ceil lc = int ((nat lc + 1) div 2)"
    using assms(1) n by (simp add: half_ceil_def fl_nat_exact fl_div_ceil_exact ceil_div_def)
  also have "\<dots> = (lc + 1) div 2" using assms(1) by (simp add: zdiv_int)
  finally show ?thesis .
qed

text \<open>The two counters of the accumulating matrix-vector program: even and odd groups of 8 steps.\<close>

lemma gemv_accum_cmds_eq:
  assumes "0 \<le> lc" "lc < 2 ^ 24"
  shows "gemv_accum_cmds lc =
    [cmd_alu2 MAC GRF_B GRF_A EVEN_BANK 1 0 0 0, cmd_jump JUMP (8 * ((lc + 1) div 2) - 1) 2,
     cmd_alu2 MAC GRF_B GRF_A ODD_BANK 1 0 0 0, cmd_jump JUMP (8 * (lc div 2) - 1) 2, cmd_ctrl NOP 23]"
proof -
  have "0 \<le> (lc + 1) div 2" "(lc + 1) div 2 \<le> 2 ^ 23" "0 \<le> lc div 2" "lc div 2 \<le> 2 ^ 23" using assms by auto
  then have "i32 (8 * ((lc + 1) div 2) - 1) = 8 * ((lc + 1) div 2) - 1" "i32 (8 * (lc div 2) - 1) = 8 * (lc div 2) - 1"
    by (simp_all add: i32_id i32_range_def)
  then show ?thesis using assms by (simp add: gemv_accum_cmds_def half_ceil_exact cdiv_nonneg)
qed

lemma program_gemv_accum:
  assumes "\<not> is_gemv_tile_tree g" "0 \<le> lc" "lc < 2 ^ 24"
  shows "cmds (create_pim_cmd OP_GEMV lc g) =
    [cmd_alu2 MAC GRF_B GRF_A EVEN_BANK 1 0 0 0, cmd_jump JUMP (8 * ((lc + 1) div 2) - 1) 2,
     cmd_alu2 MAC GRF_B GRF_A ODD_BANK 1 0 0 0, cmd_jump JUMP (8 * (lc div 2) - 1) 2, cmd_ctrl NOP 23,
     cmd_ctrl EXIT 0, cmd_ctrl NOP 0, cmd_ctrl NOP 0]"
  using assms(1) by (simp add: create_pim_cmd_def base_cmds_def Let_def gemv_accum_cmds_eq [OF assms(2,3)] numeral_2_eq_2)

section \<open>Well-typed commands\<close>

text \<open>
  A command is well typed when the checker's table allows its operands and no field is cut by the
  encoding; a \<open>FILL\<close> has no bit for \<open>is_auto\<close>.
\<close>

definition well_typed :: "PimCommand \<Rightarrow> bool" where
  "well_typed c \<longleftrightarrow> check_validate_pair c = Some 1
     \<and> canonical c = (if cmd_type c = FILL then c\<lparr>is_auto := 0\<rparr> else c)"

lemmas typing_defs = well_typed_def check_validate_pair_def pair_entry_def canonical_def cmd_ctor_defs

lemma well_typed_ctrl [simp]:
  "well_typed (cmd_ctrl EXIT 0)" "0 \<le> n \<Longrightarrow> n < 2 ^ 11 \<Longrightarrow> well_typed (cmd_ctrl NOP n)"
  by (simp_all add: typing_defs Let_def)

lemma well_typed_jump [simp]:
  "0 \<le> n \<Longrightarrow> n < 2 ^ 17 \<Longrightarrow> 0 \<le> off \<Longrightarrow> off < 2 ^ 11 \<Longrightarrow> well_typed (cmd_jump JUMP n off)"
  by (simp add: typing_defs Let_def)

lemma base_cmds_typed:
  assumes "known_op op" "counter_ok g op lc"
  shows "\<forall>c \<in> set (base_cmds g op lc). well_typed c"
proof (cases "op = OP_GEMV \<and> \<not> is_gemv_tile_tree g")
  case True
  then have "2 \<le> lc" "lc < 2 ^ 14" using assms(2) by (simp_all add: counter_ok_def)
  moreover have "well_typed (cmd_alu2 MAC GRF_B GRF_A b 1 0 0 0)" if "b \<in> {EVEN_BANK, ODD_BANK}" for b
    using that by (auto simp: typing_defs src_pair_table_def Let_def)
  ultimately show ?thesis
    using True by (simp add: base_cmds_def gemv_accum_cmds_eq)
next
  case False
  then show ?thesis using assms(1)
    by (cases op) (simp_all add: base_cmds_def known_op_def elt_cmds_def fill_cmds_def gemv_tree_cmds_def bn_cmds_def
        typing_defs src_pair_table_def Let_def)
qed

lemma program_typed:
  assumes "known_op op" "counter_ok g op lc"
  shows "\<forall>c \<in> set (cmds (create_pim_cmd op lc g)). well_typed c"
proof -
  have "length (base_cmds g op lc) \<le> 8" using base_cmds_length [OF assms(1), of g lc] by auto
  then have "well_typed (cmd_jump JUMP lc (int (length (base_cmds g op lc)) + 1))"
    if "op = OP_GEMV \<Longrightarrow> is_gemv_tile_tree g"
    using that assms(2) by (intro well_typed_jump) (auto simp: counter_ok_def split: if_splits)
  then show ?thesis
    using base_cmds_typed [OF assms] by (auto simp: create_pim_cmd_def Let_def)
qed

text \<open>C25: every command of a generated program is well typed: its combination of operands is in the
  offline checker's table, and every field survives the encoding, except the automatic increment of a
  \<open>FILL\<close>, for which the binary form has no bit.
\<close>

theorem generated_commands_typed:
  assumes "known_op op" "counter_ok g op lc"
  shows "\<forall>c \<in> set (cmds (create_pim_cmd op lc g)). well_typed c"
  using program_typed [OF assms] .

lemma generated_commands_typed_witness:
  "list_all well_typed (cmds (create_pim_cmd OP_GEMV 16 (crf_gen_init\<lparr>is_gemv_tile_tree := False\<rparr>)))"
  using generated_commands_typed [of OP_GEMV "crf_gen_init\<lparr>is_gemv_tile_tree := False\<rparr>" 16]
  by (simp add: known_op_def counter_ok_def list_all_iff)

section \<open>The checker's verdict\<close>

lemma isa_loop_False: "isa_loop p is False = Some v \<Longrightarrow> \<not> v"
  by (induction "is") (auto split: option.splits)

lemma isa_loop_violation:
  "isa_loop p is ok = Some v \<Longrightarrow> i \<in> set is \<Longrightarrow> isa_round p i = Some False \<Longrightarrow> \<not> v"
proof (induction "is" arbitrary: ok)
  case (Cons j "is")
  then obtain w where w: "isa_round p j = Some w" "isa_loop p is (ok \<and> w) = Some v"
    by (auto split: option.splits)
  show ?case
  proof (cases "i = j")
    case True
    then show ?thesis using w Cons.prems(3) isa_loop_False [of p "is" v] by simp
  next
    case False
    then show ?thesis using w Cons.IH [OF w(2)] Cons.prems(2,3) by simp
  qed
qed simp

lemma isa_violation:
  assumes "jumps_in_range p" "i < length p" "isa_round p i = Some False"
  shows "check_isa_restriction p = Some 0"
proof -
  obtain v where v: "isa_loop p [0..<length p] (cmd_type (p ! 0) \<noteq> NOP) = Some v"
    using isa_loop_Some [OF assms(1)] by fastforce
  then have "\<not> v" using isa_loop_violation [OF v _ assms(3)] assms(2) by simp
  then show ?thesis using v assms(2) by (auto simp: check_isa_restriction_def)
qed


text \<open>The command at which each program breaks a rule.\<close>

definition violation_at :: "CrfGen \<Rightarrow> PimOpType \<Rightarrow> nat" where
  "violation_at g op =
     (case op of OP_GEMV \<Rightarrow> (if is_gemv_tile_tree g then 1 else 3) | _ \<Rightarrow> length (base_cmds g op 0) - 1)"

lemma program_violation:
  assumes "known_op op" "p = cmds (create_pim_cmd op lc g)" "i = violation_at g op"
  shows "i < length p" "isa_round p i = Some False"
  using assms by (cases op; simp add: known_op_def violation_at_def create_pim_cmd_def base_cmds_def Let_def
    cmd_list_defs isa_round_def isa_nop_def isa_jump_def next_is_def nth_append arr_get_def cmd_ctrl_def cmd_jump_def
    cmd_alu2_def cmd_alu3_def cmd_move_def)+

lemma valid_commands: "\<forall>c \<in> set p. check_validate_pair c = Some 1 \<Longrightarrow> check_cmd_validation p = Some 1"
  by (induction p rule: check_cmd_validation.induct) auto

lemma program_jumps:
  assumes "known_op op"
  shows "jumps_in_range (cmds (create_pim_cmd op lc g))"
proof -
  have "loop_offset c \<ge> 2 \<or> cmd_type c \<noteq> JUMP" if "c \<in> set (cmds (create_pim_cmd op lc g))" for c
    using that assms by (cases op) (auto simp: create_pim_cmd_def base_cmds_def known_op_def Let_def cmd_list_defs cmd_ctor_defs split: if_splits)
  then show ?thesis using nth_mem by (fastforce simp: jumps_in_range_def)
qed

text \<open>C26: no program the runtime generates passes the offline checker: element-wise, activation and
  normalisation programs jump right after a pause of several cycles, and the matrix-vector programs
  pause right after a jump. The converter would leave its output buffer untouched.
\<close>

theorem generated_programs_refused:
  assumes "known_op op" "p = cmds (create_pim_cmd op lc g)" "counter_ok g op lc"
  shows "check_isa_restriction p = Some 0 \<and> ConvertToBinary p buf = Some (0, buf)"
proof -
  have "check_isa_restriction p = Some 0"
    using isa_violation program_jumps [OF assms(1)] program_violation [OF assms(1) assms(2) refl] assms(2) by blast
  then show ?thesis
    using valid_commands [of p] program_typed [OF assms(1,3)] assms(2)
    by (simp add: well_typed_def ConvertToBinary_def validation_check_def check_hazard_def hazard_loop_counts)
qed

lemma generated_programs_refused_witness:
  "ConvertToBinary (cmds (create_pim_cmd OP_RELU 1 crf_gen_init)) [7, 8] = Some (0, [7, 8])"
  using generated_programs_refused [OF _ refl, of OP_RELU crf_gen_init 1 "[7, 8]"]
  by (simp add: known_op_def counter_ok_def)

end
