(* ===== verification/ExecProps.thy ===== *)
theory ExecProps
  imports PimExec RuntimeProps ObjectStore ProgramCheck
begin

text \<open>
  Properties of the executors under the C API: the invariant of the library for the modelled executors,
  what a matrix product does to the buffer objects, and how the launch parameters and the programs
  agree.
\<close>

section \<open>The executors keep the invariant of the library\<close>

lemma member_lib:
  "hip_member f s = Some (ret, s') \<Longrightarrow> lib s' = lib s"
  "ocl_member g t = Some (ret, t') \<Longrightarrow> lib t' = lib t"
  by (simp_all add: hip_member_def ocl_member_def run_exec_lib)

lemma transpose_lib: "transpose_bos ps s = Some s' \<Longrightarrow> lib s' = lib s"
  by (induction ps arbitrary: s) (auto simp: bind_eq_Some_conv split: if_splits)

lemma transpose_for_lib: "transpose_for order ps s = Some s' \<Longrightarrow> lib s' = lib s"
  by (auto simp: transpose_for_def transpose_lib split: if_splits)

lemma pim_weight_grows: "pim_weight E wei order s = Some (p, s') \<Longrightarrow> grows (lib s) (lib s')"
  by (auto simp: pim_weight_def bind_eq_Some_conv split: if_splits dest: preloaded_grows)

lemma gemv_lib:
  "hip_execute_custom_gemv E R out vec mat accum stream s = Some (ret, s') \<Longrightarrow> lib s' = lib s"
  "hip_execute_gemv E R out inp wei bias act stream s = Some (ret, s') \<Longrightarrow> lib s' = lib s"
proof -
  show custom: "lib s' = lib s" if "hip_execute_custom_gemv E R out vec mat accum stream s = Some (ret, s')"
    for out vec mat accum
    using that
    by (auto simp: hip_execute_custom_gemv_def bind_eq_Some_conv split: if_splits dest!: member_lib libs pm_type)
  show "hip_execute_gemv E R out inp wei bias act stream s = Some (ret, s') \<Longrightarrow> lib s' = lib s"
    by (auto simp: hip_execute_gemv_def bind_eq_Some_conv split: if_splits dest!: member_lib custom)
qed

lemma gemm_on_pim_grows:
  "hip_gemm_on_pim E R order out inp wei bias act stream block s = Some (ret, s') \<Longrightarrow> grows (lib s) (lib s')"
  "ocl_gemm_on_pim F C order out inp wei bias act t = Some (ret, t') \<Longrightarrow> grows (lib t) (lib t')"
  by (auto simp: hip_gemm_on_pim_def ocl_gemm_on_pim_def bind_eq_Some_conv
      dest!: member_lib transpose_for_lib pim_weight_grows)

lemma execute_gemm_grows:
  "hip_execute_gemm E R this out inp wei bias act stream block s = Some (ret, s') \<Longrightarrow> grows (lib s) (lib s')"
  "ocl_execute_gemm F C that out inp wei bias act stream block t = Some (ret, t') \<Longrightarrow> grows (lib t) (lib t')"
  subgoal
    by (cases "he_kernel_type this")
      (auto simp: hip_execute_gemm_def bind_eq_Some_conv split: if_splits dest: gemm_on_pim_grows gemv_lib)
  subgoal
    by (cases "oe_kernel_type that")
      (auto simp: ocl_execute_gemm_def bind_eq_Some_conv split: if_splits dest: gemm_on_pim_grows)
  done

lemma executors_keep: "gemm_keeps (pim_execute_gemm E R C)"
  unfolding gemm_keeps_def
proof (intro allI impI)
  fix out inp wei bias act stream block s ret s'
  assume "pim_execute_gemm E R C out inp wei bias act stream block s = Some (ret, s')"
  then obtain rt where "pim_runtime s = Some rt" and "(case rt_executor rt of
        Inl this \<Rightarrow> hip_execute_gemm E R this out inp wei bias act stream block s
      | Inr this \<Rightarrow> ocl_execute_gemm E C this out inp wei bias act stream block s) = Some (ret, s')"
    by (auto simp: pim_execute_gemm_def bind_eq_Some_conv)
  then show "grows (lib s) (lib s')" by (cases "rt_executor rt") (simp_all add: execute_gemm_grows)
qed

text \<open>C1: in every state the library reaches by any sequence of calls, with the HIP and the OpenCL executor,
  the flag \<open>pim_initialized\<close> agrees with the runtime pointer, the manager singleton exists whenever the
  runtime does, and the keys of the weight cache are distinct.
\<close>

theorem executors_invariant:
  assumes "pim_reach E (pim_execute_gemm E R C) s"
  shows "lib_inv s"
  by (rule library_invariant [OF executors_keep assms])

section \<open>A concrete library with executors\<close>

text \<open>
  The surrounding code of the instances: the hardware build over the memory of \<open>demo_env\<close>, with kernels
  and host memory that do nothing.
\<close>

definition demo_host :: "demo_state HostMem" where
  "demo_host = \<lparr>hm_new = (\<lambda>n s. (64, s)), hm_delete = (\<lambda>_ s. s), hm_load8 = (\<lambda>_ n _. replicate n 0), hm_store8 = (\<lambda>_ _ s. s),
     hm_load16 = (\<lambda>_ n _. replicate n 0), hm_store16 = (\<lambda>_ _ s. s)\<rparr>"

definition demo_hr :: "demo_state HipRt" where
  "demo_hr = \<lparr>hr_host = demo_host, hr_GetDevice = (\<lambda>s. (0, 0)), hr_SetDevice = (\<lambda>_ s. (0, s)), hr_Malloc = (\<lambda>n s. (96, s)),
     hr_Memset = (\<lambda>_ _ s. s), hr_Free = (\<lambda>_ s. s), hr_MemcpyHtoD = (\<lambda>_ _ _ s. s), hr_StreamCreate = (\<lambda>s. (32, s)),
     hr_StreamSynchronize = (\<lambda>_ s. (0, s)), hr_Launch = (\<lambda>_ _ _ _ s. s), hr_rocblas = (\<lambda>_ _ s. s),
     hr_base_addr = (\<lambda>d s. if d = 0 then Some 4294967296 else None), hr_trace = (\<lambda>_. (0, [])), hr_emu = None,
     hr_srf_fns = (\<lambda>_. (id, \<lambda>_ x. x))\<rparr>"

definition demo_ocr :: "demo_state OclRt" where
  "demo_ocr = \<lparr>cr_host = demo_host, cr_obj = (\<lambda>_ _. None), cr_files = (True, False), cr_build_with_source = (\<lambda>s. (0, s)),
     cr_build_with_binary = (\<lambda>s. (0, s)), cr_save_binary = (\<lambda>s. s), cr_CreateKernel = (\<lambda>_ s. (True, s)),
     cr_FillBuffer = (\<lambda>_ _ s. s), cr_trace_buffers = (\<lambda>s. (True, s)), cr_Launch = (\<lambda>_ _ _ s. (True, s)),
     cr_Finish = (\<lambda>s. (True, s)), cr_base_addr = (\<lambda>_. 0), cr_trace = (\<lambda>_. (0, [])), cr_emu = None,
     cr_srf_fns = (\<lambda>_. (id, \<lambda>_ x. x)), cr_caller_device = (\<lambda>_. 0)\<rparr>"

definition demo_he :: HipExec where
  "demo_he = \<lparr>he_crf_generator = crf_gen_init, he_precision = PIM_FP16, he_gemv_type = TILE_ACCUM, he_kernel_type = PIM,
     he_gemm_order = W_X_I, he_srf_buffer = 0, he_tmp_buffer = 0, he_zero_buffer = 0, he_fmtd32 = []\<rparr>"

definition demo_oe :: OclExec where
  "demo_oe = \<lparr>oe_crf_generator = crf_gen_init, oe_gemv_type = TILE_ACCUM, oe_kernel_type = PIM, oe_gemm_order = I_X_W,
     oe_base_address = 0, oe_srf_buffer = 0, oe_tmp_buffer = 0, oe_zero_buffer = 0, oe_fmtd32 = []\<rparr>"

definition exec_env :: "(demo_state, HipExec + OclExec) Env" where
  "exec_env = \<lparr>env_mem = env_mem demo_env, env_factory = env_factory demo_env,
     env_exec = exec_dispatch True (hip_exec_ops (env_mem demo_env) demo_hr (\<lambda>_. None) demo_he)
                                   (ocl_exec_ops (env_mem demo_env) demo_ocr (\<lambda>_. None) demo_oe),
     env_new = fresh_addr, env_read32 = env_read32 demo_env, env_load16 = env_load16 demo_env, env_store16 = env_store16 demo_env\<rparr>"

lemma tmp_alloc: "heap_alloc (HipBlockAllocator EMULATOR) 16777216 0 (heap_init hip_demo) \<noteq> None"
proof -
  have "get_aligned_bytes 16777216 = 16777216"
    by (simp add: get_aligned_bytes_def align_size_def fl_nat_exact fl_div_ceil_exact ceil_div_def)
  then show ?thesis
    by (simp add: heap_alloc_def HipBlockAllocator_def hip_ba_alloc_def allocate_pim_block_def map_block_def hip_demo_def
        heap_init_def mm_lower_bound_def alloc_block_def frags_at_def Let_def in_table_def MAX_NUM_GPUS_def)
qed

lemma exec_env_initialize: "\<exists>s. PimInitialize exec_env RT_TYPE_HIP PIM_FP16 pim_start = Some (0, s) \<and> pim_initialized s"
proof -
  obtain a h where "heap_alloc (HipBlockAllocator EMULATOR) 16777216 0 (heap_init hip_demo) = Some (a, h)"
    using tmp_alloc by auto
  then show ?thesis
    by (simp add: PimInitialize_def pim_start_def PimRuntime_new_def get_instance_def PimManager_new_def exec_env_def demo_env_def
        getPimMemoryManager_def exec_dispatch_def getPimExecutor_def hip_exec_ops_def on_exec_def hip_ex_initialize_def
        demo_hr_def demo_hip_def hip_alloc_memory_def current_heap_def byte_api_def put_heap_def arr_get_def on_sum2_def
        put_manager_def pm_put_def rt_initialize_def the_manager_def run_exec_def pm_initialize_def dispatch_def HipManager_def Let_def)
qed

lemma executors_invariant_witness:
  "\<exists>s. PimInitialize exec_env RT_TYPE_HIP PIM_FP16 pim_start = Some (0, s) \<and> pim_initialized s \<and> lib_inv s"
proof -
  obtain s where s: "PimInitialize exec_env RT_TYPE_HIP PIM_FP16 pim_start = Some (0, s)" "pim_initialized s"
    using exec_env_initialize by blast
  have "pim_reach exec_env (pim_execute_gemm exec_env demo_hr demo_ocr) s"
    by (rule pim_step [OF pim_reach.pim_start, where c = "Initialize RT_TYPE_HIP PIM_FP16"]) (simp add: s ret_of_def)
  from executors_invariant [OF this] s show ?thesis by blast
qed

section \<open>A matrix product leaves the buffer objects as they were\<close>



definition flip_at :: "addr \<Rightarrow> (addr \<rightharpoonup> PimBo) \<Rightarrow> addr \<rightharpoonup> PimBo" where
  "flip_at p m = (if p = 0 then m else m(p := set_pimbo_t (m p)))"

lemma set_pimbo_t_twice: "set_pimbo_t (set_pimbo_t b) = b"
  by (cases b) (simp_all add: set_pimbo_t_def swap_hw_def)

lemma flip_at_twice: "flip_at p (flip_at p m) = m"
  by (simp add: flip_at_def set_pimbo_t_twice)

lemma flip_at_commute: "flip_at p (flip_at q m) = flip_at q (flip_at p m)"
  by (auto simp: flip_at_def)

lemma fold_flip_commute: "fold flip_at ps (flip_at p m) = flip_at p (fold flip_at ps m)"
  by (induction ps arbitrary: m) (simp, metis flip_at_commute fold_simps(2))

lemma fold_flip_twice: "fold flip_at ps (fold flip_at ps m) = m"
  by (induction ps arbitrary: m) (simp_all add: fold_flip_commute flip_at_twice)

lemma transpose_bos_store:
  "transpose_bos ps s = Some s' \<Longrightarrow> pim_bos s' = fold flip_at ps (pim_bos s) \<and> live_objs s' = live_objs s"
proof (induction ps arbitrary: s)
  case (Cons p ps)
  show ?case
  proof (cases "p = 0")
    case True
    then show ?thesis using Cons by (simp add: flip_at_def)
  next
    case False
    then obtain b where b: "set_pimbo_t (pim_bos s p) = Some b" "transpose_bos ps (put_bo p b s) = Some s'"
      using Cons.prems by (auto simp: bind_eq_Some_conv)
    then obtain a where "pim_bos s p = Some a" by (auto simp: set_pimbo_t_def)
    then have "insert p (live_objs s) = live_objs s" using bos_live by blast
    moreover have "flip_at p (pim_bos s) = (pim_bos s)(p \<mapsto> b)" using b(1) False by (simp add: flip_at_def)
    ultimately show ?thesis using Cons.IH [OF b(2)] by (simp add: fun_upd_def)
  qed
qed simp

text \<open>Exchanging the extents before and after a call that keeps the store: the store is as before, also when operands coincide.\<close>

lemma transpose_around:
  assumes "transpose_for order ps s = Some t" "pim_bos u = pim_bos t" "live_objs u = live_objs t" "transpose_for order ps u = Some v"
  shows "pim_bos v = pim_bos s \<and> live_objs v = live_objs s"
proof (cases "order = W_X_I")
  case True
  then show ?thesis using transpose_bos_store [of ps s t] transpose_bos_store [of ps u v] assms
    by (simp add: transpose_for_def fold_flip_twice)
next
  case False
  then show ?thesis using assms by (simp add: transpose_for_def)
qed

lemma member_store:
  "hip_member f s = Some (ret, s') \<Longrightarrow> pim_bos s' = pim_bos s \<and> live_objs s' = live_objs s"
  "ocl_member g t = Some (ret, t') \<Longrightarrow> pim_bos t' = pim_bos t \<and> live_objs t' = live_objs t"
  by (simp_all add: hip_member_def ocl_member_def run_exec_store)

lemma pim_weight_extends:
  assumes "new_ok (env_new E)" "pim_weight E wei order s = Some (p, s')"
  shows "extends D s s'"
  using assms(2) preloaded_extends [OF assms(1)] by (auto simp: pim_weight_def bind_eq_Some_conv split: if_splits)

lemma gemm_on_pim_extends:
  assumes "new_ok (env_new E)" "hip_gemm_on_pim E R order out inp wei bias act stream block s = Some (ret, s')"
  shows "extends D s s'"
proof -
  obtain pw s1 s2 r s3 w bo b0 bi where st: "pim_weight E wei order s = Some (pw, s1)"
    "transpose_for order [inp, pw, bias, out] s1 = Some s2"
    "hip_member (hip_execute_hip_gemm (env_mem E) R bo b0 w bi act stream block) s2 = Some (r, s3)"
    "transpose_for order [inp, pw, bias, out] s3 = Some s'"
    using assms(2) by (auto simp: hip_gemm_on_pim_def bind_eq_Some_conv)
  have "pim_bos s' = pim_bos s1 \<and> live_objs s' = live_objs s1"
    using transpose_around [OF st(2) _ _ st(4)] member_store(1) [OF st(3)] by blast
  then show ?thesis using extends_trans [OF pim_weight_extends [OF assms(1) st(1)] extends_same] by blast
qed

lemma ocl_gemm_on_pim_extends:
  assumes "new_ok (env_new E)" "ocl_gemm_on_pim E C order out inp wei bias act s = Some (ret, s')"
  shows "extends D s s'"
proof -
  obtain pw s1 bo b0 w bi where st: "pim_weight E wei order s = Some (pw, s1)"
    "ocl_member (ocl_execute_ocl_gemm (env_mem E) C bo b0 w bi act) s1 = Some (ret, s')"
    using assms(2) by (auto simp: ocl_gemm_on_pim_def bind_eq_Some_conv)
  then show ?thesis
    using extends_trans [OF pim_weight_extends [OF assms(1) st(1)] extends_same] member_store(2) [OF st(2)] by blast
qed

lemma custom_gemv_extends:
  assumes "new_ok (env_new E)" "hip_execute_custom_gemv E R out vec mat accum stream s = Some (ret, s')"
  shows "extends D s s'"
proof -
  obtain v m where vm: "pim_bos s vec = Some v" "pim_bos s mat = Some m"
    using assms(2) by (auto simp: hip_execute_custom_gemv_def bind_eq_Some_conv)
  note def = assms(2) [unfolded hip_execute_custom_gemv_def]
  consider "\<not> gemv_supported v m" | "gemv_supported v m" "mem_type m \<noteq> MEM_TYPE_HOST" | "gemv_supported v m" "mem_type m = MEM_TYPE_HOST"
    by blast
  then show ?thesis
  proof cases
    case 1
    then show ?thesis using def vm by simp
  next
    case 2
    then show ?thesis using def vm by (auto simp: bind_eq_Some_conv dest!: member_store(1) intro: extends_same)
  next
    case 3
    then obtain dev s1 bo d pm r s2 r' where st: "create_like E (bshape m) MEM_TYPE_DEVICE s = Some (dev, s1)"
      "hip_member (hip_run_gemv R bo v d accum stream) (put_manager pm s1) = Some (r, s2)" "PimDestroyBo E dev s2 = Some (r', s')"
      using def vm by (auto simp: bind_eq_Some_conv)
    show ?thesis
    proof (rule extendsI)
      assume ok: "store_ok D s"
      have "extends D s1 s2" using member_store(1) [OF st(2)] by (simp add: extends_same)
      note e2 = extends_trans [OF this destroy_extends [OF st(3) create_like_extends(2) [OF assms(1) st(1) ok]]]
      show "extends D s s'" by (rule extends_trans [OF create_like_extends(1) [OF assms(1) st(1)] e2])
    qed
  qed
qed

lemma gemv_extends:
  assumes "new_ok (env_new E)" "hip_execute_gemv E R out inp wei bias act stream s = Some (ret, s')"
  shows "extends D s s'"
  using assms(2)
  by (auto simp: hip_execute_gemv_def bind_eq_Some_conv split: if_splits dest!: member_store(1)
      intro: custom_gemv_extends [OF assms(1)] extends_same)

lemma execute_gemm_extends:
  assumes "new_ok (env_new E)" "pim_execute_gemm E R C out inp wei bias act stream block s = Some (ret, s')"
  shows "extends D s s'"
proof -
  obtain rt where rt: "pim_runtime s = Some rt" by (cases "pim_runtime s") (use assms(2) in \<open>auto simp: pim_execute_gemm_def\<close>)
  show ?thesis
  proof (cases "rt_executor rt")
    case (Inl this)
    then have "hip_execute_gemm E R this out inp wei bias act stream block s = Some (ret, s')"
      using assms(2) rt by (simp add: pim_execute_gemm_def)
    then show ?thesis
      by (cases "he_kernel_type this")
        (auto simp: hip_execute_gemm_def bind_eq_Some_conv split: if_splits
          intro: gemm_on_pim_extends [OF assms(1)] gemv_extends [OF assms(1)])
  next
    case (Inr this)
    then have "ocl_execute_gemm E C this out inp wei bias act stream block s = Some (ret, s')"
      using assms(2) rt by (simp add: pim_execute_gemm_def)
    then show ?thesis
      by (cases "oe_kernel_type this")
        (auto simp: ocl_execute_gemm_def bind_eq_Some_conv split: if_splits intro: ocl_gemm_on_pim_extends [OF assms(1)])
  qed
qed

text \<open>C3: a matrix product leaves every buffer object of the caller exactly as it was, on both executors and
  on every path: conversions and temporary copies work on objects of their own and the extents
  exchanged for weight-first products are exchanged back, even when operands are the same object.
\<close>

theorem gemm_keeps_objects:
  assumes "new_ok (env_new E)" "finite (live_objs s)" "pim_bos s 0 = None"
    "pim_execute_gemm E R C out inp wei bias act stream block s = Some (ret, s')" "pim_bos s p = Some b"
  shows "pim_bos s' p = Some b"
proof -
  have "store_ok {p} s" using assms(2,3,5) by (auto simp: store_ok_def)
  then show ?thesis using execute_gemm_extends [OF assms(1,4), of "{p}"] assms(5) by (simp add: extends_def)
qed


section \<open>Programs and launches fit together\<close>

lemma elt_num_tile_ceil:
  assumes "bo_size out + 262143 < 2 ^ 31"
  shows "elt_num_tile out = (int (bo_size out) + 262143) div 262144" "out_size out = int (bo_size out)"
proof -
  show "out_size out = int (bo_size out)" using assms by (simp add: out_size_def i32_small)
  then have "i32 (out_size out + elt_align - 1) = int (bo_size out) + 262143"
    using assms by (simp add: elt_align_def i32_small)
  then show "elt_num_tile out = (int (bo_size out) + 262143) div 262144"
    by (simp add: elt_num_tile_def cdiv_nonneg elt_align_def)
qed

lemma ceil_eq_floor:
  fixes n K :: int
  assumes "0 < K"
  shows "(n + (K - 1)) div K = n div K \<longleftrightarrow> K dvd n"
proof -
  let ?r = "n mod K"
  have "(n + (K - 1)) div K = n div K + (?r + (K - 1)) div K"
  proof -
    have "(K - 1) mod K = K - 1" by (rule mod_pos_pos_trivial) (use assms in simp_all)
    moreover have "(K - 1) div K = 0" by (rule div_pos_pos_trivial) (use assms in simp_all)
    ultimately show ?thesis using div_add1_eq [of n "K - 1" K] by (simp only: add_0_right)
  qed
  moreover have "(?r + (K - 1)) div K = (if ?r = 0 then 0 else 1)"
  proof (cases "?r = 0")
    case False
    then have "0 < ?r" "?r < K" using assms pos_mod_bound pos_mod_sign [of K n] by (auto simp: order_less_le)
    moreover from this have "(?r - 1) div K = 0" by (intro div_pos_pos_trivial) simp_all
    ultimately show ?thesis using assms div_add_self2 [of K "?r - 1"] by (simp add: algebra_simps)
  qed (use assms in simp)
  ultimately show ?thesis by (simp add: dvd_eq_mod_eq_0)
qed

lemmas ceil_eq_floor_iff = ceil_eq_floor [of 262144, simplified]



text \<open>The program of a matrix-vector product in the accumulating mode, for an input of \<open>256 * k\<close> elements.\<close>


text \<open>The program of a matrix-vector product in the accumulating mode, for an input of \<open>256 * k\<close> elements.\<close>

lemma gemv_key_width:
  assumes "uint (sh_w (bshape inp)) = 256 * int k" "k < 2 ^ 13"
  shows "gemv_key inp = 512 * int k" "gemm_in_tile inp = 2 * int k"
proof -
  show "gemv_key inp = 512 * int k" using assms by (simp add: gemv_key_def i32_small)
  have "512 * int k div 32 div 8 = 2 * int k" by simp
  then show "gemm_in_tile inp = 2 * int k" using assms by (simp add: gemm_in_tile_def i32_small)
qed

text \<open>How often a program runs its multiply-accumulate commands: one plus the counter of the jump behind each.\<close>

definition mac_runs :: "PimCommand list \<Rightarrow> int" where
  "mac_runs p = (\<Sum>i \<leftarrow> filter (\<lambda>i. cmd_type (p ! i) = MAC) [0..<length p]. loop_counter (p ! (i + 1)) + 1)"



section \<open>An instance of the matrix product\<close>

text \<open>A weight-first product on PIM with a converted weight: the extents of three objects are exchanged and exchanged back.\<close>

definition demo_gemm_he :: HipExec where
  "demo_gemm_he = demo_he\<lparr>he_crf_generator := crf_gen_init\<lparr>is_gemv_tile_tree := False, crf_lut := [(OP_GEMV, 2048) \<mapsto> 8192]\<rparr>\<rparr>"

definition demo_gemm_pim :: "(demo_state, HipExec + OclExec) Pim" where
  "demo_gemm_pim = pim_start\<lparr>log_initialized := True, pim_initialized := True,
     pim_runtime := Some \<lparr>rt_type = RT_TYPE_HIP, rt_precision = PIM_FP16, rt_executor = Inl demo_gemm_he, weight_map = []\<rparr>,
     pm_instance := Some demo_pm,
     pim_bos := [1 \<mapsto> demo_out\<lparr>bshape := mk_shape 1 1 4096 1\<rparr>, 2 \<mapsto> demo_out\<lparr>bshape := mk_shape 1 1 1024 1\<rparr>,
                 3 \<mapsto> demo_out\<lparr>data_layout_type := ALIGNED_GEMM_WEIGHT\<rparr>]\<rparr>"

lemma demo_gemm_runs:
  "\<exists>s'. pim_execute_gemm exec_env demo_hr demo_ocr 1 2 3 0 NONE 0 True demo_gemm_pim = Some (0, s')"
  by (simp add: pim_execute_gemm_def demo_gemm_pim_def demo_gemm_he_def demo_he_def hip_execute_gemm_def hip_gemm_on_pim_def
      pim_weight_def transpose_for_def set_pimbo_t_def put_bo_def bias_bo_def pim_start_def hip_member_def run_exec_def
      the_manager_def on_exec_def hip_execute_hip_gemm_def hip_execute_aligned_gemm_def hip_gemm_tile_accum_def hip_crf_def
      get_crf_bin_def find_crf_def gemv_key_def swap_hw_def mk_shape_def i32_def hip_finish_def demo_hr_def Let_def
      put_manager_def demo_out_def)

lemma gemm_keeps_objects_witness:
  "\<exists>s'. pim_execute_gemm exec_env demo_hr demo_ocr 1 2 3 0 NONE 0 True demo_gemm_pim = Some (0, s')
    \<and> pim_bos s' 2 = Some (demo_out\<lparr>bshape := mk_shape 1 1 1024 1\<rparr>)"
proof -
  obtain s' where s: "pim_execute_gemm exec_env demo_hr demo_ocr 1 2 3 0 NONE 0 True demo_gemm_pim = Some (0, s')"
    using demo_gemm_runs by blast
  have "new_ok (env_new exec_env)" "finite (live_objs demo_gemm_pim)" "pim_bos demo_gemm_pim 0 = None"
    "pim_bos demo_gemm_pim 2 = Some (demo_out\<lparr>bshape := mk_shape 1 1 1024 1\<rparr>)"
    using fresh_addr_ok by (simp_all add: exec_env_def demo_gemm_pim_def pim_start_def live_objs_def)
  with gemm_keeps_objects [OF _ _ _ s] s show ?thesis by blast
qed

end
