(* ===== verification/KernelBase.thy ===== *)
theory KernelBase
  imports AddrMap TraceConvert
begin

text \<open>
  What the device kernels share (\<open>runtime/include/executor/hip/pim_op_kernels.pimk\<close>): the four memory
  commands, the steps that switch the PIM mode and load a program, and, for the emulator build, how a command is
  recorded. A kernel is the code of a thread of a block; the threads of all blocks are interleaved in any order.
\<close>

section \<open>Commands and their recording\<close>

text \<open>The source of a \<open>W_CMD_R\<close> is given by its 16 bytes.\<close>

datatype DevCmd = R_CMD u64 | W_CMD u64 | W_CMD_R u64 "u8 list" | B_CMD int

record PimMemTracer =
  g_fba :: u64
  g_fmtd16 :: "PimMemTraceData list"
  g_ridx :: "int list"
  m_width :: int

text \<open>The entry a command leaves, given what its slot held: a plain write leaves the data as they are.\<close>

definition record_cmd :: "int \<Rightarrow> int \<Rightarrow> u64 \<Rightarrow> DevCmd \<Rightarrow> PimMemTraceData \<Rightarrow> PimMemTraceData" where
  "record_cmd bid tid fba c e = (case c of
     R_CMD a \<Rightarrow> e\<lparr>tr_block := bid, tr_thread := tid, tr_addr := a - fba, tr_cmd := CHR ''R''\<rparr>
   | W_CMD a \<Rightarrow> e\<lparr>tr_block := bid, tr_thread := tid, tr_addr := a - fba, tr_cmd := CHR ''W''\<rparr>
   | W_CMD_R a src \<Rightarrow> e\<lparr>tr_data := put_lo src (tr_data e), tr_block := bid, tr_thread := tid,
        tr_addr := a - fba, tr_cmd := CHR ''W''\<rparr>
   | B_CMD ty \<Rightarrow> e\<lparr>tr_data := put_lo (replicate 16 0) (tr_data e), tr_block := bid, tr_thread := tid,
        tr_addr := 0, tr_cmd := CHR ''B''\<rparr>)"

text \<open>One command of thread \<open>tid\<close> of block \<open>bid\<close>; a slot outside the array has no value.\<close>

type_synonym Event = "nat \<times> nat \<times> DevCmd"

definition trace_cmd :: "Event \<Rightarrow> PimMemTracer \<Rightarrow> PimMemTracer option" where
  "trace_cmd = (\<lambda>(bid, tid, c) s. do {
     n \<leftarrow> arr_get (g_ridx s) (int bid);
     ridx \<leftarrow> arr_set (g_ridx s) (int bid) (n + 1);
     e \<leftarrow> arr_get (g_fmtd16 s) (int bid * m_width s + n);
     xs \<leftarrow> arr_set (g_fmtd16 s) (int bid * m_width s + n) (record_cmd (int bid) (int tid) (g_fba s) c e);
     Some (s\<lparr>g_ridx := ridx, g_fmtd16 := xs\<rparr>)
   })"

fun run_trace :: "Event list \<Rightarrow> PimMemTracer \<Rightarrow> PimMemTracer option" where
  "run_trace [] s = Some s"
| "run_trace (e # es) s = trace_cmd e s \<bind> run_trace es"

text \<open>The start of a kernel: every block resets its counter before its threads meet.\<close>

definition start_tracer :: "u64 \<Rightarrow> PimMemTraceData list \<Rightarrow> nat \<Rightarrow> nat \<Rightarrow> PimMemTracer" where
  "start_tracer fba fmtd16 width blocks =
     \<lparr>g_fba = fba, g_fmtd16 = fmtd16, g_ridx = replicate blocks 0, m_width = int width\<rparr>"

text \<open>
  The interleavings of a kernel: the events of each thread are its code, in order. \<open>block_cmds\<close> is what one
  block contributes.
\<close>

definition is_schedule :: "(nat \<Rightarrow> nat \<Rightarrow> DevCmd list) \<Rightarrow> nat \<Rightarrow> nat \<Rightarrow> Event list \<Rightarrow> bool" where
  "is_schedule kern blocks threads es \<longleftrightarrow>
     list_all (\<lambda>(b, t, c). b < blocks \<and> t < threads) es
     \<and> (\<forall>b < blocks. \<forall>t < threads. map (snd \<circ> snd) (filter (\<lambda>(b', t', c). b' = b \<and> t' = t) es) = kern b t)"

definition block_cmds :: "nat \<Rightarrow> Event list \<Rightarrow> (nat \<times> DevCmd) list" where
  "block_cmds b es = map snd (filter (\<lambda>e. fst e = b) es)"

definition block_len :: "(nat \<Rightarrow> DevCmd list) \<Rightarrow> nat \<Rightarrow> nat" where
  "block_len kern threads = sum_list (map (\<lambda>t. length (kern t)) [0..<threads])"

section \<open>What an interleaving records\<close>

lemma run_trace_append: "run_trace (xs @ ys) s = run_trace xs s \<bind> run_trace ys"
  by (induction xs arbitrary: s) (auto split: bind_splits)

lemma block_cmds_snoc:
  "block_cmds b (es @ [(b', t, c)]) = block_cmds b es @ (if b' = b then [(t, c)] else [])"
  by (simp add: block_cmds_def)

lemma slot_split: "i < w \<Longrightarrow> (a * w + i :: nat) div w = a" "i < w \<Longrightarrow> (a * w + i :: nat) mod w = i"
  by simp_all

definition recorded :: "PimMemTracer \<Rightarrow> Event list \<Rightarrow> PimMemTracer \<Rightarrow> bool" where
  "recorded s es s' \<longleftrightarrow> g_fba s' = g_fba s \<and> m_width s' = m_width s
     \<and> length (g_fmtd16 s') = length (g_fmtd16 s) \<and> length (g_ridx s') = length (g_ridx s)
     \<and> (\<forall>b < length (g_ridx s). g_ridx s' ! b = int (length (block_cmds b es)))
     \<and> (\<forall>b < length (g_ridx s). \<forall>i < nat (m_width s). g_fmtd16 s' ! (b * nat (m_width s) + i) =
          (if i < length (block_cmds b es)
           then record_cmd (int b) (int (fst (block_cmds b es ! i))) (g_fba s) (snd (block_cmds b es ! i))
                  (g_fmtd16 s ! (b * nat (m_width s) + i))
           else g_fmtd16 s ! (b * nat (m_width s) + i)))"

lemma run_trace_recorded:
  assumes "list_all (\<lambda>(b, t, c). b < blocks) es" "\<forall>b < blocks. length (block_cmds b es) \<le> w"
    "blocks * w \<le> length xs"
  shows "\<exists>s'. run_trace es (start_tracer fba xs w blocks) = Some s' \<and> recorded (start_tracer fba xs w blocks) es s'"
  using assms
proof (induction es rule: rev_induct)
  case Nil
  show ?case by (simp add: recorded_def start_tracer_def block_cmds_def)
next
  case (snoc e es)
  let ?s0 = "start_tracer fba xs w blocks"
  obtain b t c where e: "e = (b, t, c)" by (cases e) auto
  have b: "b < blocks" using snoc.prems(1) e by simp
  have len: "\<forall>b' < blocks. length (block_cmds b' es) \<le> w"
    using snoc.prems(2) by (fastforce simp: e block_cmds_snoc)
  then obtain s where s: "run_trace es ?s0 = Some s" "recorded ?s0 es s" using snoc by auto
  let ?n = "length (block_cmds b es)"
  have n: "?n < w" using snoc.prems(2) b by (auto simp: e block_cmds_snoc)
  note st = s(2) [unfolded recorded_def start_tracer_def, simplified]
  have slot: "b * w + ?n < length xs" using radix_bound [OF b n] snoc.prems(3) by simp
  have ridx: "g_ridx s ! b = int ?n" "b < length (g_ridx s)" using st b by simp_all
  have pos: "int b * int w + int ?n = int (b * w + ?n)" by simp
  have run: "trace_cmd e s = Some (s\<lparr>g_ridx := (g_ridx s)[b := int ?n + 1],
      g_fmtd16 := (g_fmtd16 s)[b * w + ?n := record_cmd (int b) (int t) fba c (xs ! (b * w + ?n))]\<rparr>)"
    using slot ridx st b n by (simp add: trace_cmd_def e pos del: of_nat_add of_nat_mult)
  have "recorded ?s0 (es @ [e]) (s\<lparr>g_ridx := (g_ridx s)[b := int ?n + 1],
      g_fmtd16 := (g_fmtd16 s)[b * w + ?n := record_cmd (int b) (int t) fba c (xs ! (b * w + ?n))]\<rparr>)"
  proof -
    have "g_fmtd16 (s\<lparr>g_ridx := (g_ridx s)[b := int ?n + 1],
        g_fmtd16 := (g_fmtd16 s)[b * w + ?n := record_cmd (int b) (int t) fba c (xs ! (b * w + ?n))]\<rparr>) ! (b' * w + i)
      = (if i < length (block_cmds b' (es @ [e]))
         then record_cmd (int b') (int (fst (block_cmds b' (es @ [e]) ! i))) fba (snd (block_cmds b' (es @ [e]) ! i))
                (xs ! (b' * w + i))
         else xs ! (b' * w + i))" if "b' < blocks" "i < w" for b' i
    proof (cases "b' = b \<and> i = ?n")
      case True
      then show ?thesis using slot st by (simp add: e block_cmds_snoc)
    next
      case False
      then have "b' * w + i \<noteq> b * w + ?n" using radix_inj [OF _ that(2) n] by blast
      moreover have "i < length (block_cmds b' (es @ [e])) \<longleftrightarrow> i < length (block_cmds b' es)"
        using False by (auto simp: e block_cmds_snoc)
      moreover have "i < length (block_cmds b' es) \<Longrightarrow> block_cmds b' (es @ [e]) ! i = block_cmds b' es ! i"
        by (simp add: e block_cmds_snoc nth_append)
      ultimately show ?thesis using st that by simp
    qed
    then show ?thesis using st b
      by (simp add: recorded_def start_tracer_def e block_cmds_snoc nth_list_update)
  qed
  then show ?case using s(1) run by (simp add: run_trace_append)
qed

text \<open>An interleaving that runs has room for the entries of every block.\<close>

lemma run_trace_room:
  assumes "run_trace es (start_tracer fba xs w blocks) = Some s" "list_all (\<lambda>(b, t, c). b < blocks) es"
  shows "m_width s = int w \<and> length (g_fmtd16 s) = length xs \<and> length (g_ridx s) = blocks
    \<and> (\<forall>b < blocks. g_ridx s ! b = int (length (block_cmds b es))
        \<and> (block_cmds b es \<noteq> [] \<longrightarrow> b * w + length (block_cmds b es) \<le> length xs))"
  using assms
proof (induction es arbitrary: s rule: rev_induct)
  case Nil
  then show ?case by (auto simp: start_tracer_def block_cmds_def)
next
  case (snoc e es)
  obtain b t c where e: "e = (b, t, c)" by (cases e) auto
  obtain s1 where s1: "run_trace es (start_tracer fba xs w blocks) = Some s1" "trace_cmd e s1 = Some s"
    using snoc.prems(1) by (auto simp: run_trace_append bind_eq_Some_conv)
  have b: "b < blocks" using snoc.prems(2) e by simp
  note IH = snoc.IH [OF s1(1)]
  have i: "m_width s1 = int w" "length (g_fmtd16 s1) = length xs" "length (g_ridx s1) = blocks"
    "\<forall>b < blocks. g_ridx s1 ! b = int (length (block_cmds b es))
        \<and> (block_cmds b es \<noteq> [] \<longrightarrow> b * w + length (block_cmds b es) \<le> length xs)"
    using IH snoc.prems(2) by simp_all
  let ?n = "length (block_cmds b es)"
  have pos: "int b * int w + int ?n = int (b * w + ?n)" by simp
  have g: "arr_get (g_ridx s1) (int b) = Some (int ?n)" using b i by simp
  let ?f = "record_cmd (int b) (int t) (g_fba s1) c"
  have run: "trace_cmd e s1 = (if b * w + ?n < length xs
      then Some (s1\<lparr>g_ridx := (g_ridx s1)[b := int ?n + 1],
        g_fmtd16 := (g_fmtd16 s1)[b * w + ?n := ?f (g_fmtd16 s1 ! (b * w + ?n))]\<rparr>) else None)"
  proof -
    have ga: "arr_get (g_fmtd16 s1) (int m) = (if m < length xs then Some (g_fmtd16 s1 ! m) else None)"
      and sa: "arr_set (g_fmtd16 s1) (int m) v = (if m < length xs then Some ((g_fmtd16 s1)[m := v]) else None)" for m v
      using i(2) by (simp_all add: arr_get_def arr_set_def)
    have sb: "arr_set (g_ridx s1) (int b) v = Some ((g_ridx s1)[b := v])" for v using b i(3) by (simp add: arr_set_def)
    show ?thesis by (simp add: trace_cmd_def e g i(1) pos ga sa sb del: of_nat_add of_nat_mult)
  qed
  then have slot: "b * w + ?n < length xs" using s1(2) by (simp split: if_splits)
  then have s: "s = s1\<lparr>g_ridx := (g_ridx s1)[b := int ?n + 1],
        g_fmtd16 := (g_fmtd16 s1)[b * w + ?n := ?f (g_fmtd16 s1 ! (b * w + ?n))]\<rparr>"
    using s1(2) run by simp
  show ?case
  proof (intro conjI allI impI)
    show "m_width s = int w" "length (g_fmtd16 s) = length xs" "length (g_ridx s) = blocks" using i by (simp_all add: s)
    fix b' assume b': "b' < blocks"
    show "g_ridx s ! b' = int (length (block_cmds b' (es @ [e])))"
      using i(3,4) b' by (cases "b' = b") (simp_all add: s e block_cmds_snoc)
    assume "block_cmds b' (es @ [e]) \<noteq> []"
    then show "b' * w + length (block_cmds b' (es @ [e])) \<le> length xs"
      using i(4) b' slot by (cases "b' = b") (simp_all add: e block_cmds_snoc)
  qed
qed

lemma length_filter_threads:
  assumes "list_all (\<lambda>(b, t, c). t < threads) es"
  shows "length (filter (\<lambda>e. fst e = b) es)
    = sum_list (map (\<lambda>t. length (filter (\<lambda>(b', t', c). b' = b \<and> t' = t) es)) [0..<threads])"
  using assms
proof (induction es)
  case (Cons e es)
  obtain b' t' c where e: "e = (b', t', c)" by (cases e) auto
  have one: "sum_list (map (\<lambda>t. if b' = b \<and> t' = t then Suc (f t) else f t) [0..<k])
      = (if b' = b \<and> t' < k then 1 else 0) + sum_list (map f [0..<k])" for f :: "nat \<Rightarrow> nat" and k
    by (induction k) auto
  show ?case using Cons one [of "\<lambda>t. length (filter (\<lambda>(b', t', c). b' = b \<and> t' = t) es)" threads]
    by (auto simp: e if_distrib [of length] cong: if_cong)
qed simp

lemma schedule_block_len:
  assumes "is_schedule kern blocks threads es" "b < blocks"
  shows "length (block_cmds b es) = block_len (kern b) threads"
proof -
  have t: "list_all (\<lambda>(b, t, c). t < threads) es"
    using assms(1) by (auto simp: is_schedule_def list_all_iff)
  have "length (filter (\<lambda>(b', t', c). b' = b \<and> t' = t) es) = length (kern b t)" if "t < threads" for t
  proof -
    have "map (snd \<circ> snd) (filter (\<lambda>(b', t', c). b' = b \<and> t' = t) es) = kern b t"
      using assms that by (simp add: is_schedule_def)
    from arg_cong [OF this, of length] show ?thesis by simp
  qed
  then have "map (\<lambda>t. length (filter (\<lambda>(b', t', c). b' = b \<and> t' = t) es)) [0..<threads]
      = map (\<lambda>t. length (kern b t)) [0..<threads]" by simp
  then show ?thesis unfolding block_cmds_def length_map length_filter_threads [OF t] block_len_def by (rule arg_cong)
qed

lemma schedule_blocks: "is_schedule kern blocks threads es \<Longrightarrow> list_all (\<lambda>(b, t, c). b < blocks) es"
  by (auto simp: is_schedule_def list_all_iff)

text \<open>
  Every interleaving of blocks that record equally many entries fits exactly when one block fits in its room.
\<close>

lemma trace_fits_iff:
  assumes "is_schedule kern blocks threads es" "0 < blocks" "\<And>b. b < blocks \<Longrightarrow> block_len (kern b) threads = n"
    "length xs = blocks * w"
  shows "run_trace es (start_tracer fba xs w blocks) \<noteq> None \<longleftrightarrow> n \<le> w"
proof
  have len: "length (block_cmds b es) = n" if "b < blocks" for b
    using schedule_block_len [OF assms(1) that] assms(3) [OF that] by simp
  {
    assume "run_trace es (start_tracer fba xs w blocks) \<noteq> None"
    then obtain s where "run_trace es (start_tracer fba xs w blocks) = Some s" by blast
    from run_trace_room [OF this schedule_blocks [OF assms(1)]]
    have last: "block_cmds (blocks - 1) es \<noteq> [] \<longrightarrow> (blocks - 1) * w + length (block_cmds (blocks - 1) es) \<le> blocks * w"
      using assms(2,4) by simp
    have m: "(blocks - 1) * w + w = blocks * w" using assms(2) by (cases blocks) simp_all
    show "n \<le> w"
    proof (cases "n = 0")
      case False
      then have "(blocks - 1) * w + n \<le> blocks * w" using last len [of "blocks - 1"] assms(2) by auto
      then show ?thesis using m by linarith
    qed simp
  }
  assume "n \<le> w"
  then show "run_trace es (start_tracer fba xs w blocks) \<noteq> None"
    using run_trace_recorded [OF schedule_blocks [OF assms(1)], of w xs fba] len assms(4) by auto
qed

text \<open>The entries of a block after a run.\<close>

definition block_record :: "u64 \<Rightarrow> nat \<Rightarrow> (nat \<times> DevCmd) list \<Rightarrow> PimMemTraceData list \<Rightarrow> PimMemTraceData list" where
  "block_record fba b cs old = map2 (\<lambda>(t, c). record_cmd (int b) (int t) fba c) cs old"

lemma recorded_entries:
  assumes "recorded (start_tracer fba xs w blocks) es s" "b < blocks" "length (block_cmds b es) = n" "n \<le> w"
    "blocks * w \<le> length xs"
  shows "block_entries w n (g_fmtd16 s) b = block_record fba b (block_cmds b es) (block_entries w n xs b)"
proof -
  have le: "b * w + n \<le> length xs" using mult_le_mono1 [of "Suc b" blocks w] assms(2,4,5) by simp
  have len: "length (g_fmtd16 s) = length xs" using assms(1) by (simp add: recorded_def start_tracer_def)
  show ?thesis
  proof (rule nth_equalityI)
    show "length (block_entries w n (g_fmtd16 s) b) = length (block_record fba b (block_cmds b es) (block_entries w n xs b))"
      using le len assms(3) by (simp add: block_entries_def block_record_def)
    fix i assume "i < length (block_entries w n (g_fmtd16 s) b)"
    then have i: "i < n" by (simp add: block_entries_def)
    have "g_fmtd16 s ! (b * w + i) = record_cmd (int b) (int (fst (block_cmds b es ! i))) fba (snd (block_cmds b es ! i)) (xs ! (b * w + i))"
      using assms(1-4) i by (simp add: recorded_def start_tracer_def)
    then show "block_entries w n (g_fmtd16 s) b ! i = block_record fba b (block_cmds b es) (block_entries w n xs b) ! i"
      using i le len assms(3) by (simp add: block_entries_def block_record_def split_def)
  qed
qed

section \<open>The steps of a kernel\<close>

text \<open>\<open>ctr + (addr + offset)\<close> is \<open>&pim_ctr[addr + offset]\<close>.\<close>

definition park_in :: "u64 \<Rightarrow> nat \<Rightarrow> nat \<Rightarrow> nat \<Rightarrow> u64 \<Rightarrow> DevCmd list" where
  "park_in ctr bid gidx num_ba off =
     (let a = addr_gen (of_nat bid) 0 (of_nat (gidx div num_ba)) (of_nat (gidx mod num_ba)) (push_bit 13 1) 0
      in [W_CMD (ctr + (a + off)), B_CMD 1])"

definition change_sb_hab :: "u64 \<Rightarrow> nat \<Rightarrow> u64 \<Rightarrow> DevCmd list" where
  "change_sb_hab ctr bid off =
     [W_CMD (ctr + (addr_gen (of_nat bid) 0 2 0 0x27ff 0x1f + off)), B_CMD 1,
      W_CMD (ctr + (addr_gen (of_nat bid) 0 2 1 0x27ff 0x1f + off)), B_CMD 1,
      W_CMD (ctr + (addr_gen (of_nat bid) 0 0 0 0x27ff 0x1f + off)), B_CMD 1,
      W_CMD (ctr + (addr_gen (of_nat bid) 0 0 1 0x27ff 0x1f + off)), B_CMD 1]"

text \<open>The 16 bytes at \<open>p + off\<close> of a device array given by its contents.\<close>

definition bytes16 :: "u8 list \<Rightarrow> u64 \<Rightarrow> u8 list" where
  "bytes16 xs off = take 16 (drop (unat off) xs)"

definition program_crf :: "u64 \<Rightarrow> nat \<Rightarrow> nat \<Rightarrow> u8 list \<Rightarrow> u64 \<Rightarrow> DevCmd list" where
  "program_crf ctr bid gidx crf_binary off =
     [W_CMD_R (ctr + (addr_gen (of_nat bid) 0 0 1 0x3fff (0x4 + of_nat gidx) + off)) (bytes16 crf_binary off)]"

definition program_crf_mod :: "u64 \<Rightarrow> nat \<Rightarrow> nat \<Rightarrow> nat \<Rightarrow> u8 list \<Rightarrow> u64 \<Rightarrow> DevCmd list" where
  "program_crf_mod ctr bid tid gidx crf_binary off =
     (let a = ctr + (addr_gen (of_nat bid) 0 0 1 0x3fff (0x4 + of_nat gidx) + off)
      in [W_CMD_R a (bytes16 crf_binary (of_nat (tid * 16))), R_CMD a, B_CMD 1])"

definition program_srf :: "u64 \<Rightarrow> nat \<Rightarrow> u8 list \<Rightarrow> u64 \<Rightarrow> DevCmd list" where
  "program_srf ctr bid srf_binary off =
     [W_CMD_R (ctr + (addr_gen (of_nat bid) 0 0 0 0x3fff 0x0 + 32 + off)) (bytes16 srf_binary off)]"

definition hab_to_hab_pim :: "u8 list" where "hab_to_hab_pim = 0x01 # replicate 31 0"
definition hab_pim_to_hab :: "u8 list" where "hab_pim_to_hab = replicate 32 0"

definition change_hab_habpim :: "u64 \<Rightarrow> nat \<Rightarrow> u64 \<Rightarrow> DevCmd list" where
  "change_hab_habpim ctr bid off =
     (let a = ctr + (addr_gen (of_nat bid) 0 0 0 0x3fff 0x0 + off)
      in [W_CMD_R a (bytes16 hab_to_hab_pim off), R_CMD a])"

definition change_habpim_hab :: "u64 \<Rightarrow> nat \<Rightarrow> u64 \<Rightarrow> DevCmd list" where
  "change_habpim_hab ctr bid off =
     (let a = ctr + (addr_gen (of_nat bid) 0 0 0 0x3fff 0x0 + off)
      in [W_CMD_R a (bytes16 hab_pim_to_hab off), R_CMD a, B_CMD 1])"

definition change_hab_sb :: "u64 \<Rightarrow> nat \<Rightarrow> nat \<Rightarrow> u64 \<Rightarrow> DevCmd list" where
  "change_hab_sb ctr bid gidx off =
     (let a = ctr + (addr_gen (of_nat bid) 0 0 (of_nat gidx) 0x2fff 0x1f + off)
      in [W_CMD a, R_CMD a, B_CMD 1])"

definition park_out :: "u64 \<Rightarrow> nat \<Rightarrow> nat \<Rightarrow> nat \<Rightarrow> u64 \<Rightarrow> DevCmd list" where
  "park_out ctr bid gidx num_ba off =
     (let a = addr_gen (of_nat bid) 0 (of_nat (gidx div num_ba)) (of_nat (gidx mod num_ba)) (push_bit 13 1) 0
      in [W_CMD (ctr + (a + off))])"

lemmas step_defs = park_in_def change_sb_hab_def program_crf_def program_crf_mod_def program_srf_def
  change_hab_habpim_def change_habpim_hab_def change_hab_sb_def park_out_def

lemma length_steps [simp]:
  "length (park_in ctr b g n off) = 2" "length (change_sb_hab ctr b off) = 8" "length (program_crf ctr b g crf off) = 1"
  "length (program_crf_mod ctr b t g crf off) = 3" "length (program_srf ctr b srf off) = 1"
  "length (change_hab_habpim ctr b off) = 2" "length (change_habpim_hab ctr b off) = 3"
  "length (change_hab_sb ctr b g off) = 3" "length (park_out ctr b g n off) = 1"
  by (simp_all add: step_defs Let_def)

section \<open>Kernels as phases\<close>

text \<open>
  The body of a kernel is a sequence of statements, some under a bound on the thread index; every loop in it
  has the same length for all threads. The block index is a parameter of the body.
\<close>

datatype Phase = All "nat \<Rightarrow> DevCmd list" | Below nat "nat \<Rightarrow> DevCmd list"

fun phase_code :: "nat \<Rightarrow> Phase \<Rightarrow> DevCmd list" where
  "phase_code tid (All f) = f tid"
| "phase_code tid (Below n f) = (if tid < n then f tid else [])"

definition thread_code :: "Phase list \<Rightarrow> nat \<Rightarrow> DevCmd list" where
  "thread_code ps tid = concat (map (phase_code tid) ps)"

definition gidx :: "nat \<Rightarrow> nat" where "gidx tid = tid div 2"
definition offset :: "nat \<Rightarrow> u64" where "offset tid = of_nat (tid mod 2 * 0x10)"

lemma sum_list_below:
  "k \<le> threads \<Longrightarrow> sum_list (map (\<lambda>t. if t < k then m else 0) [0..<threads]) = k * (m :: nat)"
proof -
  have "sum_list (map (\<lambda>t. if t < k then m else 0) [0..<threads]) = min k threads * m"
    by (induction threads) (auto simp: min_def not_less le_Suc_eq)
  then show "k \<le> threads \<Longrightarrow> ?thesis" by simp
qed

lemma block_len_Nil [simp]: "block_len (thread_code []) threads = 0"
  by (simp add: block_len_def thread_code_def)

lemma block_len_All:
  "(\<And>t. length (f t) = m) \<Longrightarrow> block_len (thread_code (All f # ps)) threads = threads * m + block_len (thread_code ps) threads"
  by (simp add: block_len_def thread_code_def sum_list_addf sum_list_triv)

lemma block_len_Below:
  assumes "\<And>t. length (f t) = m" "k \<le> threads"
  shows "block_len (thread_code (Below k f # ps)) threads = k * m + block_len (thread_code ps) threads"
proof -
  have "length (phase_code t (Below k f)) = (if t < k then m else 0)" for t using assms(1) by simp
  then show ?thesis using sum_list_below [OF assms(2), of m]
    by (simp add: block_len_def thread_code_def sum_list_addf del: phase_code.simps)
qed

text \<open>One interleaving: block after block, thread after thread.\<close>

definition seq_schedule :: "(nat \<Rightarrow> nat \<Rightarrow> DevCmd list) \<Rightarrow> nat \<Rightarrow> nat \<Rightarrow> Event list" where
  "seq_schedule kern blocks threads =
     concat (map (\<lambda>b. concat (map (\<lambda>t. map (\<lambda>c. (b, t, c)) (kern b t)) [0..<threads])) [0..<blocks])"

lemma concat_map_single: "i < n \<Longrightarrow> concat (map (\<lambda>j. if j = i then xs else []) [0..<n]) = xs"
proof -
  have "concat (map (\<lambda>j. if j = i then xs else []) [0..<n]) = (if i < n then xs else [])" by (induction n) auto
  then show "i < n \<Longrightarrow> ?thesis" by simp
qed

lemma seq_schedule_ok: "is_schedule kern blocks threads (seq_schedule kern blocks threads)"
proof -
  have "map (snd \<circ> snd) (filter (\<lambda>(b', t', c). b' = b \<and> t' = t) (seq_schedule kern blocks threads)) = kern b t"
    if bt: "b < blocks" "t < threads" for b t
  proof -
    let ?F = "\<lambda>es. map (snd \<circ> snd) (filter (\<lambda>(b', t', c :: DevCmd). b' = b \<and> t' = t) es)"
    have one: "?F (map (\<lambda>c. (b1, t1, c)) cs) = (if t1 = t then if b1 = b then cs else [] else [])" for b1 t1 cs
      by (simp add: filter_map comp_def)
    have F: "?F (concat xss) = concat (map ?F xss)" for xss by (induction xss) simp_all
    have "?F (seq_schedule kern blocks threads)
        = concat (map (\<lambda>b1. concat (map (\<lambda>t1. if t1 = t then if b1 = b then kern b1 t1 else [] else []) [0..<threads])) [0..<blocks])"
      unfolding seq_schedule_def F map_map comp_def [of ?F] one ..
    also have "\<dots> = concat (map (\<lambda>b1. if b1 = b then kern b t else []) [0..<blocks])"
    proof -
      have "concat (map (\<lambda>t1. if t1 = t then if b1 = b then kern b1 t1 else [] else []) [0..<threads])
          = (if b1 = b then kern b t else [])" for b1
        using concat_map_single [OF bt(2), of "if b1 = b then kern b t else []"] by (auto cong: if_cong)
      then show ?thesis by simp
    qed
    also have "\<dots> = kern b t" by (rule concat_map_single [OF bt(1)])
    finally show ?thesis .
  qed
  moreover have "list_all (\<lambda>(b, t, c). b < blocks \<and> t < threads) (seq_schedule kern blocks threads)"
    by (auto simp: seq_schedule_def list_all_iff)
  ultimately show ?thesis by (simp add: is_schedule_def)
qed

text \<open>
  What the emulator can convert: the entries of each block must fill at most half of its room.
\<close>

lemma trace_convertible_iff:
  assumes "is_schedule kern blocks threads es" "2 < blocks" "\<And>b. b < blocks \<Longrightarrow> block_len (kern b) threads = n"
    "length xs = blocks * w" "blocks * w \<le> length h32"
  shows "(\<exists>s. run_trace es (start_tracer fba xs w blocks) = Some s
      \<and> emulator_trace_gen w blocks (nat (g_ridx s ! 0)) h32 (g_fmtd16 s) \<noteq> None) \<longleftrightarrow> 2 * n \<le> w"
proof
  have len: "length (block_cmds b es) = n" if "b < blocks" for b
    using schedule_block_len [OF assms(1) that] assms(3) [OF that] by simp
  have room: "nat (g_ridx s ! 0) = n \<and> length (g_fmtd16 s) = blocks * w"
    if "run_trace es (start_tracer fba xs w blocks) = Some s" for s
    using run_trace_room [OF that schedule_blocks [OF assms(1)]] len assms(2,4) by simp
  have fits: "n \<le> w" if "run_trace es (start_tracer fba xs w blocks) = Some s" for s
    using trace_fits_iff [OF assms(1) _ assms(3,4), of fba] that assms(2) by auto
  {
    assume "\<exists>s. run_trace es (start_tracer fba xs w blocks) = Some s
      \<and> emulator_trace_gen w blocks (nat (g_ridx s ! 0)) h32 (g_fmtd16 s) \<noteq> None"
    then obtain s where s: "run_trace es (start_tracer fba xs w blocks) = Some s"
      "compact_trace w blocks n (g_fmtd16 s) \<noteq> None" using room by (auto simp: emulator_trace_gen_def bind_eq_Some_conv)
    show "2 * n \<le> w"
    proof (cases "n = 0")
      case False
      then show ?thesis
        using compaction_defined_iff [of n w blocks "g_fmtd16 s"] s fits [OF s(1)] room [OF s(1)] assms(2) by simp
    qed simp
  }
  assume n: "2 * n \<le> w"
  then obtain s where s: "run_trace es (start_tracer fba xs w blocks) = Some s"
    using trace_fits_iff [OF assms(1) _ assms(3,4), of fba] assms(2) by auto
  have l: "blocks * w \<le> length (g_fmtd16 s)" using room [OF s] by simp
  from compact_trace_ok [OF n this] obtain ys where ys: "compact_trace w blocks n (g_fmtd16 s) = Some ys" "length ys = length (g_fmtd16 s)"
    using assms(2) by auto
  have nb: "n * blocks \<le> blocks * w" using mult_le_mono1 [of n w blocks] n by (simp only: mult.commute [of blocks])
  have "n * blocks \<le> length ys" using order_trans [OF nb l] by (simp only: ys(2))
  moreover have "length (take (n * blocks) ys) \<le> length h32"
    unfolding length_take by (rule min.coboundedI2 [OF order_trans [OF nb assms(5)]])
  ultimately obtain r where "convert_mem_trace_from_16B_to_32B h32 ys (n * blocks) = Some r"
    using coalesce_total [of "take (n * blocks) ys" h32] by (auto simp: convert_mem_trace_from_16B_to_32B_def)
  then have "emulator_trace_gen w blocks n h32 (g_fmtd16 s) = Some r" using ys by (simp add: emulator_trace_gen_def)
  then show "\<exists>s. run_trace es (start_tracer fba xs w blocks) = Some s
      \<and> emulator_trace_gen w blocks (nat (g_ridx s ! 0)) h32 (g_fmtd16 s) \<noteq> None"
    using s room [OF s] by auto
qed

end
