(* ===== verification/EltKernels.thy ===== *)
theory EltKernels
  imports KernelBase
begin

text \<open>
  The kernels of the element-wise operations, \<open>elt_op_pim\<close>, \<open>relu_pim\<close>, \<open>copy_pim\<close> and \<open>bn_pim_nr_sip\<close>
  (\<open>runtime/include/executor/hip/pim_*_kernels.pimk\<close>): which part of a buffer they access, and how large a
  buffer the emulator can follow.
\<close>

section \<open>The kernels\<close>

text \<open>The offset a thread accesses in all buffers, in an even bank and in the odd bank beside it.\<close>

definition tile_addr :: "nat \<Rightarrow> nat \<Rightarrow> nat \<Rightarrow> u64" where
  "tile_addr bid tile_idx tid =
     (let loc = of_nat (tile_idx * 8 + gidx tid) :: u32; row = loc div 32; col = loc mod 32
      in addr_gen (of_nat bid) 0 0 0 row col + offset tid)"

definition tile_odd :: "nat \<Rightarrow> nat \<Rightarrow> nat \<Rightarrow> u64" where
  "tile_odd bid tile_idx tid = tile_addr bid tile_idx tid + 0x2000"

definition elt_tile :: "u64 \<Rightarrow> u64 \<Rightarrow> u64 \<Rightarrow> nat \<Rightarrow> nat \<Rightarrow> nat \<Rightarrow> DevCmd list" where
  "elt_tile operand0 operand1 output bid tid tile_idx =
     (let addr_even = tile_addr bid tile_idx tid; addr_odd = tile_odd bid tile_idx tid
      in [R_CMD (operand0 + addr_even), B_CMD 1, R_CMD (operand1 + addr_even), B_CMD 1,
          W_CMD (output + addr_even), W_CMD (output + addr_even), R_CMD (output + addr_even), B_CMD 1,
          R_CMD (operand0 + addr_odd), B_CMD 1, R_CMD (operand1 + addr_odd), B_CMD 1,
          W_CMD (output + addr_odd), W_CMD (output + addr_odd), R_CMD (output + addr_odd), B_CMD 1])"

definition fill_tile :: "u64 \<Rightarrow> u64 \<Rightarrow> nat \<Rightarrow> nat \<Rightarrow> nat \<Rightarrow> DevCmd list" where
  "fill_tile pim_data output bid tid tile_idx =
     (let addr_even = tile_addr bid tile_idx tid; addr_odd = tile_odd bid tile_idx tid
      in [R_CMD (pim_data + addr_even), B_CMD 1, W_CMD (output + addr_even), R_CMD (output + addr_even), B_CMD 1,
          R_CMD (pim_data + addr_odd), B_CMD 1, W_CMD (output + addr_odd), R_CMD (output + addr_odd), B_CMD 1])"

definition bn_tile :: "u64 \<Rightarrow> u64 \<Rightarrow> nat \<Rightarrow> nat \<Rightarrow> nat \<Rightarrow> DevCmd list" where
  "bn_tile pim_data output bid tid tile_idx =
     (let addr_even = tile_addr bid tile_idx tid; addr_odd = tile_odd bid tile_idx tid
      in [R_CMD (pim_data + addr_even), B_CMD 1, R_CMD (pim_data + addr_even), B_CMD 1,
          R_CMD (pim_data + addr_even), B_CMD 1, R_CMD (pim_data + addr_even), B_CMD 1,
          R_CMD (pim_data + addr_odd), B_CMD 1, R_CMD (pim_data + addr_odd), B_CMD 1,
          R_CMD (pim_data + addr_odd), B_CMD 1,
          W_CMD (output + addr_even), B_CMD 1, W_CMD (output + addr_odd), R_CMD (output + addr_odd), B_CMD 1])"

text \<open>The statements before and after the computation; those of the three simple kernels agree.\<close>

definition elt_prologue :: "u64 \<Rightarrow> u8 list \<Rightarrow> nat \<Rightarrow> Phase list" where
  "elt_prologue ctr crf_binary bid =
     [All (\<lambda>tid. park_in ctr bid (gidx tid) 4 (offset tid)),
      Below 2 (\<lambda>tid. change_sb_hab ctr bid (offset tid) @ program_crf ctr bid (gidx tid) crf_binary (offset tid)
        @ change_hab_habpim ctr bid (offset tid) @ [B_CMD 1])]"

definition elt_epilogue :: "u64 \<Rightarrow> nat \<Rightarrow> Phase list" where
  "elt_epilogue ctr bid =
     [Below 4 (\<lambda>tid. change_habpim_hab ctr bid (offset tid) @ change_hab_sb ctr bid (gidx tid) (offset tid)),
      All (\<lambda>tid. park_out ctr bid (gidx tid) 4 (offset tid))]"

definition elt_op_pim_code :: "u64 \<Rightarrow> u64 \<Rightarrow> u64 \<Rightarrow> u64 \<Rightarrow> int \<Rightarrow> u8 list \<Rightarrow> nat \<Rightarrow> Phase list" where
  "elt_op_pim_code operand0 operand1 pim_ctr output num_tile crf_binary bid =
     elt_prologue pim_ctr crf_binary bid
     @ [Below 16 (\<lambda>tid. concat (map (elt_tile operand0 operand1 output bid tid) [0..<nat num_tile]))]
     @ elt_epilogue pim_ctr bid"

definition fill_num_tile :: "int \<Rightarrow> int" where
  "fill_num_tile sz = cdiv (cdiv (cdiv sz 32) (8 * 64 * 8)) 2"

definition relu_pim_code :: "u64 \<Rightarrow> u64 \<Rightarrow> u64 \<Rightarrow> int \<Rightarrow> u8 list \<Rightarrow> nat \<Rightarrow> Phase list" where
  "relu_pim_code pim_data pim_ctr output sz crf_binary bid =
     elt_prologue pim_ctr crf_binary bid
     @ [Below 16 (\<lambda>tid. concat (map (fill_tile pim_data output bid tid) [0..<nat (fill_num_tile sz)]))]
     @ elt_epilogue pim_ctr bid"

text \<open>\<open>copy_pim\<close> issues the commands of \<open>relu_pim\<close>; they differ in the program.\<close>

definition copy_pim_code :: "u64 \<Rightarrow> u64 \<Rightarrow> u64 \<Rightarrow> int \<Rightarrow> u8 list \<Rightarrow> nat \<Rightarrow> Phase list" where
  "copy_pim_code pim_data pim_ctr output sz crf_binary bid =
     elt_prologue pim_ctr crf_binary bid
     @ [Below 16 (\<lambda>tid. concat (map (fill_tile pim_data output bid tid) [0..<nat (fill_num_tile sz)]))]
     @ elt_epilogue pim_ctr bid"

definition bn_pim_nr_sip_code ::
    "u64 \<Rightarrow> u64 \<Rightarrow> u64 \<Rightarrow> int \<Rightarrow> u8 list \<Rightarrow> int \<Rightarrow> u8 list \<Rightarrow> nat \<Rightarrow> Phase list" where
  "bn_pim_nr_sip_code pim_data pim_ctr output num_tile crf_binary crf_size srf_binary bid =
     [All (\<lambda>tid. park_in pim_ctr bid (gidx tid) 4 (offset tid)),
      Below 2 (\<lambda>tid. change_sb_hab pim_ctr bid (offset tid) @ program_srf pim_ctr bid srf_binary (offset tid)
        @ change_hab_habpim pim_ctr bid (offset tid) @ [B_CMD 1]),
      Below (nat (drop_bit 4 crf_size)) (\<lambda>tid. program_crf_mod pim_ctr bid tid (gidx tid) crf_binary (offset tid)),
      Below 16 (\<lambda>tid. concat (map (bn_tile pim_data output bid tid) [0..<nat num_tile]))]
     @ elt_epilogue pim_ctr bid"

section \<open>The number of entries\<close>

lemma length_tiles:
  "length (concat (map (elt_tile a b c bid tid) xs)) = 16 * length xs"
  "length (concat (map (fill_tile a c bid tid) xs)) = 10 * length xs"
  "length (concat (map (bn_tile a c bid tid) xs)) = 19 * length xs"
  by (induction xs) (simp_all add: elt_tile_def fill_tile_def bn_tile_def Let_def)

lemma elt_block_len:
  "block_len (thread_code (elt_op_pim_code a b ctr c n crf bid)) 32 = 144 + 256 * nat n"
  by (simp add: elt_op_pim_code_def elt_prologue_def elt_epilogue_def length_tiles block_len_All [where m = 2]
      block_len_All [where m = 1] block_len_Below [where m = 12] block_len_Below [where m = 6] block_len_Below [where m = "16 * nat n"])

lemma fill_block_len:
  "block_len (thread_code (relu_pim_code a ctr c sz crf bid)) 32 = 144 + 160 * nat (fill_num_tile sz)"
  "block_len (thread_code (copy_pim_code a ctr c sz crf bid)) 32 = 144 + 160 * nat (fill_num_tile sz)"
  by (simp_all add: relu_pim_code_def copy_pim_code_def elt_prologue_def elt_epilogue_def length_tiles block_len_All [where m = 2]
      block_len_All [where m = 1] block_len_Below [where m = 12] block_len_Below [where m = 6]
      block_len_Below [where m = "10 * nat (fill_num_tile sz)"])

lemma bn_block_len:
  "block_len (thread_code (bn_pim_nr_sip_code a ctr c n crf 64 srf bid)) 32 = 156 + 304 * nat n"
  by (simp add: bn_pim_nr_sip_code_def elt_epilogue_def length_tiles block_len_All [where m = 2]
      block_len_All [where m = 1] block_len_Below [where m = 12] block_len_Below [where m = 6]
      block_len_Below [where m = 3] block_len_Below [where m = "19 * nat n"])

section \<open>The part of a buffer a kernel covers\<close>

lemma unat_offset: "unat (offset tid) = tid mod 2 * 16"
proof -
  have "tid mod 2 * 16 < 2 ^ 64" by (rule le_less_trans [of _ 16]) simp_all
  then show ?thesis unfolding offset_def by (rule unat_of_nat_u64)
qed

lemma tile_loc:
  assumes "g < (8 :: nat)"
  shows "(t * 8 + g) div 32 * 2 ^ 20 + (t * 8 + g) mod 32 div 4 * 2 ^ 17 = (2 * t + g div 4) * 2 ^ 17"
    "(t * 8 + g) mod 32 div 2 mod 2 = g div 2 mod 2" "(t * 8 + g) mod 32 mod 2 = g mod 2"
proof -
  let ?l = "t * 8 + g"
  have four: "(q * 8 * 4 + r) div 4 = q * 8 + r div 4" for q r :: nat by simp
  have "?l div 4 = (?l div 32 * 8 * 4 + ?l mod 32) div 4" using div_mult_mod_eq [of ?l 32] by simp
  moreover have "?l div 4 = (t * 2 * 4 + g) div 4" by simp
  then have "?l div 4 = 2 * t + g div 4" by simp
  ultimately have "?l div 32 * 8 + ?l mod 32 div 4 = 2 * t + g div 4" unfolding four by simp
  from arg_cong [OF this, of "\<lambda>x. x * 2 ^ 17"]
  show "?l div 32 * 2 ^ 20 + ?l mod 32 div 4 * 2 ^ 17 = (2 * t + g div 4) * 2 ^ 17" by (simp add: add_mult_distrib)
  have two: "(q * 2 * 2 + r) div 2 mod 2 = r div 2 mod 2" for q r :: nat
  proof -
    have "(q * 2 * 2 + r) div 2 = r div 2 + q * 2" by simp
    then show ?thesis by (simp only: mod_mult_self1)
  qed
  have "?l mod 32 div 2 mod 2 = (?l div 32 * 8 * 2 * 2 + ?l mod 32) div 2 mod 2" unfolding two ..
  also have "?l div 32 * 8 * 2 * 2 + ?l mod 32 = t * 2 * 2 * 2 + g" using div_mult_mod_eq [of ?l 32] by simp
  finally show "?l mod 32 div 2 mod 2 = g div 2 mod 2" unfolding two .
  have "?l mod 32 mod 2 = ?l mod 2" by (rule mod_mod_cancel) simp
  also have "\<dots> = (g + t * 4 * 2) mod 2" by (simp only: add.commute [of "t * 8"] mult.assoc) simp
  finally show "?l mod 32 mod 2 = g mod 2" unfolding mod_mult_self1 .
qed

lemma unat_tile_addr:
  assumes "bid < 64" "t < 2 ^ 16" "tid < 16"
  shows "unat (tile_addr bid t tid) = (2 * t + tid div 8) * 2 ^ 17 + bid div 2 * 2 ^ 8 + tid div 4 mod 2 * 2 ^ 7
    + bid mod 2 * 2 ^ 6 + tid div 2 mod 2 * 2 ^ 5 + tid mod 2 * 2 ^ 4"
proof -
  let ?l = "t * 8 + gidx tid"
  let ?loc = "of_nat ?l :: u32"
  have g: "gidx tid = tid div 2" "tid div 2 < 8" using assms(3) by (simp_all add: gidx_def)
  have "?l < 2 ^ 32" using assms(2) g by simp
  then have l: "unat ?loc = ?l" by (rule unat_of_nat_u32)
  have w: "unat (?loc div 32) = ?l div 32" "unat (?loc mod 32) = ?l mod 32" using l by (simp_all add: unat_div_distrib unat_mod_distrib)
  have b: "unat (of_nat bid :: u32) = bid" using assms(1) by (intro unat_of_nat_u32) simp
  have ok: "coord_ok (of_nat bid, 0, 0, 0, ?loc div 32, ?loc mod 32)"
    unfolding coord_ok_def prod.case word_less_nat_alt w b using assms g by simp
  let ?a = "addr_gen (of_nat bid) 0 0 0 (?loc div 32) (?loc mod 32)"
  have q: "?l div 32 * 2 ^ 20 + ?l mod 32 div 4 * 2 ^ 17 = (2 * t + tid div 8) * 2 ^ 17"
    "?l mod 32 div 2 mod 2 = tid div 4 mod 2" "?l mod 32 mod 2 = tid div 2 mod 2"
    unfolding g(1) using tile_loc [OF g(2)] by (simp_all flip: div_mult2_eq)
  have u: "unat ?a = (2 * t + tid div 8) * 2 ^ 17 + bid div 2 * 2 ^ 8 + tid div 4 mod 2 * 2 ^ 7
      + bid mod 2 * 2 ^ 6 + tid div 2 mod 2 * 2 ^ 5"
    unfolding unat_addr_gen [OF ok] w b q(2,3) using q(1) by simp
  have "unat ?a + unat (offset tid) < 2 ^ 64"
    unfolding u unat_offset using assms by simp
  then have "unat (?a + offset tid) = unat ?a + unat (offset tid)" by (simp add: unat_word_ariths)
  then show ?thesis using u by (simp add: tile_addr_def Let_def unat_offset)
qed

text \<open>
  In the mode of the computation one access to bank 0 or 1 of bank group 0 is carried out in all four bank groups and both
  pairs of banks of the channel: \<open>unit_addr\<close> gives the 16-byte piece of a buffer that a thread of a block makes unit
  \<open>bg, hi\<close> work on, in an even or odd bank.
\<close>

definition unit_addr :: "nat \<times> nat \<times> nat \<times> bool \<times> nat \<times> nat \<Rightarrow> nat" where
  "unit_addr = (\<lambda>(bid, tile_idx, tid, odd_bank, bg, hi).
     unat (if odd_bank then tile_odd bid tile_idx tid else tile_addr bid tile_idx tid) + bg * 2 ^ 14 + hi * 2 ^ 16)"

definition horner :: "nat \<times> nat \<times> nat \<times> bool \<times> nat \<times> nat \<Rightarrow> nat" where
  "horner = (\<lambda>(bid, t, tid, od, bg, hi). 
     ((((((((t * 2 + tid div 8) * 2 + hi) * 4 + bg) * 2 + of_bool od) * 32 + bid div 2) * 2 + tid div 4 mod 2) * 2
        + bid mod 2) * 2 + tid div 2 mod 2) * 2 + tid mod 2)"

lemma horner_sum:
  "16 * (((((((((t * 2 + g2) * 2 + hi) * 4 + bg) * 2 + od) * 32 + bh) * 2 + g1) * 2 + b0) * 2 + g0) * 2 + p)
    = (2 * t + g2) * 2 ^ 17 + bh * 2 ^ 8 + g1 * 2 ^ 7 + b0 * 2 ^ 6 + g0 * 2 ^ 5 + p * 2 ^ 4 + od * 2 ^ 13 + bg * 2 ^ 14 + hi * (2 :: nat) ^ 16"
  by simp

lemma unit_addr_horner:
  assumes "bid < 64" "t < 2 ^ 16" "tid < 16"
  shows "unit_addr (bid, t, tid, od, bg, hi) = 16 * horner (bid, t, tid, od, bg, hi)"
proof -
  note u = unat_tile_addr [OF assms]
  have "unat (tile_addr bid t tid) + unat (0x2000 :: u64) < 2 ^ 64" unfolding u using assms by simp
  then have "unat (tile_odd bid t tid) = unat (tile_addr bid t tid) + 2 ^ 13"
    by (simp add: tile_odd_def unat_word_ariths)
  then have "unit_addr (bid, t, tid, od, bg, hi) = unat (tile_addr bid t tid) + of_bool od * 2 ^ 13 + bg * 2 ^ 14 + hi * 2 ^ 16"
    by (simp add: unit_addr_def)
  then show ?thesis unfolding u horner_def prod.case horner_sum by (simp only: ac_simps)
qed

lemma digits: "(x :: nat) = 8 * (x div 8) + 4 * (x div 4 mod 2) + 2 * (x div 2 mod 2) + x mod 2"
proof -
  have "x div 2 div 2 = x div 4" "x div 4 div 2 = x div 8" by (simp_all flip: div_mult2_eq)
  then show ?thesis
    using div_mult_mod_eq [of x 2] div_mult_mod_eq [of "x div 2" 2] div_mult_mod_eq [of "x div 4" 2] by linarith
qed

lemma digits_value:
  assumes "a < 2" "b < 2" "c < 2" "d < (2 :: nat)"
  shows "(8 * a + 4 * b + 2 * c + d) div 8 = a" "(8 * a + 4 * b + 2 * c + d) div 4 mod 2 = b"
    "(8 * a + 4 * b + 2 * c + d) div 2 mod 2 = c" "(8 * a + 4 * b + 2 * c + d) mod 2 = d" "8 * a + 4 * b + 2 * c + d < 16"
  using assms by (auto simp: less_2_cases_iff)

lemma horner_inj:
  assumes "horner (bid, t, tid, od, bg, hi) = horner (bid', t', tid', od', bg', hi')"
    "bid < 64" "tid < 16" "bg < 4" "hi < 2" "bid' < 64" "tid' < 16" "bg' < 4" "hi' < 2"
  shows "(bid, t, tid, od, bg, hi) = (bid', t', tid', od', bg', hi')"
proof -
  have r: "tid mod 2 < 2" "tid' mod 2 < 2" "tid div 2 mod 2 < 2" "tid' div 2 mod 2 < 2" "bid mod 2 < 2" "bid' mod 2 < 2"
    "tid div 4 mod 2 < 2" "tid' div 4 mod 2 < 2" "bid div 2 < 32" "bid' div 2 < 32" "of_bool od < (2 :: nat)" "of_bool od' < (2 :: nat)"
    "tid div 8 < 2" "tid' div 8 < 2"
    using assms by simp_all
  note e0 = radix_inj [OF assms(1) [unfolded horner_def prod.case] r(1,2)]
  note e1 = radix_inj [OF conjunct1 [OF e0] r(3,4)]
  note e2 = radix_inj [OF conjunct1 [OF e1] r(5,6)]
  note e3 = radix_inj [OF conjunct1 [OF e2] r(7,8)]
  note e4 = radix_inj [OF conjunct1 [OF e3] r(9,10)]
  note e5 = radix_inj [OF conjunct1 [OF e4] r(11,12)]
  note e6 = radix_inj [OF conjunct1 [OF e5] assms(4,8)]
  note e7 = radix_inj [OF conjunct1 [OF e6] assms(5,9)]
  note e8 = radix_inj [OF conjunct1 [OF e7] r(13,14)]
  have "bid = bid'" using div_mult_mod_eq [of bid 2] div_mult_mod_eq [of bid' 2] conjunct2 [OF e2] conjunct2 [OF e4] by linarith
  moreover have "tid = tid'"
  proof -
    have "tid = 8 * (tid div 8) + 4 * (tid div 4 mod 2) + 2 * (tid div 2 mod 2) + tid mod 2" by (rule digits)
    also have "\<dots> = 8 * (tid' div 8) + 4 * (tid' div 4 mod 2) + 2 * (tid' div 2 mod 2) + tid' mod 2"
      by (simp only: conjunct2 [OF e0] conjunct2 [OF e1] conjunct2 [OF e3] conjunct2 [OF e8])
    also have "\<dots> = tid'" by (rule digits [symmetric])
    finally show ?thesis .
  qed
  moreover have "od = od'" using e5 by (cases od; cases od') simp_all
  ultimately show ?thesis using e6 e7 e8 by simp
qed

lemma horner_surj:
  assumes "m < n * 2 ^ 14"
  shows "\<exists>bid t tid od bg hi. bid < 64 \<and> t < n \<and> tid < 16 \<and> bg < 4 \<and> hi < 2 \<and> m = horner (bid, t, tid, od, bg, hi)"
proof -
  define q1 where "q1 = m div 2"
  define q2 where "q2 = q1 div 2"
  define q3 where "q3 = q2 div 2"
  define q4 where "q4 = q3 div 2"
  define q5 where "q5 = q4 div 32"
  define q6 where "q6 = q5 div 2"
  define q7 where "q7 = q6 div 4"
  define q8 where "q8 = q7 div 2"
  define t where "t = q8 div 2"
  let ?tid = "8 * (q8 mod 2) + 4 * (q3 mod 2) + 2 * (q1 mod 2) + m mod 2" and ?bid = "2 * (q4 mod 32) + q2 mod 2"
  have e: "m = q1 * 2 + m mod 2" "q1 = q2 * 2 + q1 mod 2" "q2 = q3 * 2 + q2 mod 2" "q3 = q4 * 2 + q3 mod 2"
    "q4 = q5 * 32 + q4 mod 32" "q5 = q6 * 2 + q5 mod 2" "q6 = q7 * 4 + q6 mod 4" "q7 = q8 * 2 + q7 mod 2" "q8 = t * 2 + q8 mod 2"
    unfolding q1_def q2_def q3_def q4_def q5_def q6_def q7_def q8_def t_def by (rule div_mult_mod_eq [symmetric])+
  have d: "?tid div 8 = q8 mod 2" "?tid div 4 mod 2 = q3 mod 2" "?tid div 2 mod 2 = q1 mod 2" "?tid mod 2 = m mod 2" "?tid < 16"
    by (rule digits_value; simp)+
  have d': "?bid div 2 = q4 mod 32" "?bid mod 2 = q2 mod 2" "?bid < 64" by simp_all
  have od: "of_bool (q5 mod 2 = 1) = q5 mod 2" by (cases "q5 mod 2 = 1") auto
  have "m = horner (?bid, t, ?tid, q5 mod 2 = 1, q6 mod 4, q7 mod 2)"
    unfolding horner_def prod.case d d' od by (simp only: e [symmetric])
  moreover have "m < n * 16384" using assms by simp
  then have "t < n" using e by linarith
  moreover have "m = m" ..
  ultimately show ?thesis using d(5) d'(3) by (metis mod_less_divisor zero_less_numeral)
qed

text \<open>C8: launched with \<open>n\<close> tiles, an element-wise kernel makes the units of all channels work on each 16-byte piece of the first
  \<open>n\<close> times 256 KiB of a buffer exactly once, and on nothing else.
\<close>

theorem elt_kernels_cover:
  assumes "n \<le> 2 ^ 16"
  shows "bij_betw unit_addr ({..<64} \<times> {..<n} \<times> {..<16} \<times> UNIV \<times> {..<4} \<times> {..<2}) ((*) 16 ` {..<n * 2 ^ 14})"
proof -
  let ?D = "{..<64} \<times> {..<n} \<times> {..<16} \<times> UNIV \<times> {..<4} \<times> {..<(2 :: nat)} :: (nat \<times> nat \<times> nat \<times> bool \<times> nat \<times> nat) set"
  have u: "unit_addr x = 16 * horner x" if "x \<in> ?D" for x
    using that assms by (auto intro!: unit_addr_horner)
  have lt: "horner x < n * 2 ^ 14" if "x \<in> ?D" for x
  proof -
    obtain bid t tid od bg hi where x: "x = (bid, t, tid, od, bg, hi)" by (cases x) auto
    have "t + 1 \<le> n" "tid div 8 < 2" "hi < 2" "bg < 4" "of_bool od < (2 :: nat)" "bid div 2 < 32"
      "tid div 4 mod 2 < 2" "bid mod 2 < 2" "tid div 2 mod 2 < 2" "tid mod 2 < 2" using that x by auto
    then have "horner x < n * 2 * 2 * 4 * 2 * 32 * 2 * 2 * 2 * 2"
      unfolding x horner_def prod.case by (intro radix_bound) simp_all
    then show ?thesis by simp
  qed
  have "inj_on unit_addr ?D"
  proof (rule inj_onI)
    fix x y assume d: "x \<in> ?D" "y \<in> ?D" and "unit_addr x = unit_addr y"
    then have "horner x = horner y" using u by simp
    moreover obtain bid t tid od bg hi bid' t' tid' od' bg' hi' where xy: "x = (bid, t, tid, od, bg, hi)" "y = (bid', t', tid', od', bg', hi')"
      by (cases x; cases y) auto
    ultimately show "x = y" unfolding xy using d by (intro horner_inj) (auto simp: xy)
  qed
  moreover have "unit_addr ` ?D = (*) 16 ` {..<n * 2 ^ 14}"
  proof (rule set_eqI, rule iffI)
    fix a assume "a \<in> unit_addr ` ?D"
    then show "a \<in> (*) 16 ` {..<n * 2 ^ 14}" using u lt by auto
  next
    fix a assume "a \<in> (*) 16 ` {..<n * 2 ^ 14}"
    then obtain m where m: "m < n * 2 ^ 14" "a = 16 * m" by auto
    then obtain bid t tid od bg hi where "bid < 64 \<and> t < n \<and> tid < 16 \<and> bg < 4 \<and> hi < 2 \<and> m = horner (bid, t, tid, od, bg, hi)"
      using horner_surj [OF m(1)] by blast
    then have "(bid, t, tid, od, bg, hi) \<in> ?D" "a = unit_addr (bid, t, tid, od, bg, hi)" using u m by auto
    then show "a \<in> unit_addr ` ?D" by blast
  qed
  ultimately show ?thesis by (simp add: bij_betw_def)
qed

lemma elt_kernels_cover_witness:
  "bij_betw unit_addr ({..<64} \<times> {..<3} \<times> {..<16} \<times> UNIV \<times> {..<4} \<times> {..<2}) ((*) 16 ` {..<3 * 2 ^ 14})"
  by (rule elt_kernels_cover) simp

end
