(* ===== verification/GemmKernels.thy ===== *)
theory GemmKernels
  imports KernelBase Launch WeightLayout
begin

text \<open>
  The kernels of matrix products (\<open>runtime/include/executor/hip/pim_gemm_kernels.pimk\<close>): the accesses by which a
  block multiplies its part of the weight, and, for the hardware build, the summation of the partial results. The four
  kernels differ in the two loops over the input tiles (generic or of fixed length) and in the order of the outer loops.
\<close>

section \<open>One pass over the input\<close>

text \<open>\<open>rd p n\<close> is the content of device memory, \<open>n\<close> bytes from \<open>p\<close> on.\<close>

type_synonym dev_read = "u64 \<Rightarrow> nat \<Rightarrow> u8 list"

abbreviation ptr :: "addr \<Rightarrow> u64" where "ptr p \<equiv> of_nat p"

definition gemv_hab_to_hab_pim :: "u8 list" where
  "gemv_hab_to_hab_pim = 0x01 # replicate 11 0 @ [0x01] @ replicate 8 0 @ [0x01] @ replicate 10 0"

definition gemm_enter :: "u64 \<Rightarrow> nat \<Rightarrow> u64 \<Rightarrow> DevCmd list" where
  "gemm_enter ctr ch off =
     (let a = ctr + (addr_gen (of_nat ch) 0 0 0 0x3fff 0x0 + off)
      in [W_CMD_R a (bytes16 gemv_hab_to_hab_pim off), R_CMD a, B_CMD 1])"

text \<open>
  An input tile: 32 bytes of the input go to the register file, then the eight bursts of the weight are read that are
  multiplied with them, from two rows of the even (0) or odd (1) bank.
\<close>

definition grf_addr :: "nat \<Rightarrow> u32 \<Rightarrow> nat \<Rightarrow> u64" where
  "grf_addr ch bank tid = addr_gen (of_nat ch) 0 0 bank 0x3fff (0x8 + of_nat (gidx tid)) + offset tid"

definition input_addr :: "u64 \<Rightarrow> nat \<Rightarrow> nat \<Rightarrow> u64" where
  "input_addr i_offset i_idx tid = push_bit 5 (i_offset + of_nat (i_idx * 8 + gidx tid)) + offset tid"

definition weight_addr :: "nat \<Rightarrow> u32 \<Rightarrow> nat \<Rightarrow> nat \<Rightarrow> nat \<Rightarrow> u64" where
  "weight_addr ch bank row c tid = addr_gen (of_nat ch) 0 0 bank (of_nat row) (of_nat (gidx tid + c)) + offset tid"

definition grf_tile :: "dev_read \<Rightarrow> u64 \<Rightarrow> u64 \<Rightarrow> u64 \<Rightarrow> nat \<Rightarrow> nat \<Rightarrow> u32 \<Rightarrow> u64 \<Rightarrow> nat \<Rightarrow> nat \<Rightarrow> DevCmd list" where
  "grf_tile rd ctr input weight ch tid bank i_offset r_offset i_idx =
     (let a = ctr + grf_addr ch bank tid;
          even_row = (i_idx div 2 + r_offset) * 2;
          odd_row = even_row + 1;
          burst = (\<lambda>row c. R_CMD (weight + weight_addr ch bank row c tid))
      in [W_CMD_R a (rd (input + input_addr i_offset i_idx tid) 16), R_CMD a, B_CMD 1,
          burst even_row 0, burst even_row 8, burst even_row 16, burst even_row 24,
          burst odd_row 0, burst odd_row 8, burst odd_row 16, burst odd_row 24, B_CMD 1])"

text \<open>The partial sums go to the odd bank.\<close>

definition psum_addr :: "nat \<Rightarrow> nat \<Rightarrow> nat \<Rightarrow> u64" where
  "psum_addr ch loc tid = addr_gen (of_nat ch) 0 0 1 (of_nat (loc div 32)) (of_nat (loc mod 32)) + offset tid"

definition gemm_store :: "u64 \<Rightarrow> nat \<Rightarrow> nat \<Rightarrow> nat \<Rightarrow> DevCmd list" where
  "gemm_store psum ch loc tid =
     (let a = psum + psum_addr ch loc tid in [W_CMD a, W_CMD a, R_CMD a, B_CMD 1])"

definition gemm_pass ::
    "dev_read \<Rightarrow> u64 \<Rightarrow> u64 \<Rightarrow> u64 \<Rightarrow> u64 \<Rightarrow> nat list \<Rightarrow> nat list \<Rightarrow> u64 \<Rightarrow> nat \<Rightarrow> nat \<Rightarrow> nat \<Rightarrow> nat \<Rightarrow> DevCmd list" where
  "gemm_pass rd ctr input weight psum evens odds i_offset r_offset loc ch tid =
     gemm_enter ctr ch (offset tid)
     @ concat (map (grf_tile rd ctr input weight ch tid 0 i_offset r_offset) evens)
     @ concat (map (grf_tile rd ctr input weight ch tid 1 i_offset r_offset) odds)
     @ gemm_store psum ch loc tid
     @ change_habpim_hab ctr ch (offset tid)"

text \<open>The values of a loop variable that starts at \<open>i\<close> and advances by two below \<open>n\<close>.\<close>

function by_two :: "nat \<Rightarrow> nat \<Rightarrow> nat list" where
  "by_two i n = (if i < n then i # by_two (i + 2) n else [])"
  by pat_completeness auto
termination by (relation "measure (\<lambda>(i, n). n - i)") auto

declare by_two.simps [simp del]

text \<open>The statements around the computation.\<close>

definition gemm_frame :: "dev_read \<Rightarrow> GemmArgs \<Rightarrow> nat \<Rightarrow> (nat \<Rightarrow> DevCmd list) \<Rightarrow> Phase list" where
  "gemm_frame rd a bid compute =
     (let ctr = ptr (ga_base a); crf = rd (ptr (ga_crf a)) (nat (ga_crf_size a))
      in [Below 32 (\<lambda>tid. park_in ctr bid (gidx tid) 4 (offset tid)),
          Below 2 (\<lambda>tid. change_sb_hab ctr bid (offset tid)),
          Below (nat (drop_bit 4 (ga_crf_size a))) (\<lambda>tid. program_crf_mod ctr bid tid (gidx tid) crf (offset tid)),
          Below 16 compute,
          Below 4 (\<lambda>tid. change_hab_sb ctr bid (gidx tid) (offset tid)),
          Below 32 (\<lambda>tid. park_out ctr bid (gidx tid) 4 (offset tid))])"

section \<open>The aligned kernels\<close>

text \<open>
  Each iteration works on the next matrix of the weight; every row of the input is multiplied with all output tiles
  and counts as one product (\<open>gemv_cnt\<close>).
\<close>

fun aligned_iters :: "(u64 \<Rightarrow> nat \<Rightarrow> nat \<Rightarrow> DevCmd list) \<Rightarrow> u64 \<Rightarrow> nat \<Rightarrow> nat \<Rightarrow> nat \<Rightarrow> u64 \<Rightarrow> nat \<Rightarrow> DevCmd list" where
  "aligned_iters pass step h n_out 0 weight gemv_cnt = []"
| "aligned_iters pass step h n_out (Suc k) weight gemv_cnt =
     concat (map (\<lambda>in_idx. concat (map (pass weight (gemv_cnt + in_idx)) [0..<n_out])) [0..<h])
     @ aligned_iters pass step h n_out k (weight + step) (gemv_cnt + h)"

definition aligned_pass :: "dev_read \<Rightarrow> GemmArgs \<Rightarrow> nat list \<Rightarrow> nat list \<Rightarrow> nat \<Rightarrow> nat \<Rightarrow> u64 \<Rightarrow> nat \<Rightarrow> nat \<Rightarrow> DevCmd list" where
  "aligned_pass rd a evens odds ch tid weight gemv_cnt o_idx =
     (let n_in = nat (ga_in_tile a); n_out = nat (ga_out_tile a)
      in gemm_pass rd (ptr (ga_base a)) (ptr (ga_input a)) weight (ptr (ga_tmp a)) evens odds
           (of_nat (gemv_cnt * (n_in * 8))) (o_idx * n_in div 2) (gemv_cnt * n_out * 8 + o_idx * 8 + gidx tid) ch tid)"

definition aligned_compute :: "dev_read \<Rightarrow> GemmArgs \<Rightarrow> nat list \<Rightarrow> nat list \<Rightarrow> nat \<Rightarrow> nat \<Rightarrow> DevCmd list" where
  "aligned_compute rd a evens odds ch tid =
     aligned_iters (aligned_pass rd a evens odds ch tid) (of_int (i32 (uint (ga_in_w a) * uint (ga_out_w a) * 2)))
       (nat (sint (ga_in_h a))) (nat (ga_out_tile a)) (nat (ga_iter_cnt a)) (ptr (ga_weight a)) 0"

definition pim_aligned_gemm_code :: "dev_read \<Rightarrow> GemmArgs \<Rightarrow> nat \<Rightarrow> Phase list" where
  "pim_aligned_gemm_code rd a bid = gemm_frame rd a bid
     (aligned_compute rd a (by_two 0 (nat (ga_in_tile a))) (by_two 1 (nat (ga_in_tile a))) bid)"

definition pim_aligned_gemm_8tile_code :: "dev_read \<Rightarrow> GemmArgs \<Rightarrow> nat \<Rightarrow> Phase list" where
  "pim_aligned_gemm_8tile_code rd a bid = gemm_frame rd a bid
     (aligned_compute rd a (map (\<lambda>i. 2 * i) [0..<4]) (map (\<lambda>i. 1 + 2 * i) [0..<4]) bid)"

section \<open>The channel-wise kernels\<close>

text \<open>Each group of channels works on one row of the input; an out width of 0 or above 4096 divides by zero.\<close>

definition ops_per_pass :: "GemmArgs \<Rightarrow> int option" where
  "ops_per_pass a =
     (let w = sint (ga_out_w a) in if w = 0 \<or> cdiv 4096 w = 0 then None else Some (cdiv 4096 w))"

definition chs_per_op :: "GemmArgs \<Rightarrow> int option" where
  "chs_per_op a = Option.bind (ops_per_pass a) (\<lambda>k. if cdiv 64 k = 0 then None else Some (cdiv 64 k))"

fun chwise_iters :: "(u64 \<Rightarrow> u64 \<Rightarrow> u64 \<Rightarrow> DevCmd list) \<Rightarrow> u64 \<Rightarrow> u64 \<Rightarrow> nat \<Rightarrow> nat \<Rightarrow> u64 \<Rightarrow> u64 \<Rightarrow> u64 \<Rightarrow> DevCmd list" where
  "chwise_iters pass in_step w_step h 0 input weight psum = []"
| "chwise_iters pass in_step w_step h (Suc k) input weight psum =
     concat (map (\<lambda>in_idx. pass input weight psum) [0..<h])
     @ chwise_iters pass in_step w_step h k (input + in_step) (weight + w_step) (psum + push_bit 18 1)"

definition chwise_compute :: "dev_read \<Rightarrow> GemmArgs \<Rightarrow> int \<Rightarrow> int \<Rightarrow> nat list \<Rightarrow> nat list \<Rightarrow> nat \<Rightarrow> nat \<Rightarrow> DevCmd list" where
  "chwise_compute rd a ops chs evens odds ch tid =
     chwise_iters
       (\<lambda>input weight psum. gemm_pass rd (ptr (ga_base a)) input weight psum evens odds 0 0 (gidx tid) ch tid)
       (of_int (i32 (uint (ga_in_w a) * ops * 2))) (of_int (i32 (uint (ga_in_w a) * 2 ^ 13)))
       (nat (sint (ga_in_h a))) (nat (ga_iter_cnt a))
       (ptr (ga_input a) + of_int (int ch div (chs mod 2 ^ 32) * uint (ga_in_w a) * 2 mod 2 ^ 32)) (ptr (ga_weight a)) (ptr (ga_tmp a))"

definition pim_chwise_gemm_code :: "dev_read \<Rightarrow> GemmArgs \<Rightarrow> nat \<Rightarrow> Phase list option" where
  "pim_chwise_gemm_code rd a bid = do {
     ops \<leftarrow> ops_per_pass a;
     chs \<leftarrow> chs_per_op a;
     Some (gemm_frame rd a bid
       (chwise_compute rd a ops chs (by_two 0 (nat (ga_in_tile a))) (by_two 1 (nat (ga_in_tile a))) bid))
   }"

definition pim_chwise_gemm_32tile_code :: "dev_read \<Rightarrow> GemmArgs \<Rightarrow> nat \<Rightarrow> Phase list option" where
  "pim_chwise_gemm_32tile_code rd a bid = do {
     ops \<leftarrow> ops_per_pass a;
     chs \<leftarrow> chs_per_op a;
     Some (gemm_frame rd a bid
       (chwise_compute rd a ops chs (map (\<lambda>i. 2 * i) [0..<16]) (map (\<lambda>i. 1 + 2 * i) [0..<16]) bid))
   }"

text \<open>The division fails for fewer than 64 outputs too: a group of channels would then serve less than one channel.\<close>

lemma chs_per_op_Some:
  assumes "0 < sint (ga_out_w a)"
  shows "chs_per_op a \<noteq> None \<longleftrightarrow> 64 \<le> sint (ga_out_w a) \<and> sint (ga_out_w a) \<le> 4096"
proof -
  define w where "w = sint (ga_out_w a)"
  have w: "0 < w" using assms by (simp add: w_def)
  have c: "cdiv 4096 w = 4096 div w" using w by (simp add: cdiv_nonneg)
  have k: "0 < 4096 div w \<longleftrightarrow> w \<le> 4096" using w by (simp add: pos_imp_zdiv_pos_iff)
  show ?thesis
  proof (cases "w \<le> 4096")
    case True
    define q where "q = 4096 div w"
    have q: "0 < q" using k True by (simp add: q_def)
    have "4096 mod w < w" "4096 = w * q + 4096 mod w" "0 \<le> 4096 mod w" using w by (simp_all add: q_def)
    then have "q \<le> 64 \<longleftrightarrow> 64 \<le> w" using w q mult_mono [of w 63 q 64] mult_mono [of 65 q 64 w] mult_mono [of w 63 65 q]
      mult_mono [of w 63 q q] mult_mono [of 64 w 65 q] by (cases "w \<le> 63"; cases "q \<le> 64"; simp)
    moreover have "0 < 64 div q \<longleftrightarrow> q \<le> 64" "0 \<le> 64 div q" using q by (simp_all add: pos_imp_zdiv_pos_iff pos_imp_zdiv_nonneg_iff)
    moreover have "cdiv 64 q = 64 div q" using q by (simp add: cdiv_nonneg)
    ultimately show ?thesis using True w q
      by (auto simp: chs_per_op_def ops_per_pass_def w_def [symmetric] c q_def [symmetric] Let_def)
  next
    case False
    then have "4096 div w = 0" using w by simp
    then show ?thesis using False by (simp add: chs_per_op_def ops_per_pass_def w_def [symmetric] c Let_def)
  qed
qed

text \<open>The code of a launch.\<close>

definition gemm_code :: "dev_read \<Rightarrow> GemmKernel \<Rightarrow> GemmArgs \<Rightarrow> nat \<Rightarrow> Phase list option" where
  "gemm_code rd kern a bid = (case kern of
     pim_aligned_gemm_bias_relu_8tile_fp16 \<Rightarrow> Some (pim_aligned_gemm_8tile_code rd a bid)
   | pim_aligned_gemm_bias_relu_fp16 \<Rightarrow> Some (pim_aligned_gemm_code rd a bid)
   | pim_chwise_gemm_bias_relu_32tile_fp16 \<Rightarrow> pim_chwise_gemm_32tile_code rd a bid
   | pim_chwise_gemm_bias_relu_fp16 \<Rightarrow> pim_chwise_gemm_code rd a bid)"

section \<open>Summing the partial results\<close>

text \<open>
  The arithmetic on halves: addition and the test for a negative number. \<open>rdh\<close> reads a half from device memory.
\<close>

record HalfOps =
  hf_add :: "u16 \<Rightarrow> u16 \<Rightarrow> u16"
  hf_neg :: "u16 \<Rightarrow> bool"

definition sum16 :: "HalfOps \<Rightarrow> (u64 \<Rightarrow> u16) \<Rightarrow> u64 \<Rightarrow> u64 \<Rightarrow> u16" where
  "sum16 H rdh psum a = foldl (hf_add H) 0 (map (\<lambda>ti. rdh (psum + 2 * (drop_bit 1 a + of_nat ti))) [0..<16])"

definition reduce_addr :: "nat \<Rightarrow> nat \<Rightarrow> nat \<Rightarrow> nat \<Rightarrow> u64" where
  "reduce_addr ch tid row col =
     addr_gen (of_nat ch) 0 (of_nat (tid div 16)) (of_nat (tid div 8 mod 2 * 2 + 1)) (of_nat row) (of_nat col)"

definition finish_half :: "HalfOps \<Rightarrow> (u64 \<Rightarrow> u16) \<Rightarrow> GemmArgs \<Rightarrow> nat \<Rightarrow> u16 \<Rightarrow> u16" where
  "finish_half H rdh a out_offset t =
     (let t = (if ga_is_bias a then hf_add H t (rdh (ptr (ga_bias a) + 2 * of_nat out_offset)) else t)
      in if ga_is_relu a \<and> hf_neg H t then 0 else t)"

text \<open>The halves a thread writes: index in the output and value, in order.\<close>

definition aligned_reduce_one :: "HalfOps \<Rightarrow> (u64 \<Rightarrow> u16) \<Rightarrow> GemmArgs \<Rightarrow> nat \<Rightarrow> nat \<Rightarrow> nat \<Rightarrow> nat \<Rightarrow> (nat \<times> u16) list" where
  "aligned_reduce_one H rdh a ch tid gemv_cnt oi =
     (let out_idx = oi * 4096 + (ch * 64 + tid); out_w = nat (sint (ga_out_w a))
      in if out_idx < out_w
         then let li = gemv_cnt * nat (ga_out_tile a) + oi;
                  addr = reduce_addr ch tid (li div 4) (tid mod 8 + li mod 4 * 8);
                  out_offset = gemv_cnt * out_w + out_idx
              in [(out_offset, finish_half H rdh a out_offset (sum16 H rdh (ptr (ga_tmp a)) addr))]
         else [])"

definition aligned_reduce :: "HalfOps \<Rightarrow> (u64 \<Rightarrow> u16) \<Rightarrow> GemmArgs \<Rightarrow> nat \<Rightarrow> nat \<Rightarrow> (nat \<times> u16) list" where
  "aligned_reduce H rdh a ch tid =
     concat (map (\<lambda>gemv_cnt. concat (map (aligned_reduce_one H rdh a ch tid gemv_cnt) [0..<nat (ga_out_tile a)]))
       [0..<nat (ga_iter_cnt a) * nat (sint (ga_in_h a))])"

definition chwise_reduce :: "HalfOps \<Rightarrow> (u64 \<Rightarrow> u16) \<Rightarrow> GemmArgs \<Rightarrow> nat \<Rightarrow> nat \<Rightarrow> (nat \<times> u16) list" where
  "chwise_reduce H rdh a ch tid =
     concat (map (\<lambda>i. concat (map (\<lambda>in_idx.
        let out_offset = ch * 64 + tid
        in [(i * 4096 + out_offset, finish_half H rdh a out_offset
              (sum16 H rdh (ptr (ga_tmp a) + of_nat (i * 2 ^ 18)) (reduce_addr ch tid 0 (tid mod 8))))])
        [0..<nat (sint (ga_in_h a))])) [0..<nat (ga_iter_cnt a)])"

text \<open>The arguments of a product on which the properties are instantiated.\<close>

definition gemm_example :: GemmArgs where
  "gemm_example = \<lparr>ga_base = 0, ga_input = 2 ^ 20, ga_weight = 2 ^ 21, ga_bias = 2 ^ 22, ga_output = 2 ^ 23, ga_tmp = 2 ^ 24,
     ga_iter_cnt = 1, ga_in_h = 2, ga_in_w = 1024, ga_out_w = 4096, ga_in_tile = 8, ga_out_tile = 1, ga_is_bias = True,
     ga_is_relu = True, ga_crf = 2 ^ 25, ga_crf_size = 32\<rparr>"

section \<open>The kernels of fixed length\<close>

lemma by_two_even: "by_two (2 * i) (2 * (i + H)) = map (\<lambda>j. 2 * (i + j)) [0..<H]"
proof (induction H arbitrary: i)
  case 0
  then show ?case by (subst by_two.simps) simp
next
  case (Suc H)
  have "by_two (2 * i) (2 * (i + Suc H)) = 2 * i # by_two (2 * Suc i) (2 * (Suc i + H))"
    by (subst by_two.simps) (simp add: algebra_simps)
  also have "\<dots> = 2 * i # map (\<lambda>j. 2 * (Suc i + j)) [0..<H]" using Suc.IH [of "Suc i"] by simp
  also have "\<dots> = map (\<lambda>j. 2 * (i + j)) [0..<Suc H]" by (simp add: upt_conv_Cons map_Suc_upt [symmetric] del: upt_Suc)
  finally show ?case .
qed

lemma by_two_odd: "by_two (1 + 2 * i) (2 * (i + H)) = map (\<lambda>j. 1 + 2 * (i + j)) [0..<H]"
proof (induction H arbitrary: i)
  case 0
  then show ?case by (subst by_two.simps) simp
next
  case (Suc H)
  have "by_two (1 + 2 * i) (2 * (i + Suc H)) = (1 + 2 * i) # by_two (1 + 2 * Suc i) (2 * (Suc i + H))"
    by (subst by_two.simps) (simp add: algebra_simps)
  also have "\<dots> = (1 + 2 * i) # map (\<lambda>j. 1 + 2 * (Suc i + j)) [0..<H]" using Suc.IH [of "Suc i"] by simp
  also have "\<dots> = map (\<lambda>j. 1 + 2 * (i + j)) [0..<Suc H]" by (simp add: upt_conv_Cons map_Suc_upt [symmetric] del: upt_Suc)
  finally show ?case .
qed

lemma by_two_tiles:
  "by_two 0 (2 * H) = map (\<lambda>i. 2 * i) [0..<H]" "by_two 1 (2 * H) = map (\<lambda>i. 1 + 2 * i) [0..<H]"
  using by_two_even [of 0 H] by_two_odd [of 0 H] by simp_all

lemma kernel_selection:
  "gemm_code rd (aligned_kernel (ga_in_tile a)) a bid = gemm_code rd pim_aligned_gemm_bias_relu_fp16 a bid"
  "gemm_code rd (chwise_kernel (ga_in_tile a)) a bid = gemm_code rd pim_chwise_gemm_bias_relu_fp16 a bid"
proof -
  have "8 = 2 * (4 :: nat)" "32 = 2 * (16 :: nat)" by simp_all
  note by_two_tiles [of 4, folded this] by_two_tiles [of 16, folded this]
  then show "gemm_code rd (aligned_kernel (ga_in_tile a)) a bid = gemm_code rd pim_aligned_gemm_bias_relu_fp16 a bid"
    "gemm_code rd (chwise_kernel (ga_in_tile a)) a bid = gemm_code rd pim_chwise_gemm_bias_relu_fp16 a bid"
    by (simp_all add: gemm_code_def aligned_kernel_def chwise_kernel_def pim_aligned_gemm_code_def pim_aligned_gemm_8tile_code_def
        pim_chwise_gemm_code_def pim_chwise_gemm_32tile_code_def)
qed

text \<open>C11: whichever kernel the executor selects for the number of input tiles, its threads run the code of the generic
  kernel: the kernels of fixed length are chosen only where they agree with it.
\<close>

theorem specialised_kernels_agree:
  "gemm_code rd (aligned_kernel (ga_in_tile a)) a bid = gemm_code rd pim_aligned_gemm_bias_relu_fp16 a bid
    \<and> gemm_code rd (chwise_kernel (ga_in_tile a)) a bid = gemm_code rd pim_chwise_gemm_bias_relu_fp16 a bid"
  by (simp add: kernel_selection)

text \<open>C18: the channel-wise kernels have code exactly for 64 to 4096 outputs: outside this range the number of channels that
  share a row of the input, \<open>64 / (4096 / out_w)\<close>, is undefined or a divisor of zero, although the host selects
  these kernels also for narrower outputs.
\<close>

theorem chwise_kernel_defined:
  assumes "0 < sint (ga_out_w a)"
  shows "gemm_code rd (chwise_kernel (ga_in_tile a)) a bid \<noteq> None \<longleftrightarrow> 64 \<le> sint (ga_out_w a) \<and> sint (ga_out_w a) \<le> 4096"
  unfolding chs_per_op_Some [OF assms, symmetric] kernel_selection
  by (cases "ops_per_pass a") (simp_all add: gemm_code_def pim_chwise_gemm_code_def chs_per_op_def split: bind_splits)

lemma chwise_kernel_defined_witness:
  "gemm_code (\<lambda>_ n. replicate n 0) (chwise_kernel (ga_in_tile (gemm_example\<lparr>ga_out_w := 32\<rparr>))) (gemm_example\<lparr>ga_out_w := 32\<rparr>) 0 = None
    \<and> gemm_code (\<lambda>_ n. replicate n 0) (chwise_kernel (ga_in_tile gemm_example)) gemm_example 0 \<noteq> None"
  using chwise_kernel_defined [of "gemm_example\<lparr>ga_out_w := 32\<rparr>" "\<lambda>_ n. replicate n 0" 0]
    chwise_kernel_defined [of gemm_example "\<lambda>_ n. replicate n 0" 0] by (simp add: gemm_example_def)

section \<open>The weight is read where the conversion put it\<close>

text \<open>The address that unit \<open>bg, hi\<close> uses when address \<open>a\<close> of bank group 0 and bank 0 or 1 is accessed.\<close>

definition unit_of :: "nat \<Rightarrow> nat \<Rightarrow> u64 \<Rightarrow> u64" where
  "unit_of bg hi a = a + of_nat (bg * 2 ^ 14 + hi * 2 ^ 16)"

lemma unit_of_addr_gen:
  assumes "ch < 64" "bg < 4" "hi < 2" "bank < 2" "row < 2 ^ 14" "col < 32"
  shows "unit_of bg hi (addr_gen (of_nat ch) 0 0 (of_nat bank) (of_nat row) (of_nat col))
    = addr_gen (of_nat ch) 0 (of_nat bg) (of_nat (hi * 2 + bank)) (of_nat row) (of_nat col)"
proof -
  have u: "unat (of_nat ch :: u32) = ch" "unat (of_nat bg :: u32) = bg" "unat (of_nat bank :: u32) = bank"
    "unat (of_nat (hi * 2 + bank) :: u32) = hi * 2 + bank" "unat (of_nat row :: u32) = row" "unat (of_nat col :: u32) = col"
    using assms by (simp_all add: unat_of_nat_u32 del: of_nat_add of_nat_mult)
  have ok: "coord_ok (of_nat ch, 0, 0, of_nat bank, of_nat row, of_nat col)"
    "coord_ok (of_nat ch, 0, of_nat bg, of_nat (hi * 2 + bank), of_nat row, of_nat col)"
    unfolding coord_ok_def prod.case word_less_nat_alt u using assms by simp_all
  let ?a = "addr_gen (of_nat ch) 0 0 (of_nat bank) (of_nat row) (of_nat col)"
  have d: "(hi * 2 + bank) div 2 = hi" "(hi * 2 + bank) mod 2 = bank" "bank div 2 = 0" "bank mod 2 = bank" using assms by simp_all
  have v: "unat (of_nat (bg * 2 ^ 14 + hi * 2 ^ 16) :: u64) = bg * 2 ^ 14 + hi * 2 ^ 16"
    using assms by (intro unat_of_nat_u64) simp
  have s: "unat ?a + (bg * 2 ^ 14 + hi * 2 ^ 16)
      = unat (addr_gen (of_nat ch) 0 (of_nat bg) (of_nat (hi * 2 + bank)) (of_nat row) (of_nat col))"
    unfolding unat_addr_gen [OF ok(1)] unat_addr_gen [OF ok(2)] u d by simp
  then have "unat ?a + unat (of_nat (bg * 2 ^ 14 + hi * 2 ^ 16) :: u64) < 2 ^ 64" unfolding v s using unsigned_less [of "addr_gen (of_nat ch) 0 (of_nat bg) (of_nat (hi * 2 + bank)) (of_nat row) (of_nat col)"] by simp
  then have "unat (unit_of bg hi ?a) = unat ?a + (bg * 2 ^ 14 + hi * 2 ^ 16)"
    unfolding unit_of_def using v by (simp only: unat_word_ariths) simp
  then show ?thesis using s by (simp add: word_unat_eq_iff)
qed

text \<open>Burst \<open>s\<close> of input tile \<open>k\<close> for output tile \<open>oi\<close>: its row and column, as one position.\<close>

lemma burst_position:
  fixes oi H k s g :: nat
  assumes "s < 8" "g < 8"
  shows "(k div 2 + oi * (2 * H) div 2) * 2 + s div 4 = ((oi * H + k div 2) * 64 + (s * 8 + g)) div 32"
    "g + s mod 4 * 8 = ((oi * H + k div 2) * 64 + (s * 8 + g)) mod 32"
proof -
  let ?q = "oi * H + k div 2"
  have x: "(a * 4 + b) * 8 = a * 32 + b * 8" for a b :: nat by simp
  have s: "s * 8 = s div 4 * 32 + s mod 4 * 8" unfolding x [symmetric] div_mult_mod_eq ..
  have r: "s mod 4 * 8 + g < 32" using assms(2) mod_less_divisor [of 4 s] by linarith
  have e: "?q * 64 + (s * 8 + g) = (s mod 4 * 8 + g) + (?q * 2 + s div 4) * 32"
    unfolding s by simp
  have h: "oi * (2 * H) div 2 = oi * H" by simp
  have d: "(?q * 64 + (s * 8 + g)) div 32 = ?q * 2 + s div 4" unfolding e using r by simp
  show "(k div 2 + oi * (2 * H) div 2) * 2 + s div 4 = (?q * 64 + (s * 8 + g)) div 32" unfolding d h by (simp add: add.commute)
  have "(?q * 64 + (s * 8 + g)) mod 32 = s mod 4 * 8 + g" unfolding e mod_mult_self1 using r by (rule mod_less)
  then show "g + s mod 4 * 8 = (?q * 64 + (s * 8 + g)) mod 32" by simp
qed

lemma grf_tile_nth:
  assumes "s < 8"
  shows "grf_tile rd ctr input weight ch tid bank i_off r_off k ! (3 + s)
    = R_CMD (weight + weight_addr ch bank ((k div 2 + r_off) * 2 + s div 4) (s mod 4 * 8) tid)"
proof -
  have "s = 0 \<or> s = 1 \<or> s = 2 \<or> s = 3 \<or> s = 4 \<or> s = 5 \<or> s = 6 \<or> s = 7" using assms by linarith
  then show ?thesis by (elim disjE) (simp_all add: grf_tile_def Let_def)
qed

lemma grf_tile_list:
  "grf_tile rd ctr input weight ch tid bank i_off r_off k
    = [W_CMD_R (ctr + grf_addr ch bank tid) (rd (input + input_addr i_off k tid) 16), R_CMD (ctr + grf_addr ch bank tid), B_CMD 1]
      @ map (\<lambda>s. R_CMD (weight + weight_addr ch bank ((k div 2 + r_off) * 2 + s div 4) (s mod 4 * 8) tid)) [0..<8] @ [B_CMD 1]"
  by (simp add: grf_tile_def Let_def upt_rec)

lemma unit_block_addr:
  assumes "ch < 64" "bg < 4" "hi < 2" "n < 2 ^ 19"
  shows "unit_of bg hi (addr_gen (of_nat ch) 0 0 (of_bool odd_bank) (of_nat (n div 32)) (of_nat (n mod 32)))
    = block_addr odd_bank (ch * 8 + bg * 2 + hi) n"
proof -
  have b: "(ch * 8 + bg * 2 + hi) div 8 = ch" "(ch * 8 + bg * 2 + hi) div 2 mod 4 = bg" "(ch * 8 + bg * 2 + hi) mod 2 = hi"
  proof -
    have r: "bg * 2 + hi < 8" using assms by linarith
    show "(ch * 8 + bg * 2 + hi) div 8 = ch" using r by simp
    have "(ch * 8 + bg * 2 + hi) div 2 = ch * 4 + bg" using assms(3) by simp
    then show "(ch * 8 + bg * 2 + hi) div 2 mod 4 = bg" using assms(2) by simp
    have "ch * 8 + bg * 2 + hi = hi + (ch * 4 + bg) * 2" by simp
    then show "(ch * 8 + bg * 2 + hi) mod 2 = hi" unfolding mod_mult_self1 using assms(3) by (simp only: mod_mult_self1 mod_less)
  qed
  have n: "n div 32 < 2 ^ 14" "n mod 32 < 32" using assms(4) by (simp_all add: less_mult_imp_div_less)
  show ?thesis
    unfolding block_addr_def b using unit_of_addr_gen [OF assms(1-3) _ n, of "of_bool odd_bank"]
    by (cases odd_bank) (simp_all add: add.commute)
qed

lemma aligned_copies_member:
  assumes "64 * ((Y + 1) * (2 * H + 2)) < 2 ^ 32" "oi < Y" "k < 2 * H" "b < 512" "j < 64"
  shows "(block_addr (odd k) b ((oi * H + k div 2) * 64 + j), ((oi * 512 + b) * 8 + j div 8) * (2 * H * 8) + (k * 8 + j mod 8))
    \<in> set (aligned_copies False (Y * 4096) (2 * H * 8))"
proof -
  let ?i = "((oi * (2 * H) + k) * 512 + b) * 64 + j"
  note a = slot_split [OF assms(5), of "(oi * (2 * H) + k) * 512 + b"]
  have "?i div (64 * 512) = ?i div 64 div 512" by (rule div_mult2_eq)
  then have b: "?i div 32768 = oi * (2 * H) + k" "?i div 64 mod 512 = b" unfolding a slot_split [OF assms(4)] by simp_all
  have c: "?i div 32768 div (2 * H) = oi" "?i div 32768 mod (2 * H) = k" unfolding b(1) by (rule slot_split [OF assms(3)])+
  have "oi * (2 * H) + k < Y * (2 * H)" by (rule radix_bound [OF assms(2,3)])
  then have "(oi * (2 * H) + k) * 512 + b < Y * (2 * H) * 512" by (rule radix_bound [OF _ assms(4)])
  then have "?i < Y * (2 * H) * 512 * 64" by (rule radix_bound [OF _ assms(5)])
  then have i: "?i < Y * (2 * H) * 32768" by simp
  have r: "row_base (2 * H) oi k + 64 * (k div 2) + j = (oi * H + k div 2) * 64 + j"
    by (simp add: row_base_def algebra_simps)
  have at: "copy_at False (2 * H) ?i = (block_addr (odd k) b ((oi * H + k div 2) * 64 + j),
      ((oi * 512 + b) * 8 + j div 8) * (2 * H * 8) + (k * 8 + j mod 8))"
    unfolding copy_at_def Let_def tile_chunk_radix a(2) b(2) c r by simp
  have "copy_at False (2 * H) ?i \<in> set (map (copy_at False (2 * H)) [0..<Y * (2 * H) * 32768])"
    unfolding set_map set_upt by (rule imageI) (simp only: atLeastLessThan_iff i le0 simp_thms)
  then show ?thesis unfolding at aligned_copies_flat [OF assms(1)] .
qed

lemma layout_room:
  assumes "Y * (2 * H) \<le> 2 ^ 14" "0 < Y" "0 < H"
  shows "64 * ((Y + 1) * (2 * H + 2)) < (2 :: nat) ^ 32"
proof -
  have "Y \<le> Y * (2 * H)" "2 * H \<le> Y * (2 * H)" using assms(2,3) by simp_all
  moreover have "(Y + 1) * (2 * H + 2) = Y * (2 * H) + 2 * Y + 2 * H + 2" by (simp add: algebra_simps)
  moreover have "Y * (2 * H) \<le> 16384" using assms(1) by simp
  ultimately have "(Y + 1) * (2 * H + 2) \<le> 65538" by linarith
  then show ?thesis by simp
qed

text \<open>C9: the kernel multiplies matching chunks. While input tile \<open>k\<close> is processed for output tile \<open>oi\<close>, thread pair \<open>g\<close> of channel
  \<open>ch\<close> loads chunk \<open>8 k + g\<close> of the input row; the \<open>s\<close>-th burst it then reads makes unit \<open>bg, hi\<close> read the place at which
  the conversion of the weight stored exactly this chunk of the row of output \<open>s\<close> of the unit.
\<close>

theorem aligned_gemm_reads_layout:
  assumes "Y * (2 * H) \<le> 2 ^ 14" "oi < Y" "k < 2 * H" "ch < 64" "bg < 4" "hi < 2" "s < 8" "tid < 16"
  shows "\<exists>a. grf_tile rd ctr input weight ch tid (of_bool (odd k)) i_offset (oi * (2 * H) div 2) k ! (3 + s)
        = R_CMD (weight + (a + offset tid))
    \<and> grf_tile rd ctr input weight ch tid (of_bool (odd k)) i_offset (oi * (2 * H) div 2) k ! 0
        = W_CMD_R (ctr + grf_addr ch (of_bool (odd k)) tid)
            (rd (input + (push_bit 5 (i_offset + of_nat (k * 8 + gidx tid)) + offset tid)) 16)
    \<and> (unit_of bg hi a, ((oi * 512 + (ch * 8 + bg * 2 + hi)) * 8 + s) * (2 * H * 8) + (k * 8 + gidx tid))
        \<in> set (aligned_copies False (Y * 4096) (2 * H * 8))"
proof -
  let ?n = "(oi * H + k div 2) * 64 + (s * 8 + gidx tid)"
  let ?a = "addr_gen (of_nat ch) 0 0 (of_bool (odd k)) (of_nat (?n div 32)) (of_nat (?n mod 32))"
  have g: "gidx tid < 8" using assms(8) by (simp add: gidx_def)
  have HY: "0 < H" "0 < Y" using assms(2,3) by (cases H; cases Y; simp)+
  have "s * 8 + gidx tid < 8 * 8" by (rule radix_bound [OF assms(7) g])
  then have j: "s * 8 + gidx tid < 64" by simp
  have "k div 2 < H" using assms(3) by (simp add: less_mult_imp_div_less mult.commute)
  then have "oi * H + k div 2 < Y * H" by (rule radix_bound [OF assms(2)])
  then have "?n < Y * H * 64" by (rule radix_bound [OF _ j])
  moreover have "Y * H * 64 \<le> 2 ^ 19" using assms(1) by simp
  ultimately have n: "?n < 2 ^ 19" by (rule less_le_trans)
  have b: "ch * 8 + bg * 2 + hi < 512" using assms(4-6) by linarith
  have "grf_tile rd ctr input weight ch tid (of_bool (odd k)) i_offset (oi * (2 * H) div 2) k ! (3 + s)
      = R_CMD (weight + (?a + offset tid))"
    unfolding grf_tile_nth [OF assms(7)] weight_addr_def
      burst_position [OF assms(7) g, where oi = oi and H = H and k = k] ..
  moreover have "grf_tile rd ctr input weight ch tid (of_bool (odd k)) i_offset (oi * (2 * H) div 2) k ! 0
        = W_CMD_R (ctr + grf_addr ch (of_bool (odd k)) tid)
            (rd (input + (push_bit 5 (i_offset + of_nat (k * 8 + gidx tid)) + offset tid)) 16)"
    by (simp add: grf_tile_def Let_def input_addr_def)
  moreover have "(unit_of bg hi ?a, ((oi * 512 + (ch * 8 + bg * 2 + hi)) * 8 + s) * (2 * H * 8) + (k * 8 + gidx tid))
        \<in> set (aligned_copies False (Y * 4096) (2 * H * 8))"
    using aligned_copies_member [OF layout_room [OF assms(1) HY(2,1)] assms(2,3) b j] g
    unfolding unit_block_addr [OF assms(4-6) n] by simp
  ultimately show ?thesis by blast
qed

lemma aligned_gemm_reads_layout_witness:
  "\<exists>a. grf_tile (\<lambda>_ n. replicate n 0) 0 0 0 5 9 (of_bool (odd (3 :: nat))) 0 (1 * (2 * 4) div 2) 3 ! (3 + 6) = R_CMD (0 + (a + offset 9))
    \<and> grf_tile (\<lambda>_ n. replicate n 0) 0 0 0 5 9 (of_bool (odd (3 :: nat))) 0 (1 * (2 * 4) div 2) 3 ! 0
        = W_CMD_R (0 + grf_addr 5 (of_bool (odd (3 :: nat))) 9)
            ((\<lambda>_ n. replicate n 0) (0 + (push_bit 5 (0 + of_nat (3 * 8 + gidx 9)) + offset 9)) 16)
    \<and> (unit_of 2 1 a, ((1 * 512 + (5 * 8 + 2 * 2 + 1)) * 8 + 6) * (2 * 4 * 8) + (3 * 8 + gidx 9))
        \<in> set (aligned_copies False (2 * 4096) (2 * 4 * 8))"
  by (rule aligned_gemm_reads_layout) simp_all

section \<open>Every output is summed once\<close>

text \<open>The sum for output \<open>i\<close> of product \<open>gemv_cnt\<close>: of the half that its unit stored for it in the pass of its output tile.\<close>

definition unit_sum :: "HalfOps \<Rightarrow> (u64 \<Rightarrow> u16) \<Rightarrow> GemmArgs \<Rightarrow> nat \<Rightarrow> nat \<Rightarrow> u16" where
  "unit_sum H rdh a gemv_cnt i =
     (let s = i mod 8; loc = gemv_cnt * nat (ga_out_tile a) * 8 + i div 4096 * 8 + gidx (2 * s)
      in sum16 H rdh (ptr (ga_tmp a)) (unit_of (i div 16 mod 4) (i div 8 mod 2) (psum_addr (i div 64 mod 64) loc (2 * s))))"

lemma filter_residue:
  assumes "t < (4096 :: nat)" "W \<le> n * 4096"
  shows "concat (map (\<lambda>oi. if oi * 4096 + t < W then [f (oi * 4096 + t)] else []) [0..<n])
    = map f (filter (\<lambda>i. i mod 4096 = t) [0..<W])"
proof -
  have "concat (map (\<lambda>oi. if oi * 4096 + t < W then [f (oi * 4096 + t)] else []) [0..<n])
      = map f (filter (\<lambda>i. i mod 4096 = t \<and> i < W) [0..<n * 4096])" for n
  proof (induction n)
    case (Suc n)
    have e: "(i mod 4096 = t \<and> i < W) \<longleftrightarrow> i = n * 4096 + t \<and> n * 4096 + t < W" if "i \<in> set [n * 4096..<n * 4096 + 4096]" for i
    proof -
      have i: "i = n * 4096 + (i - n * 4096)" "i - n * 4096 < 4096" using that by auto
      have "i mod 4096 = i - n * 4096" using slot_split(2) [OF i(2), of n] i(1) by simp
      then show ?thesis using that by auto
    qed
    have one: "filter (\<lambda>i. i = m \<and> Q) [a..<b] = (if a \<le> m \<and> m < b \<and> Q then [m] else [])" for m a b :: nat and Q
      by (induction b) auto
    have "filter (\<lambda>i. i mod 4096 = t \<and> i < W) [n * 4096..<n * 4096 + 4096]
        = filter (\<lambda>i. i = n * 4096 + t \<and> n * 4096 + t < W) [n * 4096..<n * 4096 + 4096]"
      by (rule filter_cong [OF refl e])
    then have "filter (\<lambda>i. i mod 4096 = t \<and> i < W) [n * 4096..<n * 4096 + 4096] = (if n * 4096 + t < W then [n * 4096 + t] else [])"
      unfolding one using assms(1) by simp
    moreover have "[0..<Suc n * 4096] = [0..<n * 4096] @ [n * 4096..<n * 4096 + 4096]"
      using upt_add_eq_append [of 0 "n * 4096" 4096] by (simp add: add.commute)
    ultimately show ?case using Suc.IH by simp
  qed simp
  moreover have "filter (\<lambda>i. i mod 4096 = t \<and> i < W) [0..<n * 4096] = filter (\<lambda>i. i mod 4096 = t) [0..<W]"
  proof -
    have "[0..<n * 4096] = [0..<W] @ [W..<n * 4096]" using upt_add_eq_append [of 0 W "n * 4096 - W"] assms(2) by simp
    moreover have "filter (\<lambda>i. i mod 4096 = t \<and> i < W) [0..<W] = filter (\<lambda>i. i mod 4096 = t) [0..<W]"
      by (rule filter_cong) auto
    moreover have "filter (\<lambda>i. i mod 4096 = t \<and> i < W) [W..<n * 4096] = []" by (auto simp: filter_empty_conv)
    ultimately show ?thesis by simp
  qed
  ultimately show ?thesis by simp
qed

lemma filter_blocks:
  "concat (map (\<lambda>c. map (f c) (filter P [0..<W])) [0..<N])
    = map (\<lambda>i. f (i div W) (i mod W)) (filter (\<lambda>i. P (i mod W)) [0..<N * W])"
proof (induction N)
  case (Suc N)
  have "[0..<Suc N * W] = [0..<N * W] @ map (\<lambda>i. N * W + i) [0..<W]"
    using upt_add_eq_append [of 0 "N * W" W] map_add_upt [of "N * W" W] by (simp add: add.commute)
  moreover have "map (\<lambda>i. f (i div W) (i mod W)) (filter (\<lambda>i. P (i mod W)) (map (\<lambda>i. N * W + i) [0..<W]))
      = map (f N) (filter P [0..<W])"
    by (auto simp: filter_map comp_def intro!: map_cong filter_cong)
  ultimately show ?case using Suc.IH by simp
qed simp

lemma reduce_addr_unit:
  assumes "ch < 64" "tid < 64" "gemv_cnt * n + oi < 2 ^ 16" "i = oi * 4096 + (ch * 64 + tid)"
  shows "reduce_addr ch tid ((gemv_cnt * n + oi) div 4) (tid mod 8 + (gemv_cnt * n + oi) mod 4 * 8)
    = unit_of (i div 16 mod 4) (i div 8 mod 2)
        (psum_addr (i div 64 mod 64) (gemv_cnt * n * 8 + i div 4096 * 8 + gidx (2 * (i mod 8))) (2 * (i mod 8)))"
    "i div 4096 = oi" "i mod 4096 = ch * 64 + tid"
proof -
  let ?li = "gemv_cnt * n + oi" and ?g = "tid mod 8"
  have t: "ch * 64 + tid < 64 * 64" by (rule radix_bound [OF assms(1,2)])
  then show tile: "i div 4096 = oi" "i mod 4096 = ch * 64 + tid" unfolding assms(4) by simp_all
  have e: "i = (oi * 64 + ch) * 64 + tid" unfolding assms(4) by simp
  have i64: "i div 64 = oi * 64 + ch" "i mod 64 = tid" unfolding e by (rule slot_split [OF assms(2)])+
  have c: "i div 64 mod 64 = ch" unfolding i64 by (rule slot_split(2) [OF assms(1)])
  have m: "x mod 64 div 16 = x div 16 mod 4" "x mod 64 div 8 mod 2 = x div 8 mod 2" "x mod 64 mod 8 = x mod 8" for x :: nat
  proof -
    have e: "x = x mod 64 + x div 64 * 4 * 16" "x = x mod 64 + x div 64 * 4 * 2 * 8" using div_mult_mod_eq [of x 64] by simp_all
    have "x div 16 = (x mod 64 + x div 64 * 4 * 16) div 16" using arg_cong [OF e(1), of "\<lambda>y. y div 16"] .
    also have "\<dots> = x mod 64 div 16 + x div 64 * 4" by (subst div_mult_self1) simp_all
    finally show "x mod 64 div 16 = x div 16 mod 4" by (simp add: less_mult_imp_div_less)
    have "x div 8 = (x mod 64 + x div 64 * 4 * 2 * 8) div 8" using arg_cong [OF e(2), of "\<lambda>y. y div 8"] .
    also have "\<dots> = x mod 64 div 8 + x div 64 * 4 * 2" by (subst div_mult_self1) simp_all
    finally show "x mod 64 div 8 mod 2 = x div 8 mod 2" by (simp only: mod_mult_self1)
    show "x mod 64 mod 8 = x mod 8" by (rule mod_mod_cancel) simp
  qed
  have u: "i div 16 mod 4 = tid div 16" "i div 8 mod 2 = tid div 8 mod 2" "i mod 8 = ?g"
    unfolding m [of i, symmetric] i64 by (rule refl)+
  have b: "tid div 16 < 4" "tid div 8 mod 2 < 2" "?g < 8" using assms(2) by (simp_all add: less_mult_imp_div_less)
  have loc: "gemv_cnt * n * 8 + oi * 8 + gidx (2 * ?g) = ?li div 4 * 32 + (?g + ?li mod 4 * 8)"
  proof -
    have "?li * 8 = (?li div 4 * 4 + ?li mod 4) * 8" by (simp only: div_mult_mod_eq)
    also have "\<dots> = ?li div 4 * 32 + ?li mod 4 * 8" by (simp only: add_mult_distrib mult.assoc)
    finally show ?thesis by (simp add: gidx_def add_mult_distrib)
  qed
  have r: "?g + ?li mod 4 * 8 < 32" using mod_less_divisor [of 4 ?li] b(3) by linarith
  have row: "?li div 4 < 2 ^ 14" using assms(3) by (simp add: less_mult_imp_div_less)
  have off: "offset (2 * ?g) = 0" by (simp add: offset_def)
  show "reduce_addr ch tid (?li div 4) (?g + ?li mod 4 * 8)
    = unit_of (i div 16 mod 4) (i div 8 mod 2)
        (psum_addr (i div 64 mod 64) (gemv_cnt * n * 8 + i div 4096 * 8 + gidx (2 * (i mod 8))) (2 * (i mod 8)))"
    unfolding u tile c loc psum_addr_def off slot_split [OF r] reduce_addr_def
    using unit_of_addr_gen [OF assms(1) b(1,2) _ row r, of 1] by simp
qed

text \<open>C10: thread \<open>tid\<close> of block \<open>ch\<close> writes, in order, exactly the outputs whose number is \<open>64 ch + tid\<close> modulo 4096, each with the
  sum of the half that its unit stored in the pass of its output tile, the bias and the activation: over all
  threads every output of every product is written once.
\<close>

theorem aligned_reduce_outputs:
  assumes "ch < 64" "tid < 64" "W = nat (sint (ga_out_w a))" "W \<le> nat (ga_out_tile a) * 4096"
    "N = nat (ga_iter_cnt a) * nat (sint (ga_in_h a))" "N * nat (ga_out_tile a) \<le> 2 ^ 16"
  shows "aligned_reduce H rdh a ch tid
    = map (\<lambda>i. (i, finish_half H rdh a i (unit_sum H rdh a (i div W) (i mod W))))
        (filter (\<lambda>i. i mod W mod 4096 = ch * 64 + tid) [0..<N * W])"
proof -
  let ?n = "nat (ga_out_tile a)" and ?t = "ch * 64 + tid"
  let ?f = "\<lambda>c m. (c * W + m, finish_half H rdh a (c * W + m) (unit_sum H rdh a c m))"
  have "?t < 64 * 64" by (rule radix_bound [OF assms(1,2)])
  then have t: "?t < 4096" by simp
  have one: "aligned_reduce_one H rdh a ch tid c oi = (if oi * 4096 + ?t < W then [?f c (oi * 4096 + ?t)] else [])"
    if "c < N" "oi < ?n" for c oi
  proof -
    have "c * ?n + oi < N * ?n" by (rule radix_bound [OF that])
    then have "c * ?n + oi < 2 ^ 16" using assms(6) by (rule less_le_trans)
    from reduce_addr_unit [OF assms(1,2) this refl]
    show ?thesis unfolding aligned_reduce_one_def unit_sum_def Let_def assms(3) [symmetric] by simp
  qed
  have "concat (map (aligned_reduce_one H rdh a ch tid c) [0..<?n])
      = map (?f c) (filter (\<lambda>i. i mod 4096 = ?t) [0..<W])" if "c < N" for c
    unfolding filter_residue [OF t assms(4), symmetric] by (rule arg_cong [where f = concat], rule map_cong [OF refl], rule one [OF that]) simp
  then have "aligned_reduce H rdh a ch tid = concat (map (\<lambda>c. map (?f c) (filter (\<lambda>i. i mod 4096 = ?t) [0..<W])) [0..<N])"
    unfolding aligned_reduce_def assms(5) [symmetric] by (auto intro!: arg_cong [where f = concat])
  also have "\<dots> = map (\<lambda>i. ?f (i div W) (i mod W)) (filter (\<lambda>i. i mod W mod 4096 = ?t) [0..<N * W])"
    by (rule filter_blocks)
  finally show ?thesis by simp
qed

lemma aligned_reduce_outputs_witness:
  "aligned_reduce \<lparr>hf_add = (+), hf_neg = (\<lambda>_. False)\<rparr> (\<lambda>_. 1) gemm_example 5 9
    = map (\<lambda>i. (i, finish_half \<lparr>hf_add = (+), hf_neg = (\<lambda>_. False)\<rparr> (\<lambda>_. 1) gemm_example i
          (unit_sum \<lparr>hf_add = (+), hf_neg = (\<lambda>_. False)\<rparr> (\<lambda>_. 1) gemm_example (i div 4096) (i mod 4096))))
        (filter (\<lambda>i. i mod 4096 mod 4096 = 5 * 64 + 9) [0..<2 * 4096])"
  by (rule aligned_reduce_outputs) (simp_all add: gemm_example_def)

section \<open>The channel-wise layout\<close>

lemma aligned_copies_one_row:
  assumes "64 * (2 * (X + 2)) < (2 :: nat) ^ 32"
  shows "aligned_copies emulator (1 * 4096) in_cnt = chwise_copies emulator in_cnt"
  by (simp add: aligned_copies_def chwise_copies_def steps_out [of 1, simplified] split_beta Let_def)

text \<open>
  The channel-wise kernel reads the 4096 rows of one iteration as the aligned kernel reads its first output tile, at
  the places where the channel-wise conversion put them.
\<close>

lemma chwise_gemm_reads_layout:
  assumes "2 * H \<le> 2 ^ 14" "k < 2 * H" "ch < 64" "bg < 4" "hi < 2" "s < 8" "tid < 16"
  shows "\<exists>a. grf_tile rd ctr input weight ch tid (of_bool (odd k)) 0 0 k ! (3 + s) = R_CMD (weight + (a + offset tid))
    \<and> (unit_of bg hi a, ((ch * 8 + bg * 2 + hi) * 8 + s) * (2 * H * 8) + (k * 8 + gidx tid))
        \<in> set (chwise_copies False (2 * H * 8))"
proof -
  let ?n = "(0 * H + k div 2) * 64 + (s * 8 + gidx tid)"
  let ?a = "addr_gen (of_nat ch) 0 0 (of_bool (odd k)) (of_nat (?n div 32)) (of_nat (?n mod 32))"
  have g: "gidx tid < 8" using assms(7) by (simp add: gidx_def)
  have H: "0 < H" using assms(2) by (cases H) simp_all
  have "s * 8 + gidx tid < 8 * 8" by (rule radix_bound [OF assms(6) g])
  then have j: "s * 8 + gidx tid < 64" by simp
  have "0 * H + k div 2 < H" using assms(2) by (simp add: less_mult_imp_div_less mult.commute)
  then have "?n < H * 64" by (rule radix_bound [OF _ j])
  then have n: "?n < 2 ^ 19" using assms(1) by simp
  have b: "ch * 8 + bg * 2 + hi < 512" using assms(3-5) by linarith
  have room: "64 * ((1 + 1) * (2 * H + 2)) < (2 :: nat) ^ 32" by (rule layout_room) (use assms(1) H in simp_all)
  have "grf_tile rd ctr input weight ch tid (of_bool (odd k)) 0 0 k ! (3 + s) = R_CMD (weight + (?a + offset tid))"
  proof -
    have "(k div 2 + 0) * 2 + s div 4 = ?n div 32" using burst_position(1) [OF assms(6) g, of k 0 H] by simp
    moreover have "gidx tid + s mod 4 * 8 = ?n mod 32" by (rule burst_position(2) [OF assms(6) g])
    ultimately show ?thesis unfolding grf_tile_nth [OF assms(6)] weight_addr_def by (simp only:)
  qed
  moreover have "(unit_of bg hi ?a, ((ch * 8 + bg * 2 + hi) * 8 + s) * (2 * H * 8) + (k * 8 + gidx tid))
        \<in> set (chwise_copies False (2 * H * 8))"
  proof -
    have "(unit_of bg hi ?a, ((0 * 512 + (ch * 8 + bg * 2 + hi)) * 8 + s) * (2 * H * 8) + (k * 8 + gidx tid))
        \<in> set (aligned_copies False (1 * 4096) (2 * H * 8))"
      using aligned_copies_member [OF room zero_less_one assms(2) b j] g
      unfolding unit_block_addr [OF assms(3-5) n] by simp
    moreover have "64 * (2 * (2 * H + 2)) < (2 :: nat) ^ 32" using room by simp
    ultimately show ?thesis using aligned_copies_one_row [of "2 * H" False "2 * H * 8"] by simp
  qed
  ultimately show ?thesis by blast
qed

section \<open>The number of entries\<close>

lemma length_gemm_pass:
  "length (gemm_pass rd ctr input weight psum evens odds i r loc ch tid) = 10 + 12 * (length evens + length odds)"
proof -
  have "length (concat (map (grf_tile rd ctr input weight ch tid bank i r) ks)) = 12 * length ks" for bank ks
    by (induction ks) (simp_all add: grf_tile_def Let_def)
  then show ?thesis by (simp add: gemm_pass_def gemm_enter_def gemm_store_def change_habpim_hab_def Let_def)
qed

lemma length_concat_const: "(\<And>x. x \<in> set xs \<Longrightarrow> length (f x) = m) \<Longrightarrow> length (concat (map f xs)) = length xs * m"
  by (induction xs) simp_all

lemma length_aligned_iters:
  assumes "\<And>w c oi. length (pass w c oi) = m"
  shows "length (aligned_iters pass step h n_out k weight c) = k * h * n_out * m"
  using assms
  by (induction k arbitrary: weight c) (simp_all add: length_concat_const [where m = "n_out * m"] length_concat_const [where m = m] add_mult_distrib)

lemma gemm_frame_len:
  assumes "\<And>tid. length (compute tid) = m" "ga_crf_size a = 32"
  shows "block_len (thread_code (gemm_frame rd a bid compute)) 64 = 130 + 16 * m"
  using assms
  by (simp add: gemm_frame_def Let_def block_len_Below [where m = 2] block_len_Below [where m = 8] block_len_Below [where m = 3]
      block_len_Below [where m = 1] block_len_Below [where m = m])

lemma aligned_block_len:
  assumes "ga_crf_size a = 32" "ga_in_tile a = 2 * int H"
  shows "block_len (thread_code (pim_aligned_gemm_code rd a bid)) 64
    = 130 + 16 * (nat (ga_iter_cnt a) * nat (sint (ga_in_h a)) * nat (ga_out_tile a) * (10 + 24 * H))"
proof -
  have n: "nat (ga_in_tile a) = 2 * H" using assms(2) by simp
  have "length (aligned_compute rd a (by_two 0 (2 * H)) (by_two 1 (2 * H)) bid tid)
      = nat (ga_iter_cnt a) * nat (sint (ga_in_h a)) * nat (ga_out_tile a) * (10 + 24 * H)" for tid
    unfolding aligned_compute_def by (rule length_aligned_iters) (simp add: aligned_pass_def length_gemm_pass by_two_tiles [unfolded One_nat_def] Let_def)
  then show ?thesis unfolding pim_aligned_gemm_code_def n by (rule gemm_frame_len [OF _ assms(1)])
qed

end
