(* ===== verification/KernelLoad.thy ===== *)
theory KernelLoad
  imports CrfBin EltKernels GemmKernels
begin

text \<open>
  The code of a HIP launch, and what its kernel loads into the command registers of a channel: the program that the
  generator wrote into the buffer which the launch names.
\<close>

section \<open>The code of a launch\<close>

definition kernel_code :: "dev_read \<Rightarrow> HipKernel \<Rightarrow> nat \<Rightarrow> Phase list option" where
  "kernel_code rd k bid = (case k of
     elt_op_pim op0 op1 base out n crf sz \<Rightarrow>
       Some (elt_op_pim_code (ptr op0) (ptr op1) (ptr base) (ptr out) n (rd (ptr crf) (nat sz)) bid)
   | relu_pim inp base out n crf sz \<Rightarrow> Some (relu_pim_code (ptr inp) (ptr base) (ptr out) n (rd (ptr crf) (nat sz)) bid)
   | copy_pim inp base out n crf sz \<Rightarrow> Some (copy_pim_code (ptr inp) (ptr base) (ptr out) n (rd (ptr crf) (nat sz)) bid)
   | bn_pim_nr_sip inp base tmp out n nb nc nw crf sz srf srf_sz \<Rightarrow>
       Some (bn_pim_nr_sip_code (ptr inp) (ptr base) (ptr out) n (rd (ptr crf) (nat sz)) sz (rd (ptr srf) (nat srf_sz)) bid)
   | gemm_pim kern a \<Rightarrow> gemm_code rd kern a bid
   | dummy_kernel \<Rightarrow> Some [])"

section \<open>The command registers\<close>

text \<open>Register half \<open>i\<close> of a channel, and the data the threads of a block write to an address, in any order of the threads.\<close>

definition crf_reg :: "u64 \<Rightarrow> nat \<Rightarrow> nat \<Rightarrow> u64" where
  "crf_reg ctr bid i = ctr + (addr_gen (of_nat bid) 0 0 1 0x3fff (of_nat (4 + i div 2)) + of_nat (i mod 2 * 16))"

definition data_to :: "u64 \<Rightarrow> DevCmd list \<Rightarrow> u8 list" where
  "data_to a cs = concat (map (\<lambda>c. case c of W_CMD_R a' d \<Rightarrow> if a' = a then d else [] | _ \<Rightarrow> []) cs)"

definition loaded_crf :: "u64 \<Rightarrow> nat \<Rightarrow> (nat \<Rightarrow> DevCmd list) \<Rightarrow> nat \<Rightarrow> u8 list" where
  "loaded_crf ctr bid code threads =
     concat (map (\<lambda>i. concat (map (\<lambda>tid. data_to (crf_reg ctr bid i) (code tid)) [0..<threads])) [0..<8])"

lemma data_to_simps [simp]:
  "data_to a [] = []" "data_to a (xs @ ys) = data_to a xs @ data_to a ys"
  "data_to a (R_CMD b # cs) = data_to a cs" "data_to a (W_CMD b # cs) = data_to a cs" "data_to a (B_CMD t # cs) = data_to a cs"
  "data_to a (W_CMD_R b d # cs) = (if b = a then d else []) @ data_to a cs"
  by (simp_all add: data_to_def)

lemma data_to_concat [simp]: "data_to a (concat xss) = concat (map (data_to a) xss)"
  by (induction xss) simp_all

lemma data_to_thread_code:
  "data_to a (thread_code [] tid) = []"
  "data_to a (thread_code (All f # ps) tid) = data_to a (f tid) @ data_to a (thread_code ps tid)"
  "data_to a (thread_code (Below n f # ps) tid) = (if tid < n then data_to a (f tid) else []) @ data_to a (thread_code ps tid)"
  by (simp_all add: thread_code_def)

text \<open>Two bytes in the same range of 32 are at the same address only for the same coordinates.\<close>

lemma byte_addr_eq:
  assumes "coord_ok (ch, rk, bg, bank, row, col)" "coord_ok (ch', rk', bg', bank', row', col')" "e < 32" "e' < 32"
  shows "ctr + (addr_gen ch rk bg bank row col + of_nat e) = ctr + (addr_gen ch' rk' bg' bank' row' col' + of_nat e')
    \<longleftrightarrow> (ch, rk, bg, bank, row, col) = (ch', rk', bg', bank', row', col') \<and> e = e'"
proof
  have s: "drop_bit 5 (addr_gen c r g b w l + of_nat f) = drop_bit 5 (addr_gen c r g b w l)"
    "take_bit 5 (addr_gen c r g b w l + of_nat f) = (of_nat f :: u64)" if "f < 32" for c r g b w l f
  proof -
    have f: "(of_nat f :: u64) < 2 ^ 5" using that by (simp add: word_less_nat_alt unat_of_nat_u64)
    have t: "take_bit 5 (of_nat f :: u64) = of_nat f" using f by (simp add: less_mask_eq take_bit_eq_mask)
    have "addr_gen c r g b w l AND of_nat f = 0"
    proof (rule bit_word_eqI)
      fix n :: nat
      have "bit (of_nat f :: u64) n \<Longrightarrow> n < 5" using t by (metis bit_take_bit_iff)
      moreover have "n < 5 \<Longrightarrow> \<not> bit (addr_gen c r g b w l) n"
        using addr_gen_aligned [of c r g b w l] by (metis bit_0_eq bit_take_bit_iff bot_apply bot_bool_def)
      ultimately show "bit (addr_gen c r g b w l AND of_nat f) n \<longleftrightarrow> bit (0 :: u64) n" by (auto simp: bit_and_iff)
    qed
    then have o: "addr_gen c r g b w l + of_nat f = addr_gen c r g b w l OR of_nat f" by (rule disjunctive_add_eq_or)
    have z: "drop_bit 5 (of_nat f :: u64) = 0" using t by (simp only: take_bit_eq_self_iff_drop_bit_eq_0)
    show "drop_bit 5 (addr_gen c r g b w l + of_nat f) = drop_bit 5 (addr_gen c r g b w l)" unfolding o by (simp add: z)
    show "take_bit 5 (addr_gen c r g b w l + of_nat f) = (of_nat f :: u64)" unfolding o by (simp add: t addr_gen_aligned)
  qed
  assume "ctr + (addr_gen ch rk bg bank row col + of_nat e) = ctr + (addr_gen ch' rk' bg' bank' row' col' + of_nat e')"
  then have eq: "addr_gen ch rk bg bank row col + of_nat e = addr_gen ch' rk' bg' bank' row' col' + of_nat e'" by simp
  from arg_cong [OF eq, of "take_bit 5"] have "(of_nat e :: u64) = of_nat e'" unfolding s(2) [OF assms(3)] s(2) [OF assms(4)] .
  then have u: "unat (of_nat e :: u64) = unat (of_nat e' :: u64)" by (rule arg_cong)
  have "e < 2 ^ 64" "e' < 2 ^ 64" by (rule less_trans [OF assms(3)], simp, rule less_trans [OF assms(4)], simp)
  from u [unfolded this [THEN unat_of_nat_u64]] have "e = e'" .
  moreover from arg_cong [OF eq, of "drop_bit 5"]
  have d: "drop_bit 5 (addr_gen ch rk bg bank row col) = drop_bit 5 (addr_gen ch' rk' bg' bank' row' col')" unfolding s(1) [OF assms(3)] s(1) [OF assms(4)] .
  have "addr_gen ch rk bg bank row col = addr_gen ch' rk' bg' bank' row' col'"
    using bits_ident [of 5 "addr_gen ch rk bg bank row col"] bits_ident [of 5 "addr_gen ch' rk' bg' bank' row' col'"] d
    by (simp add: addr_gen_aligned)
  from arg_cong [OF this, of coord_of] have "(ch, rk, bg, bank, row, col) = (ch', rk', bg', bank', row', col')"
    unfolding coord_of_addr [OF assms(1)] coord_of_addr [OF assms(2)] .
  ultimately show "(ch, rk, bg, bank, row, col) = (ch', rk', bg', bank', row', col') \<and> e = e'" by simp
qed simp

section \<open>What each step writes to the registers\<close>

lemma reg_coord:
  assumes "bid < 64" "i < 8"
  shows "coord_ok (of_nat bid, 0, 0, 1, 0x3fff, of_nat (4 + i div 2))" "i mod 2 * 16 < 32"
    "unat (of_nat (4 + i div 2) :: u32) = 4 + i div 2"
proof -
  show u: "unat (of_nat (4 + i div 2) :: u32) = 4 + i div 2" using assms(2) by (intro unat_of_nat_u32) simp
  have "unat (of_nat bid :: u32) = bid" using assms(1) by (simp add: unat_of_nat_u32)
  then show "coord_ok (of_nat bid, 0, 0, 1, 0x3fff, of_nat (4 + i div 2))"
    unfolding coord_ok_def prod.case word_less_nat_alt u using assms by simp
  have "i mod 2 < 2" by simp
  then show "i mod 2 * 16 < 32" by linarith
qed

lemma reg_other:
  assumes "bid < 64" "i < 8" "coord_ok (of_nat bid, 0, 0, bank, 0x3fff, col)" "bank \<noteq> 1 \<or> col \<notin> {4 ..< 8}"
  shows "ctr + (addr_gen (of_nat bid) 0 0 bank 0x3fff col + offset tid) \<noteq> crf_reg ctr bid i"
proof
  assume eq: "ctr + (addr_gen (of_nat bid) 0 0 bank 0x3fff col + offset tid) = crf_reg ctr bid i"
  have "tid mod 2 < 2" by simp
  then have "tid mod 2 * 16 < 32" by linarith
  from eq [unfolded crf_reg_def offset_def byte_addr_eq [OF assms(3) reg_coord(1) [OF assms(1,2)] this reg_coord(2) [OF assms(1,2)]]]
  have "bank = 1" "col = of_nat (4 + i div 2)" by simp_all
  then have "bank = 1" "unat col = 4 + i div 2" using reg_coord(3) [OF assms(1,2)] by simp_all
  then show False using assms(2,4) by (auto simp: word_less_nat_alt word_le_nat_alt)
qed

lemma data_to_plain [simp]:
  "data_to a (park_in ctr bid g n off) = []" "data_to a (change_sb_hab ctr bid off) = []"
  "data_to a (change_hab_sb ctr bid g off) = []" "data_to a (park_out ctr bid g n off) = []"
  "data_to a (gemm_store psum bid loc tid) = []" "data_to a (elt_tile op0 op1 out bid tid t) = []"
  "data_to a (fill_tile inp out bid tid t) = []" "data_to a (bn_tile inp out bid tid t) = []"
  by (simp_all add: step_defs gemm_store_def elt_tile_def fill_tile_def bn_tile_def Let_def)

lemma data_to_tiles [simp]: "concat (map (data_to a \<circ> elt_tile op0 op1 out bid tid) ts) = []"
  "concat (map (data_to a \<circ> fill_tile inp out bid tid) ts) = []" "concat (map (data_to a \<circ> bn_tile inp out bid tid) ts) = []"
  by simp_all

lemma reg_modes:
  assumes "bid < 64" "i < 8"
  shows "data_to (crf_reg ctr bid i) (change_hab_habpim ctr bid (offset tid)) = []"
    "data_to (crf_reg ctr bid i) (change_habpim_hab ctr bid (offset tid)) = []"
    "data_to (crf_reg ctr bid i) (gemm_enter ctr bid (offset tid)) = []"
    "data_to (crf_reg ctr bid i) (program_srf ctr bid srf (offset tid)) = []"
proof -
  have b: "unat (of_nat bid :: u32) = bid" using assms(1) by (simp add: unat_of_nat_u32)
  have ok: "coord_ok (of_nat bid, 0, 0, 0, 0x3fff, 0)" "coord_ok (of_nat bid, 0, 0, 0, 0x3fff, 1)"
    unfolding coord_ok_def prod.case word_less_nat_alt b using assms by simp_all
  have s: "addr_gen (of_nat bid) 0 0 0 0x3fff 0 + 32 = addr_gen (of_nat bid) 0 0 0 0x3fff 1"
  proof -
    have "unat (addr_gen (of_nat bid) 0 0 0 0x3fff 1) = unat (addr_gen (of_nat bid) 0 0 0 0x3fff 0) + 32"
      unfolding unat_addr_gen [OF ok(1)] unat_addr_gen [OF ok(2)] by simp
    moreover have "unat (addr_gen (of_nat bid) 0 0 0 0x3fff 1) < 2 ^ 64"
      using unsigned_less [of "addr_gen (of_nat bid) 0 0 0 0x3fff 1"] by simp
    ultimately show ?thesis by (simp add: word_unat_eq_iff unat_word_ariths)
  qed
  show "data_to (crf_reg ctr bid i) (change_hab_habpim ctr bid (offset tid)) = []"
    "data_to (crf_reg ctr bid i) (change_habpim_hab ctr bid (offset tid)) = []"
    "data_to (crf_reg ctr bid i) (gemm_enter ctr bid (offset tid)) = []"
    using reg_other [OF assms ok(1), of ctr tid] by (simp_all add: step_defs gemm_enter_def Let_def)
  show "data_to (crf_reg ctr bid i) (program_srf ctr bid srf (offset tid)) = []"
    using reg_other [OF assms ok(2), of ctr tid] by (simp add: step_defs s)
qed

lemma reg_program:
  assumes "bid < 64" "i < 8" "tid < 8"
  shows "data_to (crf_reg ctr bid i) (program_crf ctr bid (gidx tid) crf (offset tid)) = (if tid = i then bytes16 crf (offset tid) else [])"
    "data_to (crf_reg ctr bid i) (program_crf_mod ctr bid tid (gidx tid) crf (offset tid))
      = (if tid = i then bytes16 crf (of_nat (tid * 16)) else [])"
proof -
  have "ctr + (addr_gen (of_nat bid) 0 0 1 0x3fff (0x4 + of_nat (gidx tid)) + offset tid) = crf_reg ctr bid tid"
    by (simp add: crf_reg_def offset_def gidx_def)
  moreover have "crf_reg ctr bid tid = crf_reg ctr bid i \<longleftrightarrow> tid = i"
  proof
    assume "crf_reg ctr bid tid = crf_reg ctr bid i"
    from this [unfolded crf_reg_def byte_addr_eq [OF reg_coord(1) [OF assms(1,3)] reg_coord(1) [OF assms(1,2)]
        reg_coord(2) [OF assms(1,3)] reg_coord(2) [OF assms(1,2)]]]
    have "of_nat (4 + tid div 2) = (of_nat (4 + i div 2) :: u32)" "tid mod 2 = i mod 2" by simp_all
    from arg_cong [OF this(1), of unat] this(2) have "tid div 2 = i div 2" "tid mod 2 = i mod 2"
      unfolding reg_coord(3) [OF assms(1,3)] reg_coord(3) [OF assms(1,2)] by simp_all
    then show "tid = i" by (metis div_mult_mod_eq)
  qed simp
  ultimately show "data_to (crf_reg ctr bid i) (program_crf ctr bid (gidx tid) crf (offset tid)) = (if tid = i then bytes16 crf (offset tid) else [])"
    "data_to (crf_reg ctr bid i) (program_crf_mod ctr bid tid (gidx tid) crf (offset tid))
      = (if tid = i then bytes16 crf (of_nat (tid * 16)) else [])"
    by (simp_all add: step_defs Let_def)
qed

lemma reg_grf:
  assumes "bid < 64" "i < 8" "tid < 16" "bank = 0 \<or> bank = 1"
  shows "data_to (crf_reg ctr bid i) (grf_tile rd ctr input weight bid tid bank i_off r_off k) = []"
proof -
  have g: "8 + gidx tid < 32" "8 \<le> 8 + gidx tid" using assms(3) by (simp_all add: gidx_def)
  then have u: "unat (of_nat (8 + gidx tid) :: u32) = 8 + gidx tid" by (intro unat_of_nat_u32) simp
  have b: "unat (of_nat bid :: u32) = bid" using assms(1) by (simp add: unat_of_nat_u32)
  have "unat bank < 4" using assms(4) by auto
  then have ok: "coord_ok (of_nat bid, 0, 0, bank, 0x3fff, of_nat (8 + gidx tid))"
    unfolding coord_ok_def prod.case word_less_nat_alt b u using assms(1) g by simp
  have "of_nat (8 + gidx tid) \<notin> {4 ..< 8 :: u32}" unfolding atLeastLessThan_iff word_less_nat_alt u by simp
  from reg_other [OF assms(1,2) ok disjI2 [OF this], of ctr tid] show ?thesis
    by (simp add: grf_tile_list grf_addr_def data_to_def)
qed

lemma concat_map_nil: "(\<And>x. x \<in> set xs \<Longrightarrow> f x = []) \<Longrightarrow> concat (map f xs) = []"
  by (induction xs) simp_all

lemma reg_gemm_pass:
  assumes "bid < 64" "i < 8" "tid < 16"
  shows "data_to (crf_reg ctr bid i) (gemm_pass rd ctr input weight psum evens odds i_off r_off loc bid tid) = []"
  by (simp add: gemm_pass_def reg_modes [OF assms(1,2)] comp_def reg_grf [OF assms(1-3)])

lemma data_to_aligned_iters:
  "(\<And>w c x. data_to a (pass w c x) = []) \<Longrightarrow> data_to a (aligned_iters pass step h n_out k weight cnt) = []"
  by (induction k arbitrary: weight cnt) (simp_all add: comp_def)

lemma data_to_chwise_iters:
  "(\<And>w c x. data_to a (pass w c x) = []) \<Longrightarrow> data_to a (chwise_iters pass s1 s2 h k input weight psum) = []"
  by (induction k arbitrary: input weight psum) (simp_all add: comp_def)

section \<open>What each kernel writes to the registers\<close>

definition loads :: "u64 \<Rightarrow> nat \<Rightarrow> (nat \<Rightarrow> DevCmd list) \<Rightarrow> nat \<Rightarrow> u8 list \<Rightarrow> bool" where
  "loads ctr bid code m crf \<longleftrightarrow>
     (\<forall>i tid. i < 8 \<longrightarrow> data_to (crf_reg ctr bid i) (code tid) = (if tid = i \<and> i < m then bytes16 crf (of_nat (tid * 16)) else []))"

lemma loads_all:
  assumes "loads ctr bid code m crf" "m \<le> 8" "m \<le> threads" "16 * m \<le> length crf"
  shows "loaded_crf ctr bid code threads = take (16 * m) crf"
proof -
  have slot: "concat (map (\<lambda>tid. data_to (crf_reg ctr bid i) (code tid)) [0..<threads]) = (if i < m then take 16 (drop (i * 16) crf) else [])"
    if i: "i < 8" for i
  proof -
    have u: "unat (of_nat (i * 16) :: u64) = i * 16" using i by (intro unat_of_nat_u64) simp
    have e: "(\<lambda>tid. data_to (crf_reg ctr bid i) (code tid))
        = (\<lambda>tid. if tid = i then if i < m then take 16 (drop (i * 16) crf) else [] else [])"
      using assms(1) i u by (auto simp: loads_def bytes16_def fun_eq_iff)
    show ?thesis
    proof (cases "i < m")
      case True
      then show ?thesis unfolding e if_P [OF True] using assms(3) by (intro concat_map_single) simp
    next
      case False
      then show ?thesis unfolding e if_not_P [OF False] by (intro concat_map_nil) simp
    qed
  qed
  have "loaded_crf ctr bid code threads = concat (map (\<lambda>i. if i < m then take 16 (drop (i * 16) crf) else []) [0..<8])"
    unfolding loaded_crf_def by (rule arg_cong [where f = concat], rule map_cong [OF refl], rule slot) simp
  also have "\<dots> = concat (map (\<lambda>i. take 16 (drop (i * 16) crf)) [0..<m])"
  proof -
    have "[0..<m + (8 - m)] = [0..<m] @ [m..<m + (8 - m)]" by (rule upt_add_eq_append) simp
    then have "[0..<8] = [0..<m] @ [m..<8]" unfolding le_add_diff_inverse [OF assms(2)] .
    moreover have "concat (map (\<lambda>i. if i < m then take 16 (drop (i * 16) crf) else []) [m..<8]) = []"
      by (rule concat_map_nil) simp
    moreover have "map (\<lambda>i. if i < m then take 16 (drop (i * 16) crf) else []) [0..<m] = map (\<lambda>i. take 16 (drop (i * 16) crf)) [0..<m]"
      by (rule map_cong) simp_all
    ultimately show ?thesis by (simp only: map_append concat_append append_Nil2)
  qed
  also have "\<dots> = take (16 * m) crf" using assms(4)
  proof (induction m)
    case (Suc m)
    then show ?case using take_add [of "16 * m" 16 crf] by (simp add: mult.commute add.commute)
  qed simp
  finally show ?thesis .
qed

lemma bytes16_offset: "tid < 2 \<Longrightarrow> offset tid = of_nat (tid * 16)"
  by (simp add: offset_def)

lemma elt_prologue_data:
  assumes "bid < 64" "i < 8"
  shows "data_to (crf_reg ctr bid i) (thread_code (elt_prologue ctr crf bid @ Below 16 f # elt_epilogue ctr bid) tid)
    = (if tid = i \<and> i < 2 then bytes16 crf (of_nat (tid * 16)) else [])
      @ (if tid < 16 then data_to (crf_reg ctr bid i) (f tid) else [])"
proof (cases "tid < 2")
  case True
  then have "tid < 8" by simp
  have "bytes16 crf (offset tid) = bytes16 crf (of_nat (tid * 16))" by (simp only: bytes16_offset [OF True])
  note p = reg_program(1) [OF assms \<open>tid < 8\<close>, where crf = crf, unfolded this]
  show ?thesis using True by (simp add: elt_prologue_def elt_epilogue_def data_to_thread_code reg_modes [OF assms] p)
qed (auto simp: elt_prologue_def elt_epilogue_def data_to_thread_code reg_modes [OF assms])

lemma elt_kernels_load:
  assumes "bid < 64"
  shows "loads ctr bid (thread_code (elt_op_pim_code op0 op1 ctr out n crf bid)) 2 crf"
    "loads ctr bid (thread_code (relu_pim_code inp ctr out sz crf bid)) 2 crf"
    "loads ctr bid (thread_code (copy_pim_code inp ctr out sz crf bid)) 2 crf"
    "loads ctr bid (thread_code (bn_pim_nr_sip_code inp ctr out n crf 64 srf bid)) 4 crf"
proof -
  show "loads ctr bid (thread_code (elt_op_pim_code op0 op1 ctr out n crf bid)) 2 crf"
    "loads ctr bid (thread_code (relu_pim_code inp ctr out sz crf bid)) 2 crf"
    "loads ctr bid (thread_code (copy_pim_code inp ctr out sz crf bid)) 2 crf"
    unfolding loads_def elt_op_pim_code_def relu_pim_code_def copy_pim_code_def append_Cons append_Nil
    by (simp_all add: elt_prologue_data [OF assms])
  have "nat (drop_bit 4 (64 :: int)) = 4" by (simp add: drop_bit_eq_div)
  then show "loads ctr bid (thread_code (bn_pim_nr_sip_code inp ctr out n crf 64 srf bid)) 4 crf"
    unfolding loads_def
    by (auto simp: bn_pim_nr_sip_code_def elt_epilogue_def data_to_thread_code reg_modes [OF assms] reg_program(2) [OF assms])
qed

lemma gemm_frame_loads:
  assumes "bid < 64" "ga_crf_size a = 32" "\<And>i tid. i < 8 \<Longrightarrow> tid < 16 \<Longrightarrow> data_to (crf_reg (ptr (ga_base a)) bid i) (f tid) = []"
  shows "loads (ptr (ga_base a)) bid (thread_code (gemm_frame rd a bid f)) 2 (rd (ptr (ga_crf a)) 32)"
proof -
  have "nat (drop_bit 4 (ga_crf_size a)) = 2" "nat (ga_crf_size a) = 32" using assms(2) by (simp_all add: drop_bit_eq_div)
  then show ?thesis unfolding loads_def
    by (auto simp: gemm_frame_def Let_def data_to_thread_code reg_program(2) [OF assms(1)] assms(3))
qed

lemma gemm_kernels_load:
  assumes "bid < 64" "ga_crf_size a = 32" "gemm_code rd kern a bid = Some code"
  shows "loads (ptr (ga_base a)) bid (thread_code code) 2 (rd (ptr (ga_crf a)) 32)"
proof -
  have al: "data_to (crf_reg (ptr (ga_base a)) bid i) (aligned_compute rd a evens odds bid tid) = []" if "i < 8" "tid < 16" for i tid evens odds
    unfolding aligned_compute_def by (rule data_to_aligned_iters) (simp add: aligned_pass_def Let_def reg_gemm_pass [OF assms(1) that])
  have ch: "data_to (crf_reg (ptr (ga_base a)) bid i) (chwise_compute rd a ops chs evens odds bid tid) = []" if "i < 8" "tid < 16"
    for i tid ops chs evens odds
    unfolding chwise_compute_def by (rule data_to_chwise_iters) (rule reg_gemm_pass [OF assms(1) that])
  obtain f where "code = gemm_frame rd a bid f" "\<And>i tid. i < 8 \<Longrightarrow> tid < 16 \<Longrightarrow> data_to (crf_reg (ptr (ga_base a)) bid i) (f tid) = []"
    using assms(3) al ch
    by (auto simp: gemm_code_def pim_aligned_gemm_code_def pim_aligned_gemm_8tile_code_def pim_chwise_gemm_code_def
        pim_chwise_gemm_32tile_code_def split: GemmKernel.splits bind_splits)
  then show ?thesis using gemm_frame_loads [OF assms(1,2)] by simp
qed

section \<open>The program a kernel runs\<close>

lemma take_words: "take (4 * m) (concat (map u32_bytes ws)) = concat (map u32_bytes (take m ws))"
proof (induction ws arbitrary: m)
  case (Cons w ws)
  then show ?case by (cases m) simp_all
qed simp

lemma decode_take:
  assumes "gen_binary_with_loop op lc buf g = Some (b, sz, g')" "m \<le> length (cmds g')"
  shows "decode_image (take (4 * m) b) = map canonical (take m (cmds g'))"
proof -
  have "b = concat (map u32_bytes (map to_int (cmds g'))) @ drop sz buf" "sz = 4 * length (cmds g')"
    using assms(1) by (auto simp: gen_binary_with_loop_def change_to_binary_def Let_def split: if_splits option.splits)
  then have "take (4 * m) b = concat (map u32_bytes (map to_int (take m (cmds g'))))"
    using assms(2) by (simp only: take_append take_words take_map) simp
  then show ?thesis unfolding decode_image_def by (simp only: words_of_concat decode_words)
qed

lemma program_head:
  assumes "known_op op" "m = (if op = OP_BN then 16 else 8)"
  shows "m \<le> length (cmds (create_pim_cmd op lc g))"
    "\<exists>pad. take m (cmds (create_pim_cmd op lc g)) = loop_body op lc g @ [cmd_ctrl EXIT 0] @ replicate pad (cmd_ctrl NOP 0)"
proof -
  let ?n = "length (loop_body op lc g) + 1"
  have n: "?n \<le> m" "op = OP_BN \<Longrightarrow> ?n = 10" using assms
    by (cases op; simp add: known_op_def loop_body_def base_cmds_def cmd_list_defs Let_def)+
  obtain pad where p: "cmds (create_pim_cmd op lc g) = loop_body op lc g @ [cmd_ctrl EXIT 0] @ replicate pad (cmd_ctrl NOP 0)"
    using create_pim_cmd_cmds [of op lc g] by blast
  have l: "length (cmds (create_pim_cmd op lc g)) \<in> {8, 16}" by (rule create_pim_cmd_length [OF assms(1)])
  then have "op = OP_BN \<Longrightarrow> length (cmds (create_pim_cmd op lc g)) = 16" using p n(2) by auto
  then show "m \<le> length (cmds (create_pim_cmd op lc g))" using l assms(2) by (cases "op = OP_BN") auto
  have "take m (cmds (create_pim_cmd op lc g)) = loop_body op lc g @ [cmd_ctrl EXIT 0] @ replicate (min (m - ?n) pad) (cmd_ctrl NOP 0)"
    unfolding p using n(1) by (simp add: take_Cons')
  then show "\<exists>pad. take m (cmds (create_pim_cmd op lc g)) = loop_body op lc g @ [cmd_ctrl EXIT 0] @ replicate pad (cmd_ctrl NOP 0)"
    by blast
qed

text \<open>The launches of an operation whose program is at \<open>crf\<close>, with the base address and the number of threads.\<close>

definition launch_of :: "PimOpType \<Rightarrow> addr \<Rightarrow> HipKernel \<Rightarrow> (addr \<times> nat) option" where
  "launch_of op crf k = (case k of
     elt_op_pim op0 op1 base out n c sz \<Rightarrow> if op \<in> {OP_ELT_ADD, OP_ELT_MUL} \<and> c = crf \<and> sz = 32 then Some (base, 32) else None
   | relu_pim inp base out n c sz \<Rightarrow> if op = OP_RELU \<and> c = crf \<and> sz = 32 then Some (base, 32) else None
   | copy_pim inp base out n c sz \<Rightarrow> if op = OP_COPY \<and> c = crf \<and> sz = 32 then Some (base, 32) else None
   | bn_pim_nr_sip inp base tmp out n nb nc nw c sz srf srf_sz \<Rightarrow> if op = OP_BN \<and> c = crf \<and> sz = 64 then Some (base, 32) else None
   | gemm_pim kern a \<Rightarrow> if op = OP_GEMV \<and> ga_crf a = crf \<and> ga_crf_size a = 32 then Some (ga_base a, 64) else None
   | dummy_kernel \<Rightarrow> None)"

lemma launch_loads:
  assumes "launch_of op crf k = Some (base, threads)" "kernel_code rd k bid = Some code" "bid < 64"
    "m = (if op = OP_BN then 4 else 2)"
  shows "loads (ptr base) bid (thread_code code) m (rd (ptr crf) (16 * m)) \<and> m \<le> 8 \<and> m \<le> threads"
  using assms elt_kernels_load [OF assms(3)] gemm_kernels_load [OF assms(3)]
  by (auto simp: launch_of_def kernel_code_def split: HipKernel.splits if_splits)

text \<open>C7: whichever kernel the HIP executor launches for an operation, its threads write into the command registers of every channel the
  program that the generator made for the operation, complete up to \<open>EXIT\<close>, in the order of the registers.
\<close>

theorem kernels_load_program:
  assumes "known_op op" "gen_binary_with_loop op lc buf g = Some (b, sz, g')" "64 \<le> length buf" "bid < 64"
    "\<And>n. n \<le> 64 \<Longrightarrow> rd (ptr crf) n = take n b" "launch_of op crf k = Some (base, threads)" "kernel_code rd k bid = Some code"
  shows "\<exists>pad. decode_image (loaded_crf (ptr base) bid (thread_code code) threads)
    = map canonical (loop_body op lc g @ [cmd_ctrl EXIT 0] @ replicate pad (cmd_ctrl NOP 0))"
proof -
  let ?m = "if op = OP_BN then 4 else 2 :: nat"
  have b: "64 \<le> length b" using gen_binary_with_loop_ok [OF assms(1,3), of lc g] assms(2,3) by auto
  have r: "rd (ptr crf) (16 * ?m) = take (16 * ?m) b" using assms(5) by simp
  have l: "loads (ptr base) bid (thread_code code) ?m (take (16 * ?m) b)" "?m \<le> 8" "?m \<le> threads"
    using launch_loads [OF assms(6,7,4) refl] unfolding r by auto
  have "16 * ?m \<le> length (take (16 * ?m) b)" using b by simp
  from loads_all [OF l this] have "loaded_crf (ptr base) bid (thread_code code) threads = take (4 * (if op = OP_BN then 16 else 8)) b" by simp
  moreover have "g' = create_pim_cmd op lc g" using assms(2) by (auto simp: gen_binary_with_loop_def Let_def split: option.splits)
  ultimately show ?thesis
    using decode_take [OF assms(2)] program_head [OF assms(1) refl, of lc g] by metis
qed

definition crf_example :: "u8 list" where
  "crf_example = fst (the (gen_binary_with_loop OP_ELT_ADD 3 (replicate 128 0) crf_gen_init))"

lemma kernels_load_program_witness:
  "\<exists>pad. decode_image (loaded_crf (ptr 0) 5 (thread_code (elt_op_pim_code 0 0 0 0 1 (take 32 crf_example) 5)) 32)
    = map canonical (loop_body OP_ELT_ADD 3 crf_gen_init @ [cmd_ctrl EXIT 0] @ replicate pad (cmd_ctrl NOP 0))"
proof -
  have "known_op OP_ELT_ADD" by (simp add: known_op_def)
  moreover from gen_binary_with_loop_ok [OF this, of "replicate 128 0" 3 crf_gen_init]
  obtain sz g' where "gen_binary_with_loop OP_ELT_ADD 3 (replicate 128 0) crf_gen_init = Some (crf_example, sz, g')"
    by (auto simp: crf_example_def)
  ultimately show ?thesis
    by (rule kernels_load_program [where rd = "\<lambda>_ n. take n crf_example" and crf = 7 and k = "elt_op_pim 0 0 0 0 1 7 32"])
      (simp_all add: launch_of_def kernel_code_def)
qed

end
