(* ===== verification/KernelProps.thy ===== *)
theory KernelProps
  imports ExecProps KernelLoad
begin

text \<open>
  How much work the emulator can follow: the traces of the kernels that the HIP executor launches, and their conversion.
\<close>

section \<open>The limit of the emulator\<close>

text \<open>
  A run of 64 blocks, with the counter of block 0 as the number of entries (\<open>frd_size\<close>; the threads of a block are one
  wavefront, so it is read after their last command), and the conversion that follows.
\<close>

definition emulated :: "(nat \<Rightarrow> Phase list) \<Rightarrow> nat \<Rightarrow> Event list \<Rightarrow> u64 \<Rightarrow> PimMemTraceData list \<Rightarrow> PimMemTraceData list \<Rightarrow> bool" where
  "emulated code threads es fba xs h32 \<longleftrightarrow> is_schedule (\<lambda>b. thread_code (code b)) 64 threads es \<and>
     (\<exists>s. run_trace es (start_tracer fba xs fmtd_size_per_ch 64) = Some s
        \<and> emulator_trace_gen fmtd_size_per_ch 64 (nat (g_ridx s ! 0)) h32 (g_fmtd16 s) \<noteq> None)"

lemma emulated_iff:
  assumes "is_schedule (\<lambda>b. thread_code (code b)) 64 threads es" "\<And>b. block_len (thread_code (code b)) threads = n"
    "length xs = max_fmtd_size" "length h32 = max_fmtd_size"
  shows "emulated code threads es fba xs h32 \<longleftrightarrow> n \<le> 50000"
proof -
  have m: "max_fmtd_size = 64 * fmtd_size_per_ch" by (simp add: max_fmtd_size_def max_block_size_def)
  have "emulated code threads es fba xs h32 \<longleftrightarrow> 2 * n \<le> fmtd_size_per_ch"
    unfolding emulated_def using trace_convertible_iff [OF assms(1) _ assms(2), of xs fmtd_size_per_ch h32 fba] assms(1,3,4) m by simp
  then show ?thesis by (simp add: fmtd_size_per_ch_def)
qed



text \<open>C13: the same for matrix products with \<open>2 H\<close> input tiles: every pass over the input, one for each row and output tile,
  costs \<open>10 + 24 H\<close> entries for each of 16 threads, and 3116 of them fit.
\<close>

theorem gemm_emulation_limit:
  assumes "\<And>b. kernel_code rd (gemm_pim (aligned_kernel (ga_in_tile a)) a) b = Some (code b)"
    "is_schedule (\<lambda>b. thread_code (code b)) 64 64 es" "length xs = max_fmtd_size" "length h32 = max_fmtd_size"
    "ga_crf_size a = 32" "ga_in_tile a = 2 * int H"
  shows "emulated code 64 es fba xs h32
    \<longleftrightarrow> nat (ga_iter_cnt a) * nat (sint (ga_in_h a)) * nat (ga_out_tile a) * (10 + 24 * H) \<le> 3116"
proof -
  have "code b = pim_aligned_gemm_code rd a b" for b
    using assms(1) [of b] kernel_selection(1) [of rd a b] by (simp add: kernel_code_def gemm_code_def)
  then have "block_len (thread_code (code b)) 64
      = 130 + 16 * (nat (ga_iter_cnt a) * nat (sint (ga_in_h a)) * nat (ga_out_tile a) * (10 + 24 * H))" for b
    by (simp only: aligned_block_len [OF assms(5,6)])
  moreover have "130 + 16 * x \<le> 50000 \<longleftrightarrow> x \<le> 3116" for x :: nat by linarith
  ultimately show ?thesis using emulated_iff [OF assms(2) _ assms(3,4)] by (simp only:)
qed

lemma gemm_emulation_limit_witness:
  "emulated (pim_aligned_gemm_code (\<lambda>_ n. replicate n 0) gemm_example) 64
      (seq_schedule (\<lambda>b. thread_code (pim_aligned_gemm_code (\<lambda>_ n. replicate n 0) gemm_example b)) 64 64) 0
      (replicate max_fmtd_size (trace_entry (CHR ''B'') 0 [])) (replicate max_fmtd_size (trace_entry (CHR ''B'') 0 []))
    \<longleftrightarrow> nat (ga_iter_cnt gemm_example) * nat (sint (ga_in_h gemm_example)) * nat (ga_out_tile gemm_example) * (10 + 24 * 4) \<le> 3116"
proof (rule gemm_emulation_limit [where rd = "\<lambda>_ n. replicate n 0"])
  fix b
  show "kernel_code (\<lambda>_ n. replicate n 0) (gemm_pim (aligned_kernel (ga_in_tile gemm_example)) gemm_example) b
      = Some (pim_aligned_gemm_code (\<lambda>_ n. replicate n 0) gemm_example b)"
    unfolding kernel_code_def HipKernel.case kernel_selection by (simp add: gemm_code_def)
qed (simp_all add: seq_schedule_ok gemm_example_def)

end
