(* ===== verification/OclKernels.thy ===== *)
theory OclKernels
  imports EltKernels GemmKernels
begin

text \<open>
  The OpenCL kernels (\<open>runtime/include/executor/ocl/kernel_utils.cl\<close>, \<open>pim_op_kernels.cl\<close>, \<open>pim_copy.cl\<close>,
  \<open>pim_bn.cl\<close>, \<open>pim_gemm.cl\<close>) and how they compare with the HIP kernels. \<open>em\<close> says whether the program is built for the
  emulator. Barriers between the statements are not recorded and only exclude interleavings. The overflow of an
  \<open>int\<close> expression is undefined; the model gives it its mathematical value.
\<close>

section \<open>Addresses\<close>

definition ocl_mask_by_bit :: "u32 \<Rightarrow> nat \<Rightarrow> nat \<Rightarrow> u32" where
  "ocl_mask_by_bit value start lo = drop_bit lo value AND (push_bit (start - lo + 1) 1 - 1)"

text \<open>A build for the target keeps the low 30 bits only.\<close>

definition ocl_addr_gen :: "bool \<Rightarrow> u32 \<Rightarrow> u32 \<Rightarrow> u32 \<Rightarrow> u32 \<Rightarrow> u32 \<Rightarrow> u32 \<Rightarrow> u64" where
  "ocl_addr_gen em chan rank bankgroup bank row col =
    (let addr = ucast rank;
         addr = push_bit 14 addr OR ucast row;
         addr = push_bit 3 addr OR ucast (ocl_mask_by_bit col 4 2);
         addr = push_bit 1 addr OR ucast (ocl_mask_by_bit bank 1 1);
         addr = push_bit 2 addr OR ucast bankgroup;
         addr = push_bit 1 addr OR ucast (ocl_mask_by_bit bank 0 0);
         addr = push_bit (6 - 1) addr OR ucast (ocl_mask_by_bit chan (6 - 1) 1);
         addr = push_bit 1 addr OR ucast (ocl_mask_by_bit col 1 1);
         addr = push_bit 1 addr OR ucast (ocl_mask_by_bit chan 0 0);
         addr = push_bit 1 addr OR ucast (ocl_mask_by_bit col 0 0);
         addr = push_bit 5 addr
     in if em then addr else addr AND 0x3FFFFFFF)"

text \<open>An address at a byte offset: the offset is carried into the column and the row.\<close>

definition ocl_addr_gen_s :: "bool \<Rightarrow> u32 \<Rightarrow> u32 \<Rightarrow> u32 \<Rightarrow> u32 \<Rightarrow> u32 \<Rightarrow> u32 \<Rightarrow> u32 \<Rightarrow> u64" where
  "ocl_addr_gen_s em chan rank bankgroup bank row col off =
    (let offset_size = push_bit (num_offset_bit vega20_pbi) 1;
         col_size = word_of_int (cdiv (num_col vega20_pbi) (bl vega20_pbi));
         offset_s = off mod offset_size;
         new_col = col + off div offset_size;
         col_s = new_col mod col_size;
         row_s = row + new_col div col_size
     in ocl_addr_gen em chan rank bankgroup bank row_s col_s + ucast offset_s)"

lemma ocl_addr_gen_emulator: "ocl_addr_gen True = addr_gen"
proof (intro ext)
  fix ch rk bg bank row col
  have f: "num_row_bit vega20_pbi = 14" "num_col_high_bit vega20_pbi = 3" "num_bank_high_bit vega20_pbi = 1"
    "num_bankgroup_bit vega20_pbi = 2" "num_bank_low_bit vega20_pbi = 1" "num_chan_bit vega20_pbi = 6" "num_offset_bit vega20_pbi = 5"
    by (simp_all add: vega20_pbi_def)
  show "ocl_addr_gen True ch rk bg bank row col = addr_gen ch rk bg bank row col"
    unfolding ocl_addr_gen_def addr_gen_def ocl_mask_by_bit_def mask_by_bit_def Let_def f if_True ..
qed

lemma ocl_addr_gen_s_emulator:
  "ocl_addr_gen_s True ch rk bg bank row col off
    = addr_gen ch rk bg bank (row + (col + off div 32) div 32) ((col + off div 32) mod 32) + ucast (off mod 32)"
  unfolding ocl_addr_gen_s_def Let_def cols_per_row ocl_addr_gen_emulator by (simp add: push_bit_eq_mult)

section \<open>The steps of a kernel\<close>

definition ocl_hab_to_hab_pim :: "u8 list" where "ocl_hab_to_hab_pim = 0x01 # replicate 12 0 @ [0x01] @ replicate 18 0"
definition ocl_hab_pim_to_hab :: "u8 list" where "ocl_hab_pim_to_hab = replicate 32 0"

definition ocl_gemv_hab_to_hab_pim :: "u8 list" where
  "ocl_gemv_hab_to_hab_pim = 0x01 # replicate 11 0 @ [0x01] @ replicate 8 0 @ [0x01] @ replicate 10 0"

definition ocl_park_in :: "bool \<Rightarrow> u64 \<Rightarrow> nat \<Rightarrow> nat \<Rightarrow> nat \<Rightarrow> u64 \<Rightarrow> DevCmd list" where
  "ocl_park_in em ctr bid g num_ba off =
     (let a = ocl_addr_gen em (of_nat bid) 0 (of_nat (g div num_ba)) (of_nat (g mod num_ba)) (push_bit 13 1) 0
      in [W_CMD (ctr + (a + off)), B_CMD 1])"

definition ocl_change_sb_hab :: "bool \<Rightarrow> u64 \<Rightarrow> nat \<Rightarrow> u64 \<Rightarrow> DevCmd list" where
  "ocl_change_sb_hab em ctr bid off =
     [W_CMD (ctr + (ocl_addr_gen em (of_nat bid) 0 2 0 0x27ff 0x1f + off)), B_CMD 1,
      W_CMD (ctr + (ocl_addr_gen em (of_nat bid) 0 2 1 0x27ff 0x1f + off)), B_CMD 1,
      W_CMD (ctr + (ocl_addr_gen em (of_nat bid) 0 0 0 0x27ff 0x1f + off)), B_CMD 1,
      W_CMD (ctr + (ocl_addr_gen em (of_nat bid) 0 0 1 0x27ff 0x1f + off)), B_CMD 1]"

definition ocl_program_crf :: "bool \<Rightarrow> u64 \<Rightarrow> nat \<Rightarrow> nat \<Rightarrow> u8 list \<Rightarrow> u64 \<Rightarrow> DevCmd list" where
  "ocl_program_crf em ctr bid g crf_binary off =
     [W_CMD_R (ctr + (ocl_addr_gen em (of_nat bid) 0 0 1 0x3fff (0x4 + of_nat g) + off)) (bytes16 crf_binary off)]"

definition ocl_program_crf_mod :: "bool \<Rightarrow> u64 \<Rightarrow> nat \<Rightarrow> nat \<Rightarrow> nat \<Rightarrow> u8 list \<Rightarrow> u64 \<Rightarrow> DevCmd list" where
  "ocl_program_crf_mod em ctr bid tid g crf_binary off =
     (let a = ctr + (ocl_addr_gen em (of_nat bid) 0 0 1 0x3fff (0x4 + of_nat g) + off)
      in [W_CMD_R a (bytes16 crf_binary (of_nat (tid * 16))), R_CMD a, B_CMD 1])"

definition ocl_program_srf :: "bool \<Rightarrow> u64 \<Rightarrow> nat \<Rightarrow> u8 list \<Rightarrow> u64 \<Rightarrow> DevCmd list" where
  "ocl_program_srf em ctr bid srf_binary off =
     [W_CMD_R (ctr + (ocl_addr_gen em (of_nat bid) 0 0 0 0x3fff 0x0 + 32 + off)) (bytes16 srf_binary off)]"

definition ocl_change_hab_habpim :: "bool \<Rightarrow> u64 \<Rightarrow> nat \<Rightarrow> u64 \<Rightarrow> DevCmd list" where
  "ocl_change_hab_habpim em ctr bid off =
     (let a = ctr + (ocl_addr_gen em (of_nat bid) 0 0 0 0x3fff 0x0 + off)
      in [W_CMD_R a (bytes16 ocl_hab_to_hab_pim off), R_CMD a])"

definition ocl_change_gemv_hab_habpim :: "bool \<Rightarrow> u64 \<Rightarrow> nat \<Rightarrow> u64 \<Rightarrow> DevCmd list" where
  "ocl_change_gemv_hab_habpim em ctr bid off =
     (let a = ctr + (ocl_addr_gen em (of_nat bid) 0 0 0 0x3fff 0x0 + off)
      in [W_CMD_R a (bytes16 ocl_gemv_hab_to_hab_pim off), R_CMD a, B_CMD 1])"

definition ocl_change_habpim_hab :: "bool \<Rightarrow> u64 \<Rightarrow> nat \<Rightarrow> u64 \<Rightarrow> DevCmd list" where
  "ocl_change_habpim_hab em ctr bid off =
     (let a = ctr + (ocl_addr_gen em (of_nat bid) 0 0 0 0x3fff 0x0 + off)
      in [W_CMD_R a (bytes16 ocl_hab_pim_to_hab off), R_CMD a, B_CMD 1])"

definition ocl_change_hab_sb :: "bool \<Rightarrow> u64 \<Rightarrow> nat \<Rightarrow> nat \<Rightarrow> u64 \<Rightarrow> DevCmd list" where
  "ocl_change_hab_sb em ctr bid g off =
     (let a = ctr + (ocl_addr_gen em (of_nat bid) 0 0 (of_nat g) 0x2fff 0x1f + off)
      in [W_CMD a, R_CMD a, B_CMD 1])"

definition ocl_park_out :: "bool \<Rightarrow> u64 \<Rightarrow> nat \<Rightarrow> nat \<Rightarrow> nat \<Rightarrow> u64 \<Rightarrow> DevCmd list" where
  "ocl_park_out em ctr bid g num_ba off =
     (let a = ocl_addr_gen em (of_nat bid) 0 (of_nat (g div num_ba)) (of_nat (g mod num_ba)) (push_bit 13 1) 0
      in [W_CMD (ctr + (a + off))])"

text \<open>In an emulator build the steps are those of the HIP kernels, but for a byte of one table.\<close>

lemma ocl_steps_emulator:
  "ocl_park_in True = park_in" "ocl_change_sb_hab True = change_sb_hab" "ocl_program_crf True = program_crf"
  "ocl_program_crf_mod True = program_crf_mod" "ocl_program_srf True = program_srf"
  "ocl_change_gemv_hab_habpim True = gemm_enter" "ocl_change_habpim_hab True = change_habpim_hab"
  "ocl_change_hab_sb True = change_hab_sb" "ocl_park_out True = park_out"
  by (intro ext, simp add: step_defs ocl_park_in_def ocl_change_sb_hab_def ocl_program_crf_def ocl_program_crf_mod_def
      ocl_program_srf_def ocl_change_gemv_hab_habpim_def ocl_change_habpim_hab_def ocl_change_hab_sb_def ocl_park_out_def
      gemm_enter_def ocl_gemv_hab_to_hab_pim_def gemv_hab_to_hab_pim_def ocl_hab_pim_to_hab_def hab_pim_to_hab_def
      ocl_addr_gen_emulator)+

section \<open>The element-wise kernels\<close>

definition ocl_tile_addr :: "bool \<Rightarrow> nat \<Rightarrow> nat \<Rightarrow> nat \<Rightarrow> u64" where
  "ocl_tile_addr em bid tile_idx tid =
     (let loc = of_nat (tile_idx * 8 + gidx tid) :: u32; row = loc div 32; col = loc mod 32
      in ocl_addr_gen em (of_nat bid) 0 0 0 row col + offset tid)"

definition ocl_elt_tile :: "bool \<Rightarrow> u64 \<Rightarrow> u64 \<Rightarrow> u64 \<Rightarrow> nat \<Rightarrow> nat \<Rightarrow> nat \<Rightarrow> DevCmd list" where
  "ocl_elt_tile em operand0 operand1 output bid tid tile_index =
     (let addr_even = ocl_tile_addr em bid tile_index tid; addr_odd = addr_even + 0x2000
      in [R_CMD (operand0 + addr_even), B_CMD 1, R_CMD (operand1 + addr_even), B_CMD 1,
          W_CMD (output + addr_even), W_CMD (output + addr_even), R_CMD (output + addr_even), B_CMD 1,
          R_CMD (operand0 + addr_odd), B_CMD 1, R_CMD (operand1 + addr_odd), B_CMD 1,
          W_CMD (output + addr_odd), W_CMD (output + addr_odd), R_CMD (output + addr_odd), B_CMD 1])"

definition ocl_fill_tile :: "bool \<Rightarrow> u64 \<Rightarrow> u64 \<Rightarrow> nat \<Rightarrow> nat \<Rightarrow> nat \<Rightarrow> DevCmd list" where
  "ocl_fill_tile em pim_data output bid tid tile_idx =
     (let addr_even = ocl_tile_addr em bid tile_idx tid; addr_odd = addr_even + 0x2000
      in [R_CMD (pim_data + addr_even), B_CMD 1, W_CMD (output + addr_even), R_CMD (output + addr_even), B_CMD 1,
          R_CMD (pim_data + addr_odd), B_CMD 1, W_CMD (output + addr_odd), R_CMD (output + addr_odd), B_CMD 1])"

definition ocl_bn_tile :: "bool \<Rightarrow> u64 \<Rightarrow> u64 \<Rightarrow> nat \<Rightarrow> nat \<Rightarrow> nat \<Rightarrow> DevCmd list" where
  "ocl_bn_tile em pim_data output bid tid tile_idx =
     (let addr_even = ocl_tile_addr em bid tile_idx tid; addr_odd = addr_even + 0x2000
      in [R_CMD (pim_data + addr_even), B_CMD 1, R_CMD (pim_data + addr_even), B_CMD 1,
          R_CMD (pim_data + addr_even), B_CMD 1, R_CMD (pim_data + addr_even), B_CMD 1,
          R_CMD (pim_data + addr_odd), B_CMD 1, R_CMD (pim_data + addr_odd), B_CMD 1,
          R_CMD (pim_data + addr_odd), B_CMD 1,
          W_CMD (output + addr_even), B_CMD 1, W_CMD (output + addr_odd), R_CMD (output + addr_odd), B_CMD 1])"

definition ocl_elt_prologue :: "bool \<Rightarrow> u64 \<Rightarrow> u8 list \<Rightarrow> nat \<Rightarrow> Phase list" where
  "ocl_elt_prologue em ctr crf_binary bid =
     [All (\<lambda>tid. ocl_park_in em ctr bid (gidx tid) 4 (offset tid)),
      Below 2 (\<lambda>tid. ocl_change_sb_hab em ctr bid (offset tid) @ ocl_program_crf em ctr bid (gidx tid) crf_binary (offset tid)
        @ ocl_change_hab_habpim em ctr bid (offset tid) @ [B_CMD 1])]"

definition ocl_elt_epilogue :: "bool \<Rightarrow> u64 \<Rightarrow> nat \<Rightarrow> Phase list" where
  "ocl_elt_epilogue em ctr bid =
     [Below 4 (\<lambda>tid. ocl_change_habpim_hab em ctr bid (offset tid) @ ocl_change_hab_sb em ctr bid (gidx tid) (offset tid)),
      All (\<lambda>tid. ocl_park_out em ctr bid (gidx tid) 4 (offset tid))]"

definition ocl_elt_op_pim_code :: "bool \<Rightarrow> u64 \<Rightarrow> u64 \<Rightarrow> u64 \<Rightarrow> u64 \<Rightarrow> int \<Rightarrow> u8 list \<Rightarrow> nat \<Rightarrow> Phase list" where
  "ocl_elt_op_pim_code em operand0 operand1 output pim_ctr num_tile crf_binary bid =
     ocl_elt_prologue em pim_ctr crf_binary bid
     @ [Below 16 (\<lambda>tid. concat (map (ocl_elt_tile em operand0 operand1 output bid tid) [0..<nat num_tile]))]
     @ ocl_elt_epilogue em pim_ctr bid"

definition ocl_relu_pim_code :: "bool \<Rightarrow> u64 \<Rightarrow> u64 \<Rightarrow> u64 \<Rightarrow> int \<Rightarrow> u8 list \<Rightarrow> nat \<Rightarrow> Phase list" where
  "ocl_relu_pim_code em pim_data output pim_ctr output_size crf_binary bid =
     (let out_dim = cdiv output_size 32; num_tile = cdiv (cdiv out_dim (8 * 64 * 8)) 2
      in ocl_elt_prologue em pim_ctr crf_binary bid
         @ [Below 16 (\<lambda>tid. concat (map (ocl_fill_tile em pim_data output bid tid) [0..<nat num_tile]))]
         @ ocl_elt_epilogue em pim_ctr bid)"

definition ocl_copy_pim_code :: "bool \<Rightarrow> u64 \<Rightarrow> u64 \<Rightarrow> u64 \<Rightarrow> int \<Rightarrow> u8 list \<Rightarrow> nat \<Rightarrow> Phase list" where
  "ocl_copy_pim_code em pim_data output pim_ctr sz crf_binary bid =
     (let out_dim = cdiv sz 32; num_tile = cdiv (cdiv out_dim (8 * 64 * 8)) 2
      in ocl_elt_prologue em pim_ctr crf_binary bid
         @ [Below 16 (\<lambda>tid. concat (map (ocl_fill_tile em pim_data output bid tid) [0..<nat num_tile]))]
         @ ocl_elt_epilogue em pim_ctr bid)"

definition ocl_bn_pim_nr_sip_code ::
    "bool \<Rightarrow> u64 \<Rightarrow> u64 \<Rightarrow> u64 \<Rightarrow> int \<Rightarrow> u8 list \<Rightarrow> int \<Rightarrow> u8 list \<Rightarrow> nat \<Rightarrow> Phase list" where
  "ocl_bn_pim_nr_sip_code em pim_data output pim_ctr num_tile crf_binary crf_size srf_binary bid =
     [All (\<lambda>tid. ocl_park_in em pim_ctr bid (gidx tid) 4 (offset tid)),
      Below 2 (\<lambda>tid. ocl_change_sb_hab em pim_ctr bid (offset tid) @ ocl_program_srf em pim_ctr bid srf_binary (offset tid)
        @ ocl_change_hab_habpim em pim_ctr bid (offset tid) @ [B_CMD 1]),
      Below (nat (drop_bit 4 crf_size)) (\<lambda>tid. ocl_program_crf_mod em pim_ctr bid tid (gidx tid) crf_binary (offset tid)),
      Below 16 (\<lambda>tid. concat (map (ocl_bn_tile em pim_data output bid tid) [0..<nat num_tile]))]
     @ ocl_elt_epilogue em pim_ctr bid"

lemma ocl_tiles_emulator:
  "ocl_elt_tile True = elt_tile" "ocl_fill_tile True = fill_tile" "ocl_bn_tile True = bn_tile"
  "ocl_elt_epilogue True = elt_epilogue"
  by (intro ext, simp add: ocl_elt_tile_def elt_tile_def ocl_fill_tile_def fill_tile_def ocl_bn_tile_def bn_tile_def
      ocl_elt_epilogue_def elt_epilogue_def ocl_steps_emulator ocl_tile_addr_def tile_addr_def tile_odd_def Let_def
      ocl_addr_gen_emulator)+

text \<open>The difference between the tables shows in the command number 11 of thread 0, which switches the mode.\<close>

definition other_switch :: "u64 \<Rightarrow> nat \<Rightarrow> nat \<Rightarrow> DevCmd list \<Rightarrow> DevCmd list" where
  "other_switch ctr bid tid cs =
     (if tid = 0 then cs[11 := W_CMD_R (ctr + addr_gen (of_nat bid) 0 0 0 0x3fff 0) (0x01 # replicate 12 0 @ [0x01, 0, 0])]
      else cs)"

lemma other_switch_phases:
  assumes "\<And>t. length (x t) = 1"
  shows "thread_code (All (\<lambda>t. park_in ctr bid (gidx t) 4 (offset t))
      # Below 2 (\<lambda>t. change_sb_hab ctr bid (offset t) @ x t @ ocl_change_hab_habpim True ctr bid (offset t) @ [B_CMD 1]) # rest) tid
    = other_switch ctr bid tid (thread_code (All (\<lambda>t. park_in ctr bid (gidx t) 4 (offset t))
      # Below 2 (\<lambda>t. change_sb_hab ctr bid (offset t) @ x t @ change_hab_habpim ctr bid (offset t) @ [B_CMD 1]) # rest) tid)"
proof -
  consider "tid = 0" | "tid = 1" | "2 \<le> tid" by linarith
  then show ?thesis
  proof cases
    case 1
    let ?xs = "park_in ctr bid (gidx 0) 4 (offset 0) @ change_sb_hab ctr bid (offset 0) @ x 0"
      and ?a = "ctr + addr_gen (of_nat bid) 0 0 0 0x3fff 0"
    let ?zs = "R_CMD ?a # B_CMD 1 # concat (map (phase_code 0) rest)"
    have len: "length ?xs = 11" using assms by simp
    have t: "bytes16 ocl_hab_to_hab_pim 0 = 0x01 # replicate 12 0 @ [0x01, 0, 0]"
      by (simp add: bytes16_def ocl_hab_to_hab_pim_def numeral_eq_Suc)
    have "thread_code (All (\<lambda>t. park_in ctr bid (gidx t) 4 (offset t))
        # Below 2 (\<lambda>t. change_sb_hab ctr bid (offset t) @ x t @ ocl_change_hab_habpim True ctr bid (offset t) @ [B_CMD 1]) # rest) 0
      = ?xs @ W_CMD_R ?a (0x01 # replicate 12 0 @ [0x01, 0, 0]) # ?zs"
      unfolding t [symmetric] by (simp add: thread_code_def ocl_change_hab_habpim_def Let_def ocl_addr_gen_emulator offset_def)
    also have "\<dots> = (?xs @ W_CMD_R ?a (bytes16 hab_to_hab_pim 0) # ?zs)
        [11 := W_CMD_R ?a (0x01 # replicate 12 0 @ [0x01, 0, 0])]"
      unfolding len [symmetric] by (rule list_update_length [symmetric])
    also have "?xs @ W_CMD_R ?a (bytes16 hab_to_hab_pim 0) # ?zs
      = thread_code (All (\<lambda>t. park_in ctr bid (gidx t) 4 (offset t))
        # Below 2 (\<lambda>t. change_sb_hab ctr bid (offset t) @ x t @ change_hab_habpim ctr bid (offset t) @ [B_CMD 1]) # rest) 0"
      by (simp add: thread_code_def change_hab_habpim_def Let_def offset_def)
    finally show ?thesis unfolding 1 other_switch_def by simp
  next
    case 2
    then show ?thesis
      by (simp add: other_switch_def thread_code_def ocl_change_hab_habpim_def change_hab_habpim_def ocl_addr_gen_emulator Let_def
          offset_def bytes16_def ocl_hab_to_hab_pim_def hab_to_hab_pim_def)
  next
    case 3
    then show ?thesis by (simp add: other_switch_def thread_code_def)
  qed
qed

text \<open>C16: in an emulator build every element-wise OpenCL kernel issues, thread for thread, the commands of the HIP kernel of the
  same operation, except that the first half of the switch to HAB-PIM mode has a 1 in byte 13 as well.
\<close>

theorem ocl_elt_kernels_agree:
  "thread_code (ocl_elt_op_pim_code True operand0 operand1 output ctr n crf bid) tid
     = other_switch ctr bid tid (thread_code (elt_op_pim_code operand0 operand1 ctr output n crf bid) tid)
   \<and> thread_code (ocl_relu_pim_code True operand0 output ctr sz crf bid) tid
     = other_switch ctr bid tid (thread_code (relu_pim_code operand0 ctr output sz crf bid) tid)
   \<and> thread_code (ocl_copy_pim_code True operand0 output ctr sz crf bid) tid
     = other_switch ctr bid tid (thread_code (copy_pim_code operand0 ctr output sz crf bid) tid)
   \<and> thread_code (ocl_bn_pim_nr_sip_code True operand0 output ctr n crf crf_size srf bid) tid
     = other_switch ctr bid tid (thread_code (bn_pim_nr_sip_code operand0 ctr output n crf crf_size srf bid) tid)"
proof -
  note e = ocl_elt_prologue_def elt_prologue_def ocl_tiles_emulator ocl_steps_emulator append_Cons append_Nil
  note p = other_switch_phases [of "\<lambda>t. program_crf ctr bid (gidx t) crf (offset t)" ctr bid, simplified]
    and q = other_switch_phases [of "\<lambda>t. program_srf ctr bid srf (offset t)" ctr bid, simplified]
  have "thread_code (ocl_elt_op_pim_code True operand0 operand1 output ctr n crf bid) tid
     = other_switch ctr bid tid (thread_code (elt_op_pim_code operand0 operand1 ctr output n crf bid) tid)"
    unfolding ocl_elt_op_pim_code_def elt_op_pim_code_def e by (rule p)
  moreover have "thread_code (ocl_relu_pim_code True operand0 output ctr sz crf bid) tid
     = other_switch ctr bid tid (thread_code (relu_pim_code operand0 ctr output sz crf bid) tid)"
    unfolding ocl_relu_pim_code_def relu_pim_code_def fill_num_tile_def Let_def e by (rule p)
  moreover have "thread_code (ocl_copy_pim_code True operand0 output ctr sz crf bid) tid
     = other_switch ctr bid tid (thread_code (copy_pim_code operand0 ctr output sz crf bid) tid)"
    unfolding ocl_copy_pim_code_def copy_pim_code_def fill_num_tile_def Let_def e by (rule p)
  moreover have "thread_code (ocl_bn_pim_nr_sip_code True operand0 output ctr n crf crf_size srf bid) tid
     = other_switch ctr bid tid (thread_code (bn_pim_nr_sip_code operand0 ctr output n crf crf_size srf bid) tid)"
    unfolding ocl_bn_pim_nr_sip_code_def bn_pim_nr_sip_code_def e by (rule q)
  ultimately show ?thesis by blast
qed

section \<open>The channel-wise kernels\<close>

definition ocl_gemm_frame :: "bool \<Rightarrow> dev_read \<Rightarrow> GemmArgs \<Rightarrow> nat \<Rightarrow> (nat \<Rightarrow> DevCmd list) \<Rightarrow> Phase list" where
  "ocl_gemm_frame em rd a bid compute =
     (let ctr = ptr (ga_base a); crf = rd (ptr (ga_crf a)) (nat (ga_crf_size a))
      in [Below 32 (\<lambda>tid. ocl_park_in em ctr bid (gidx tid) 4 (offset tid)),
          Below 2 (\<lambda>tid. ocl_change_sb_hab em ctr bid (offset tid)),
          Below (nat (drop_bit 4 (ga_crf_size a))) (\<lambda>tid. ocl_program_crf_mod em ctr bid tid (gidx tid) crf (offset tid)),
          Below 16 compute,
          Below 4 (\<lambda>tid. ocl_change_hab_sb em ctr bid (gidx tid) (offset tid)),
          Below 32 (\<lambda>tid. ocl_park_out em ctr bid (gidx tid) 4 (offset tid))])"

definition ocl_grf_tile :: "bool \<Rightarrow> dev_read \<Rightarrow> u64 \<Rightarrow> u64 \<Rightarrow> u64 \<Rightarrow> nat \<Rightarrow> nat \<Rightarrow> u32 \<Rightarrow> nat \<Rightarrow> DevCmd list" where
  "ocl_grf_tile em rd ctr input weight ch tid bank i_idx =
     (let i_addr = push_bit 5 (0 + of_nat (i_idx * 8 + gidx tid));
          a = ctr + (ocl_addr_gen em (of_nat ch) 0 0 bank 0x3fff (0x8 + of_nat (gidx tid)) + offset tid);
          even_row = (i_idx div 2 + 0) * 2;
          odd_row = even_row + 1;
          burst = (\<lambda>row c. R_CMD (weight + (ocl_addr_gen em (of_nat ch) 0 0 bank (of_nat row) (of_nat (gidx tid + c)) + offset tid)))
      in [W_CMD_R a (rd (input + (i_addr + offset tid)) 16), R_CMD a, B_CMD 1,
          burst even_row 0, burst even_row 8, burst even_row 16, burst even_row 24,
          burst odd_row 0, burst odd_row 8, burst odd_row 16, burst odd_row 24, B_CMD 1])"

definition ocl_chwise_pass ::
    "bool \<Rightarrow> dev_read \<Rightarrow> u64 \<Rightarrow> nat list \<Rightarrow> nat list \<Rightarrow> nat \<Rightarrow> nat \<Rightarrow> u64 \<Rightarrow> u64 \<Rightarrow> u64 \<Rightarrow> DevCmd list" where
  "ocl_chwise_pass em rd ctr evens odds ch tid input weight psum =
     (let a = ctr + (ocl_addr_gen em (of_nat ch) 0 0 0 0x3fff 0x0 + offset tid);
          p = psum + (ocl_addr_gen em (of_nat ch) 0 0 1 0 (of_nat (gidx tid mod 32)) + offset tid)
      in [W_CMD_R a (bytes16 ocl_gemv_hab_to_hab_pim (offset tid)), R_CMD a, B_CMD 1]
         @ concat (map (ocl_grf_tile em rd ctr input weight ch tid 0) evens)
         @ concat (map (ocl_grf_tile em rd ctr input weight ch tid 1) odds)
         @ [W_CMD p, W_CMD p, R_CMD p, B_CMD 1]
         @ ocl_change_habpim_hab em ctr ch (offset tid))"

definition ocl_chwise_compute :: "bool \<Rightarrow> dev_read \<Rightarrow> GemmArgs \<Rightarrow> int \<Rightarrow> int \<Rightarrow> nat list \<Rightarrow> nat list \<Rightarrow> nat \<Rightarrow> nat \<Rightarrow> DevCmd list" where
  "ocl_chwise_compute em rd a ops chs evens odds ch tid =
     chwise_iters (ocl_chwise_pass em rd (ptr (ga_base a)) evens odds ch tid)
       (of_int (i32 (uint (ga_in_w a) * ops * 2))) (of_int (i32 (uint (ga_in_w a) * 2 ^ 13)))
       (nat (sint (ga_in_h a))) (nat (ga_iter_cnt a))
       (ptr (ga_input a) + of_int (int ch div (chs mod 2 ^ 32) * uint (ga_in_w a) * 2 mod 2 ^ 32)) (ptr (ga_weight a)) (ptr (ga_tmp a))"

definition ocl_pim_chwise_gemm_code :: "bool \<Rightarrow> dev_read \<Rightarrow> GemmArgs \<Rightarrow> nat \<Rightarrow> Phase list option" where
  "ocl_pim_chwise_gemm_code em rd a bid = do {
     ops \<leftarrow> ops_per_pass a;
     chs \<leftarrow> chs_per_op a;
     Some (ocl_gemm_frame em rd a bid
       (ocl_chwise_compute em rd a ops chs (by_two 0 (nat (ga_in_tile a))) (by_two 1 (nat (ga_in_tile a))) bid))
   }"

definition ocl_pim_chwise_gemm_32tile_code :: "bool \<Rightarrow> dev_read \<Rightarrow> GemmArgs \<Rightarrow> nat \<Rightarrow> Phase list option" where
  "ocl_pim_chwise_gemm_32tile_code em rd a bid = do {
     ops \<leftarrow> ops_per_pass a;
     chs \<leftarrow> chs_per_op a;
     Some (ocl_gemm_frame em rd a bid
       (ocl_chwise_compute em rd a ops chs (map (\<lambda>i. 2 * i) [0..<16]) (map (\<lambda>i. 1 + 2 * i) [0..<16]) bid))
   }"

lemma ocl_gemm_frame_emulator: "ocl_gemm_frame True = gemm_frame"
  by (intro ext) (simp add: ocl_gemm_frame_def gemm_frame_def ocl_steps_emulator)

lemma ocl_chwise_compute_emulator:
  assumes "tid < 16"
  shows "ocl_chwise_compute True rd a ops chs evens odds ch tid = chwise_compute rd a ops chs evens odds ch tid"
proof -
  have g: "gidx tid < 8" using assms by (simp add: gidx_def)
  have "ocl_grf_tile True rd ctr input weight ch tid bank = grf_tile rd ctr input weight ch tid bank 0 0" for ctr input weight bank
    by (intro ext) (simp add: ocl_grf_tile_def grf_tile_def Let_def ocl_addr_gen_emulator grf_addr_def input_addr_def weight_addr_def)
  then have "ocl_chwise_pass True rd ctr evens odds ch tid input weight psum
      = gemm_pass rd ctr input weight psum evens odds 0 0 (gidx tid) ch tid" for ctr input weight psum
    using g by (simp add: ocl_chwise_pass_def gemm_pass_def gemm_enter_def gemm_store_def psum_addr_def Let_def ocl_addr_gen_emulator
        ocl_steps_emulator ocl_gemv_hab_to_hab_pim_def gemv_hab_to_hab_pim_def)
  then have "ocl_chwise_pass True rd ctr evens odds ch tid
      = (\<lambda>input weight psum. gemm_pass rd ctr input weight psum evens odds 0 0 (gidx tid) ch tid)" for ctr
    by (intro ext)
  then show ?thesis by (simp only: ocl_chwise_compute_def chwise_compute_def)
qed

lemma gemm_frame_cong:
  "(tid < 16 \<Longrightarrow> f tid = f' tid) \<Longrightarrow> thread_code (gemm_frame rd a bid f) tid = thread_code (gemm_frame rd a bid f') tid"
  by (simp add: thread_code_def gemm_frame_def Let_def)

section \<open>The aligned kernels\<close>

text \<open>
  Input tile \<open>2 i + bk\<close> with the eight bursts of the weight. The kernel for eight tiles has the code of the general one.
\<close>

definition ocl_aligned_tile :: "bool \<Rightarrow> dev_read \<Rightarrow> GemmArgs \<Rightarrow> nat \<Rightarrow> nat \<Rightarrow> nat \<Rightarrow> nat \<Rightarrow> nat \<Rightarrow> nat \<Rightarrow> nat \<Rightarrow> DevCmd list" where
  "ocl_aligned_tile em rd a ch tid b in_idx o_idx bk i =
     (let n_in = nat (ga_in_tile a); n_out = nat (ga_out_tile a); h = nat (sint (ga_in_h a));
          i_addr = (b * h * n_in + in_idx * n_in + i * 2 + bk) * 2 ^ 3 * 2 ^ 5 + tid * 16;
          p = ptr (ga_base a) + ocl_addr_gen_s em (of_nat ch) 0 0 (of_nat bk) 0x3fff 0x8 (of_nat (tid * 16));
          offset_unsafe = (b * n_out * n_in + o_idx * n_in + i * 2) * 2 ^ 3 * 2 ^ 5 * n_in div 2 + tid * 16
      in [W_CMD_R p (rd (ptr (ga_input a) + of_nat i_addr) 16), R_CMD p, B_CMD 1]
         @ map (\<lambda>j. R_CMD (ptr (ga_weight a)
             + ocl_addr_gen_s em (of_nat ch) 0 0 (of_nat bk) (of_nat (j div 4)) (of_nat (j mod 4 * 8)) (of_nat offset_unsafe))) [0..<8]
         @ [B_CMD 1])"

definition ocl_aligned_store :: "bool \<Rightarrow> GemmArgs \<Rightarrow> nat \<Rightarrow> nat \<Rightarrow> nat \<Rightarrow> nat \<Rightarrow> nat \<Rightarrow> DevCmd list" where
  "ocl_aligned_store em a ch tid b in_idx o_idx =
     (let n_out = nat (ga_out_tile a); h = nat (sint (ga_in_h a));
          offset_unsafe = (b * h * n_out + in_idx * n_out + o_idx) * 2 ^ 3 * 2 ^ 5 + tid * 16 + gidx tid;
          p = ptr (ga_tmp a) + ocl_addr_gen_s em (of_nat ch) 0 0 1 0 0 (of_nat offset_unsafe)
      in [W_CMD p, W_CMD p, R_CMD p, B_CMD 1])"

definition ocl_aligned_pass :: "bool \<Rightarrow> dev_read \<Rightarrow> GemmArgs \<Rightarrow> nat \<Rightarrow> nat \<Rightarrow> nat \<Rightarrow> nat \<Rightarrow> nat \<Rightarrow> DevCmd list" where
  "ocl_aligned_pass em rd a ch tid b in_idx o_idx =
     ocl_change_gemv_hab_habpim em (ptr (ga_base a)) ch (offset tid)
     @ concat (map (\<lambda>bk. concat (map (ocl_aligned_tile em rd a ch tid b in_idx o_idx bk) [0..<nat (ga_in_tile a) div 2])) [0..<2])
     @ ocl_aligned_store em a ch tid b in_idx o_idx
     @ ocl_change_habpim_hab em (ptr (ga_base a)) ch (offset tid)"

definition ocl_aligned_compute :: "bool \<Rightarrow> dev_read \<Rightarrow> GemmArgs \<Rightarrow> nat \<Rightarrow> nat \<Rightarrow> DevCmd list" where
  "ocl_aligned_compute em rd a ch tid =
     concat (map (\<lambda>b. concat (map (\<lambda>in_idx. concat (map (ocl_aligned_pass em rd a ch tid b in_idx)
       [0..<nat (ga_out_tile a)])) [0..<nat (sint (ga_in_h a))])) [0..<nat (ga_iter_cnt a)])"

definition ocl_pim_aligned_gemm_code :: "bool \<Rightarrow> dev_read \<Rightarrow> GemmArgs \<Rightarrow> nat \<Rightarrow> Phase list" where
  "ocl_pim_aligned_gemm_code em rd a bid = ocl_gemm_frame em rd a bid (ocl_aligned_compute em rd a bid)"

definition ocl_pim_aligned_gemm_8tile_code :: "bool \<Rightarrow> dev_read \<Rightarrow> GemmArgs \<Rightarrow> nat \<Rightarrow> Phase list" where
  "ocl_pim_aligned_gemm_8tile_code em rd a bid = ocl_gemm_frame em rd a bid (ocl_aligned_compute em rd a bid)"

text \<open>The code of a launch.\<close>

definition ocl_kernel_code :: "bool \<Rightarrow> dev_read \<Rightarrow> OclKernel \<Rightarrow> nat \<Rightarrow> Phase list option" where
  "ocl_kernel_code em rd k bid = (case k of
     ocl_elt_op_pim op0 op1 out base n crf sz \<Rightarrow>
       Some (ocl_elt_op_pim_code em (ptr op0) (ptr op1) (ptr out) (ptr base) n (rd (ptr crf) (nat sz)) bid)
   | ocl_relu_pim_operation inp out base n crf sz \<Rightarrow>
       Some (ocl_relu_pim_code em (ptr inp) (ptr out) (ptr base) n (rd (ptr crf) (nat sz)) bid)
   | ocl_copy_pim inp out base n crf sz \<Rightarrow>
       Some (ocl_copy_pim_code em (ptr inp) (ptr out) (ptr base) n (rd (ptr crf) (nat sz)) bid)
   | ocl_bn_pim_nr_sip inp out base n crf sz srf srf_sz \<Rightarrow>
       Some (ocl_bn_pim_nr_sip_code em (ptr inp) (ptr out) (ptr base) n (rd (ptr crf) (nat sz)) sz (rd (ptr srf) (nat srf_sz)) bid)
   | ocl_gemm_pim kern a \<Rightarrow> (case kern of
       pim_aligned_gemm_bias_relu_8tile_fp16 \<Rightarrow> Some (ocl_pim_aligned_gemm_8tile_code em rd a bid)
     | pim_aligned_gemm_bias_relu_fp16 \<Rightarrow> Some (ocl_pim_aligned_gemm_code em rd a bid)
     | pim_chwise_gemm_bias_relu_32tile_fp16 \<Rightarrow> ocl_pim_chwise_gemm_32tile_code em rd a bid
     | pim_chwise_gemm_bias_relu_fp16 \<Rightarrow> ocl_pim_chwise_gemm_code em rd a bid))"

text \<open>C17: in an emulator build a channel-wise launch of the OpenCL executor issues exactly the commands of the HIP launch, and divides by
  zero for the same arguments.
\<close>

theorem ocl_chwise_kernels_agree:
  "map_option (\<lambda>ps. thread_code ps tid) (ocl_kernel_code True rd (ocl_gemm_pim (chwise_kernel n_in_tile) a) bid)
     = map_option (\<lambda>ps. thread_code ps tid) (gemm_code rd (chwise_kernel n_in_tile) a bid)"
proof -
  have f: "thread_code (gemm_frame rd a bid (ocl_chwise_compute True rd a ops chs evens odds bid)) tid
      = thread_code (gemm_frame rd a bid (chwise_compute rd a ops chs evens odds bid)) tid" for ops chs evens odds
    by (rule gemm_frame_cong) (rule ocl_chwise_compute_emulator)
  show ?thesis
    by (simp add: ocl_kernel_code_def gemm_code_def chwise_kernel_def ocl_pim_chwise_gemm_code_def pim_chwise_gemm_code_def
        ocl_pim_chwise_gemm_32tile_code_def pim_chwise_gemm_32tile_code_def ocl_gemm_frame_emulator f split: bind_splits)
qed

section \<open>Positions\<close>

text \<open>The address of column \<open>n mod 32\<close> of row \<open>n div 32\<close> in bank \<open>bank\<close> of bank group 0.\<close>

definition pos_addr :: "nat \<Rightarrow> nat \<Rightarrow> nat \<Rightarrow> u64" where
  "pos_addr ch bank n = addr_gen (of_nat ch) 0 0 (of_nat bank) (of_nat (n div 32)) (of_nat (n mod 32))"

lemma ocl_addr_gen_s_pos:
  assumes "off < 2 ^ 32" "c < 2 ^ 31" "n = r * 32 + c + off div 32"
  shows "ocl_addr_gen_s True (of_nat ch) 0 0 (of_nat bank) (of_nat r) (of_nat c) (of_nat off)
    = pos_addr ch bank n + of_nat (off mod 32)"
proof -
  have dm: "y div 32 = of_nat (unat y div 32)" "y mod 32 = of_nat (unat y mod 32)" for y :: u32
    by (simp_all add: word_arith_nat_div word_arith_nat_mod)
  have o: "(of_nat off :: u32) div 32 = of_nat (off div 32)" "(of_nat off :: u32) mod 32 = of_nat (off mod 32)"
    unfolding dm unat_of_nat_u32 [OF assms(1)] by simp_all
  have "off div 32 < 2 ^ 31" using assms(1) by simp
  then have lt: "c + off div 32 < 2 ^ 32" using assms(2) by simp
  have s: "of_nat c + (of_nat off :: u32) div 32 = of_nat (c + off div 32)" unfolding o by simp
  have w: "(of_nat c + (of_nat off :: u32) div 32) div 32 = of_nat ((c + off div 32) div 32)"
    "(of_nat c + (of_nat off :: u32) div 32) mod 32 = of_nat ((c + off div 32) mod 32)"
    unfolding s by (simp_all only: dm [of "of_nat (c + off div 32)"] unat_of_nat_u32 [OF lt])
  have n: "n div 32 = r + (c + off div 32) div 32" "n mod 32 = (c + off div 32) mod 32"
    unfolding assms(3) add.assoc by simp_all
  have lo: "off mod 32 < 2 ^ 32" "off mod 32 < 2 ^ 64" by (rule less_trans [of _ 32]; simp)+
  then have "ucast ((of_nat off :: u32) mod 32) = (of_nat (off mod 32) :: u64)"
    unfolding o by (simp only: word_unat_eq_iff unsigned_ucast_eq unat_of_nat_u32 unat_of_nat_u64) (simp add: take_bit_nat_eq_self)
  then show ?thesis
    unfolding ocl_addr_gen_s_emulator w pos_addr_def n by simp
qed

lemma pos_coord:
  assumes "ch < 64" "bank < 2" "n < 2 ^ 19"
  shows "coord_ok (of_nat ch, 0, 0, of_nat bank, of_nat (n div 32), of_nat (n mod 32))"
    "unat (of_nat (n div 32) :: u32) = n div 32" "unat (of_nat (n mod 32) :: u32) = n mod 32"
proof -
  have "n div 32 < 2 ^ 14" using assms(3) by simp
  then show u: "unat (of_nat (n div 32) :: u32) = n div 32" "unat (of_nat (n mod 32) :: u32) = n mod 32"
    by (intro unat_of_nat_u32; simp)+
  have v: "unat (of_nat ch :: u32) = ch" "unat (of_nat bank :: u32) = bank" using assms by (simp_all add: unat_of_nat_u32)
  show "coord_ok (of_nat ch, 0, 0, of_nat bank, of_nat (n div 32), of_nat (n mod 32))"
    unfolding coord_ok_def prod.case word_less_nat_alt u v using assms \<open>n div 32 < 2 ^ 14\<close> by simp
qed

lemma pos_addr_inj:
  assumes "ch < 64" "bank < 2" "n < 2 ^ 19" "m < 2 ^ 19" "pos_addr ch bank n = pos_addr ch bank m"
  shows "n = m"
proof -
  from arg_cong [OF assms(5), of coord_of]
  have "of_nat (n div 32) = (of_nat (m div 32) :: u32)" "of_nat (n mod 32) = (of_nat (m mod 32) :: u32)"
    unfolding pos_addr_def coord_of_addr [OF pos_coord(1) [OF assms(1-3)]] coord_of_addr [OF pos_coord(1) [OF assms(1,2,4)]]
    by simp_all
  from this [THEN arg_cong [of _ _ unat]] have "n div 32 = m div 32" "n mod 32 = m mod 32"
    unfolding pos_coord(2,3) [OF assms(1-3)] pos_coord(2,3) [OF assms(1,2,4)] .
  then have "n div 32 * 32 + n mod 32 = m div 32 * 32 + m mod 32" by (simp only:)
  then show ?thesis unfolding div_mult_mod_eq .
qed

text \<open>Whole rows are \<open>2 ^ 20\<close> bytes apart.\<close>

lemma pos_addr_rows:
  assumes "ch < 64" "bank < 2" "d * 32 + n < 2 ^ 19"
  shows "pos_addr ch bank (d * 32 + n) = of_nat (d * 2 ^ 20) + pos_addr ch bank n"
proof -
  have n: "n < 2 ^ 19" using assms(3) by simp
  note u = unat_addr_gen [OF pos_coord(1) [OF assms(1,2)], folded pos_addr_def]
  have e: "(d * 32 + n) div 32 = d + n div 32" "(d * 32 + n) mod 32 = n mod 32" by simp_all
  have s: "unat (pos_addr ch bank (d * 32 + n)) = d * 2 ^ 20 + unat (pos_addr ch bank n)"
    unfolding u [OF assms(3)] u [OF n] unfolding pos_coord(2,3) [OF assms] pos_coord(2,3) [OF assms(1,2) n] unfolding e
    by simp
  have "d * 2 ^ 20 < 2 ^ 64" using assms(3) by simp
  then have "unat (of_nat (d * 2 ^ 20) :: u64) = d * 2 ^ 20" by (rule unat_of_nat_u64)
  moreover have "unat (pos_addr ch bank (d * 32 + n)) < 2 ^ 64" using unsigned_less [of "pos_addr ch bank (d * 32 + n)"] by simp
  ultimately have "unat (of_nat (d * 2 ^ 20) + pos_addr ch bank n) = unat (pos_addr ch bank (d * 32 + n))"
    unfolding s by (simp add: unat_word_ariths del: of_nat_mult)
  then show ?thesis by (simp add: word_unat_eq_iff)
qed

lemma half_split:
  assumes "e < 16"
  shows "(x * 32 + tid * 16 + e) div 32 = x + gidx tid" "(x * 32 + tid * 16 + e) mod 32 = tid mod 2 * 16 + e"
proof -
  have "tid = gidx tid * 2 + tid mod 2" unfolding gidx_def by (rule div_mult_mod_eq [symmetric])
  then have "tid * 16 = gidx tid * 32 + tid mod 2 * 16" using arg_cong [of tid _ "\<lambda>t. t * 16"] by (simp add: add_mult_distrib)
  then have s: "x * 32 + tid * 16 + e = (x + gidx tid) * 32 + (tid mod 2 * 16 + e)" by (simp add: add_mult_distrib)
  have "tid mod 2 < 2" by simp
  then have "tid mod 2 * 16 + e < 2 * 16" using assms by (rule radix_bound)
  then have l: "tid mod 2 * 16 + e < 32" by simp
  show "(x * 32 + tid * 16 + e) div 32 = x + gidx tid" "(x * 32 + tid * 16 + e) mod 32 = tid mod 2 * 16 + e"
    unfolding s by (rule slot_split [OF l])+
qed

lemma half_split_0: "(x * 32 + tid * 16) div 32 = x + gidx tid" "(x * 32 + tid * 16) mod 32 = tid mod 2 * 16"
  using half_split [of 0 x tid] by (simp_all only: add_0_right)

lemma ocl_grf_addr:
  assumes "tid < 16"
  shows "ocl_addr_gen_s True (of_nat ch) 0 0 (of_nat bk) 0x3fff 0x8 (of_nat (tid * 16)) = grf_addr ch (of_nat bk) tid"
proof -
  have g: "8 + gidx tid < 32" using assms by (simp add: gidx_def)
  have h: "tid * 16 div 32 = gidx tid" "tid * 16 mod 32 = tid mod 2 * 16" using half_split_0 [of 0 tid] by simp_all
  have "0x3fff * 32 + 8 + tid * 16 div 32 = 0x3fff * 32 + (8 + gidx tid)" unfolding h by simp
  from ocl_addr_gen_s_pos [OF _ _ this [symmetric], where ch = ch and bank = bk]
  have "ocl_addr_gen_s True (of_nat ch) 0 0 (of_nat bk) (of_nat 0x3fff) (of_nat 8) (of_nat (tid * 16))
      = pos_addr ch bk (0x3fff * 32 + (8 + gidx tid)) + of_nat (tid * 16 mod 32)" using assms by simp
  then show ?thesis unfolding pos_addr_def slot_split [OF g] h offset_def grf_addr_def by (simp add: offset_def)
qed

text \<open>
  A burst of the OpenCL kernel: with \<open>2 H\<close> input tiles, pass \<open>q\<close> over a pair of tiles starts \<open>16 H q\<close> columns into the bank, in the
  HIP kernel \<open>64 q\<close> columns.
\<close>

definition ocl_burst :: "GemmArgs \<Rightarrow> nat \<Rightarrow> nat \<Rightarrow> nat \<Rightarrow> nat \<Rightarrow> nat \<Rightarrow> DevCmd" where
  "ocl_burst a ch tid bk q j =
     R_CMD (ptr (ga_weight a) + (pos_addr ch bk (q * (nat (ga_in_tile a) div 2 * 16) + (j * 8 + gidx tid)) + offset tid))"

lemma ocl_burst_addr:
  assumes "ga_in_tile a = 2 * int H" "tid < 16" "j < 8" "q * (H * 512) + 512 < 2 ^ 32"
    "off = q * 2 * 2 ^ 3 * 2 ^ 5 * nat (ga_in_tile a) div 2 + tid * 16"
  shows "R_CMD (ptr (ga_weight a)
       + ocl_addr_gen_s True (of_nat ch) 0 0 (of_nat bk) (of_nat (j div 4)) (of_nat (j mod 4 * 8)) (of_nat off))
    = ocl_burst a ch tid bk q j"
proof -
  have H: "nat (ga_in_tile a) = 2 * H" using assms(1) by simp
  have "q * 2 * 2 ^ 3 * 2 ^ 5 * (2 * H) div 2 = q * (H * 512)" by simp
  then have o: "off = q * (H * 16) * 32 + tid * 16" unfolding assms(5) H by simp
  have "tid * 16 < 512" using assms(2) by simp
  moreover have "off = q * (H * 512) + tid * 16" unfolding o by simp
  ultimately have lt: "off < 2 ^ 32" using assms(4) by linarith
  note h = half_split_0 [of "q * (H * 16)" tid, folded o]
  have x: "(c * 4 + d) * 8 = c * 32 + d * 8" for c d :: nat by simp
  have "j * 8 = j div 4 * 32 + j mod 4 * 8" unfolding x [symmetric] div_mult_mod_eq ..
  then have n: "q * (H * 16) + (j * 8 + gidx tid) = j div 4 * 32 + j mod 4 * 8 + off div 32" unfolding h by simp
  have "j mod 4 * 8 < 2 ^ 31" by (rule less_trans [of _ 32]) simp_all
  from ocl_addr_gen_s_pos [OF lt this n, of ch bk] show ?thesis unfolding ocl_burst_def H h offset_def by simp
qed

lemma hip_burst:
  assumes "s < 8" "tid < 16"
  shows "grf_tile rd ctr input weight ch tid (of_nat bk) i_off (oi * (2 * H) div 2) k ! (3 + s)
    = R_CMD (weight + (pos_addr ch bk ((oi * H + k div 2) * 64 + (s * 8 + gidx tid)) + offset tid))"
proof -
  have g: "gidx tid < 8" using assms(2) by (simp add: gidx_def)
  show ?thesis unfolding grf_tile_nth [OF assms(1)] weight_addr_def pos_addr_def
      burst_position [OF assms(1) g, where oi = oi and H = H and k = k] ..
qed

section \<open>Where the aligned kernels agree\<close>

lemma ocl_tile_nth:
  assumes "ga_in_tile a = 2 * int H" "tid < 16" "s < 8"
    "((b * nat (ga_out_tile a) + oi) * H + i) * (H * 512) + 512 < 2 ^ 32"
  shows "ocl_aligned_tile True rd a ch tid b in_idx oi bk i ! (3 + s) = ocl_burst a ch tid bk ((b * nat (ga_out_tile a) + oi) * H + i) s"
proof -
  let ?q = "(b * nat (ga_out_tile a) + oi) * H + i"
  have n: "nat (ga_in_tile a) = 2 * H" using assms(1) by simp
  have q: "b * nat (ga_out_tile a) * nat (ga_in_tile a) + oi * nat (ga_in_tile a) + i * 2 = ?q * 2"
    unfolding n by (simp add: add_mult_distrib)
  have "ocl_aligned_tile True rd a ch tid b in_idx oi bk i ! (3 + s) = R_CMD (ptr (ga_weight a)
      + ocl_addr_gen_s True (of_nat ch) 0 0 (of_nat bk) (of_nat (s div 4)) (of_nat (s mod 4 * 8))
          (of_nat ((b * nat (ga_out_tile a) * nat (ga_in_tile a) + oi * nat (ga_in_tile a) + i * 2) * 2 ^ 3 * 2 ^ 5 * nat (ga_in_tile a) div 2 + tid * 16)))"
    using assms(3) unfolding ocl_aligned_tile_def Let_def by (simp add: nth_append del: of_nat_add of_nat_mult upt_rec_numeral)
  then show ?thesis unfolding q using ocl_burst_addr [OF assms(1-4) refl] by simp
qed

text \<open>C15: for an even number \<open>2 H\<close> of input tiles, the aligned OpenCL kernel reads, for input tile \<open>2 i + bk\<close> and output tile \<open>oi\<close> of the
  first weight matrix, the bursts that the HIP kernel reads and the conversion of the weight wrote, exactly if there are
  eight input tiles, or for the first pair of tiles: the byte offset is multiplied by half the number of tiles where the
  layout has the constant 4.
\<close>

theorem ocl_aligned_bursts_iff:
  assumes "ga_in_tile a = 2 * int H" "i < H" "oi < Y" "Y * H * (H * 16 + 64) \<le> 2 ^ 19" "ch < 64" "bk < 2" "tid < 16" "s < 8"
  shows "ocl_aligned_tile True rd a ch tid 0 in_idx oi bk i ! (3 + s)
      = grf_tile rd ctr input (ptr (ga_weight a)) ch tid (of_nat bk) i_off (oi * (2 * H) div 2) (2 * i + bk) ! (3 + s)
    \<longleftrightarrow> H = 4 \<or> oi = 0 \<and> i = 0"
proof -
  let ?q = "oi * H + i"
  have g: "s * 8 + gidx tid < 64" using radix_bound [of s 8 "gidx tid" 8] assms(7,8) by (simp add: gidx_def)
  have q: "?q + 1 \<le> Y * H" using radix_bound [OF assms(3,2)] by simp
  have "(?q + 1) * (H * 16 + 64) \<le> 2 ^ 19" using mult_le_mono1 [OF q, of "H * 16 + 64"] assms(4) by linarith
  then have b: "?q * (H * 16) + ?q * 64 + H * 16 + 64 \<le> 2 ^ 19" by (simp add: algebra_simps)
  then have n: "?q * (H * 16) + (s * 8 + gidx tid) < 2 ^ 19" "?q * 64 + (s * 8 + gidx tid) < 2 ^ 19" using g by linarith+
  have "?q * (H * 512) = ?q * (H * 16) * 32" by simp
  moreover have "?q * (H * 16) \<le> 2 ^ 19" using b by (rule order.trans [rotated]) simp
  ultimately have "?q * (H * 512) \<le> 2 ^ 19 * 32" by (simp only: mult_le_mono1)
  then have "?q * (H * 512) + 512 < 2 ^ 32" by (rule le_less_trans [OF add_le_mono1]) simp
  then have lt: "((0 * nat (ga_out_tile a) + oi) * H + i) * (H * 512) + 512 < 2 ^ 32" by (simp only: mult_zero_left add_0)
  have k: "(2 * i + bk) div 2 = i" using assms(6) by simp
  have h: "nat (ga_in_tile a) div 2 * 16 = H * 16" using assms(1) by simp
  have "ocl_aligned_tile True rd a ch tid 0 in_idx oi bk i ! (3 + s) = ocl_burst a ch tid bk ?q s"
    using ocl_tile_nth [OF assms(1,7,8) lt] by simp
  then have "ocl_aligned_tile True rd a ch tid 0 in_idx oi bk i ! (3 + s)
      = grf_tile rd ctr input (ptr (ga_weight a)) ch tid (of_nat bk) i_off (oi * (2 * H) div 2) (2 * i + bk) ! (3 + s)
    \<longleftrightarrow> pos_addr ch bk (?q * (H * 16) + (s * 8 + gidx tid)) = pos_addr ch bk (?q * 64 + (s * 8 + gidx tid))"
    unfolding hip_burst [OF assms(8,7)] ocl_burst_def k h by simp
  also have "\<dots> \<longleftrightarrow> ?q * (H * 16) + (s * 8 + gidx tid) = ?q * 64 + (s * 8 + gidx tid)"
    by (rule iffI, erule pos_addr_inj [OF assms(5,6) n], simp only:)
  also have "\<dots> \<longleftrightarrow> ?q * (H * 16) = ?q * 64" by (simp only: add_right_cancel)
  also have "\<dots> \<longleftrightarrow> H = 4 \<or> ?q = 0" by (simp only: mult_cancel1) (rule iffI; linarith)
  also have "?q = 0 \<longleftrightarrow> oi = 0 \<and> i = 0" using assms(2) by simp
  finally show ?thesis .
qed

lemma ocl_aligned_bursts_iff_witness:
  "ocl_aligned_tile True (\<lambda>_ n. replicate n 0) (gemm_example\<lparr>ga_in_tile := 16\<rparr>) 5 9 0 0 0 1 3 ! (3 + 2)
      \<noteq> grf_tile (\<lambda>_ n. replicate n 0) 0 0 (ptr (ga_weight (gemm_example\<lparr>ga_in_tile := 16\<rparr>))) 5 9 (of_nat 1) 0 (0 * (2 * 8) div 2) (2 * 3 + 1) ! (3 + 2)
    \<and> ocl_aligned_tile True (\<lambda>_ n. replicate n 0) gemm_example 5 9 0 0 0 1 3 ! (3 + 2)
      = grf_tile (\<lambda>_ n. replicate n 0) 0 0 (ptr (ga_weight gemm_example)) 5 9 (of_nat 1) 0 (0 * (2 * 4) div 2) (2 * 3 + 1) ! (3 + 2)"
  using ocl_aligned_bursts_iff [of "gemm_example\<lparr>ga_in_tile := 16\<rparr>" 8 3 0 1 5 1 9 2 "\<lambda>_ n. replicate n 0" 0 0 0 0]
    ocl_aligned_bursts_iff [of gemm_example 4 3 0 1 5 1 9 2 "\<lambda>_ n. replicate n 0" 0 0 0 0]
  by (simp only: simp_thms) (simp add: gemm_example_def)

lemma aligned_iters_nest:
  "aligned_iters pass step h n_out k w c
    = concat (map (\<lambda>b. concat (map (\<lambda>in_idx. concat (map (pass (w + of_nat b * step) (c + b * h + in_idx)) [0..<n_out])) [0..<h])) [0..<k])"
proof (induction k arbitrary: w c)
  case (Suc k)
  have "[0..<Suc k] = 0 # map Suc [0..<k]" by (simp add: map_Suc_upt upt_conv_Cons)
  then show ?case by (simp add: Suc.IH comp_def algebra_simps del: upt_Suc)
qed simp

text \<open>The launches of eight tiles: the sizes agree, and the weight and the offsets stay in range.\<close>

definition eight_tiles :: "GemmArgs \<Rightarrow> bool" where
  "eight_tiles a \<longleftrightarrow> ga_in_tile a = 8 \<and> uint (ga_in_w a) = 1024 \<and> uint (ga_out_w a) = 4096 * int (nat (ga_out_tile a))
     \<and> nat (ga_out_tile a) < 256 \<and> nat (ga_iter_cnt a) * nat (ga_out_tile a) \<le> 2 ^ 11
     \<and> nat (ga_iter_cnt a) * nat (sint (ga_in_h a)) * nat (ga_out_tile a) < 2 ^ 23"

lemma eight_tiles_step:
  assumes "eight_tiles a"
  shows "of_int (i32 (uint (ga_in_w a) * uint (ga_out_w a) * 2)) = (of_nat (nat (ga_out_tile a) * 8 * 2 ^ 20) :: u64)"
proof -
  have "uint (ga_in_w a) * uint (ga_out_w a) * 2 = int (nat (ga_out_tile a) * 8 * 2 ^ 20)"
    using assms unfolding eight_tiles_def by simp
  moreover have "nat (ga_out_tile a) * 8 * 2 ^ 20 < 2 ^ 31" using assms unfolding eight_tiles_def by simp
  then have "int (nat (ga_out_tile a) * 8 * 2 ^ 20) < int (2 ^ 31)" by (simp only: of_nat_less_iff)
  then have "i32_range (int (nat (ga_out_tile a) * 8 * 2 ^ 20))" unfolding i32_range_def by simp
  ultimately show ?thesis by (simp only: i32_id of_int_of_nat_eq)
qed

lemma ocl_tile_eight:
  assumes "eight_tiles a" "ch < 64" "tid < 16" "b < nat (ga_iter_cnt a)" "oi < nat (ga_out_tile a)" "i < 4" "bk < 2"
    "cnt = b * nat (sint (ga_in_h a)) + in_idx"
  shows "ocl_aligned_tile True rd a ch tid b in_idx oi bk i
    = grf_tile rd (ptr (ga_base a)) (ptr (ga_input a))
        (ptr (ga_weight a) + of_nat b * of_int (i32 (uint (ga_in_w a) * uint (ga_out_w a) * 2))) ch tid (of_nat bk)
        (of_nat (cnt * (8 * 8))) (oi * 8 div 2) (2 * i + bk)"
proof -
  let ?Y = "nat (ga_out_tile a)"
  let ?q = "(b * ?Y + oi) * 4 + i" and ?w = "ptr (ga_weight a) + of_nat b * of_nat (?Y * 8 * 2 ^ 20)"
  have t: "ga_in_tile a = 2 * int 4" "nat (ga_in_tile a) = 8" using assms(1) by (simp_all add: eight_tiles_def)
  have g: "gidx tid < 8" using assms(3) by (simp add: gidx_def)
  have "b * ?Y + oi < nat (ga_iter_cnt a) * ?Y" by (rule radix_bound [OF assms(4,5)])
  then have "b * ?Y + oi < 2 ^ 11" using assms(1) unfolding eight_tiles_def by linarith
  from radix_bound [OF this assms(6)] have q: "?q < 2 ^ 13" by simp
  have burst: "ocl_aligned_tile True rd a ch tid b in_idx oi bk i ! (3 + s)
      = R_CMD (?w + weight_addr ch (of_nat bk) (((2 * i + bk) div 2 + oi * 8 div 2) * 2 + s div 4) (s mod 4 * 8) tid)" if s: "s < 8" for s
  proof -
    have sg: "s * 8 + gidx tid < 64" using radix_bound [OF s g] by simp
    have n: "?q * (nat (ga_in_tile a) div 2 * 16) + (s * 8 + gidx tid) = b * ?Y * 8 * 32 + ((oi * 4 + i) * 64 + (s * 8 + gidx tid))"
      unfolding t(2) by (simp add: algebra_simps)
    have "?q * 64 + (s * 8 + gidx tid) < 2 ^ 13 * 64" by (rule radix_bound [OF q sg])
    then have "?q * (nat (ga_in_tile a) div 2 * 16) + (s * 8 + gidx tid) < 2 ^ 19" unfolding t(2) by simp
    then have p: "pos_addr ch bk (?q * (nat (ga_in_tile a) div 2 * 16) + (s * 8 + gidx tid))
        = of_nat (b * ?Y * 8 * 2 ^ 20) + pos_addr ch bk ((oi * 4 + i) * 64 + (s * 8 + gidx tid))"
      unfolding n by (intro pos_addr_rows assms(2,7))
    have lt: "?q * (4 * 512) + 512 < 2 ^ 32" using q by simp
    have k: "(2 * i + bk) div 2 = i" using assms(7) by simp
    have e: "oi * (2 * 4) div 2 = oi * 8 div 2" by simp
    have r: "weight_addr ch (of_nat bk) (((2 * i + bk) div 2 + oi * 8 div 2) * 2 + s div 4) (s mod 4 * 8) tid
        = pos_addr ch bk ((oi * 4 + i) * 64 + (s * 8 + gidx tid)) + offset tid"
      using burst_position [OF s g, where oi = oi and H = 4 and k = "2 * i + bk"] unfolding k e weight_addr_def pos_addr_def by simp
    have w: "of_nat b * of_nat (?Y * 8 * 2 ^ 20) = (of_nat (b * ?Y * 8 * 2 ^ 20) :: u64)" by simp
    show ?thesis unfolding ocl_tile_nth [OF t(1) assms(3) s lt] ocl_burst_def p r w by (simp only: add.assoc)
  qed
  have "tid = gidx tid * 2 + tid mod 2" unfolding gidx_def by (rule div_mult_mod_eq [symmetric])
  then have tid: "tid * 16 = gidx tid * 32 + tid mod 2 * 16" using arg_cong [of tid _ "\<lambda>t. t * 16"] by (simp only: add_mult_distrib mult.assoc arith_simps)
  have "(b * nat (sint (ga_in_h a)) * 8 + in_idx * 8 + i * 2 + bk) * 2 ^ 3 * 2 ^ 5 + tid * 16
      = (cnt * (8 * 8) + ((2 * i + bk) * 8 + gidx tid)) * 32 + tid mod 2 * 16"
    unfolding tid assms(8) by (simp add: algebra_simps)
  then have i: "of_nat ((b * nat (sint (ga_in_h a)) * 8 + in_idx * 8 + i * 2 + bk) * 2 ^ 3 * 2 ^ 5 + tid * 16)
      = input_addr (of_nat (cnt * (8 * 8))) (2 * i + bk) tid"
    by (simp only: input_addr_def offset_def push_bit_eq_mult) simp
  let ?L = "ocl_aligned_tile True rd a ch tid b in_idx oi bk i"
  have "?L = [W_CMD_R (ptr (ga_base a) + grf_addr ch (of_nat bk) tid) (rd (ptr (ga_input a) + input_addr (of_nat (cnt * (8 * 8))) (2 * i + bk) tid) 16),
        R_CMD (ptr (ga_base a) + grf_addr ch (of_nat bk) tid), B_CMD 1] @ map (\<lambda>s. ?L ! (3 + s)) [0..<8] @ [B_CMD 1]"
    unfolding i [symmetric] ocl_aligned_tile_def Let_def t(2) ocl_grf_addr [OF assms(3)]
    by (simp add: upt_rec nth_append)
  also have "map (\<lambda>s. ?L ! (3 + s)) [0..<8] = map (\<lambda>s. R_CMD (?w + weight_addr ch (of_nat bk)
      (((2 * i + bk) div 2 + oi * 8 div 2) * 2 + s div 4) (s mod 4 * 8) tid)) [0..<8]"
    by (rule map_cong [OF refl], rule burst) simp
  finally show ?thesis unfolding grf_tile_list eight_tiles_step [OF assms(1)] .
qed

lemma ocl_store_shift:
  assumes "eight_tiles a" "tid < 16" "b < nat (ga_iter_cnt a)" "in_idx < nat (sint (ga_in_h a))" "oi < nat (ga_out_tile a)"
    "cnt = b * nat (sint (ga_in_h a)) + in_idx"
  shows "ocl_aligned_store True a ch tid b in_idx oi
    = gemm_store (ptr (ga_tmp a + gidx tid)) ch (cnt * nat (ga_out_tile a) * 8 + oi * 8 + gidx tid) tid"
proof -
  let ?Y = "nat (ga_out_tile a)" and ?h = "nat (sint (ga_in_h a))"
  let ?x = "cnt * ?Y + oi"
  have g: "gidx tid < 16" using assms(2) by (simp add: gidx_def)
  have "cnt < nat (ga_iter_cnt a) * ?h" unfolding assms(6) by (rule radix_bound [OF assms(3,4)])
  then have "?x < nat (ga_iter_cnt a) * ?h * ?Y" by (rule radix_bound [OF _ assms(5)])
  then have x: "?x < 2 ^ 23" using assms(1) unfolding eight_tiles_def by linarith
  have o: "(b * ?h * ?Y + in_idx * ?Y + oi) * 2 ^ 3 * 2 ^ 5 + tid * 16 + gidx tid = ?x * 8 * 32 + tid * 16 + gidx tid"
    unfolding assms(6) by (simp add: add_mult_distrib)
  have "?x * 8 * 32 + tid * 16 + gidx tid < 2 ^ 32" using x assms(2) g by simp
  from ocl_addr_gen_s_pos [OF this, of 0 "?x * 8 + gidx tid" 0 ch 1, unfolded half_split [OF g]]
  have p: "ocl_addr_gen_s True (of_nat ch) 0 0 1 0 0 (of_nat (?x * 8 * 32 + tid * 16 + gidx tid))
      = pos_addr ch 1 (?x * 8 + gidx tid) + of_nat (tid mod 2 * 16 + gidx tid)" by simp
  have l: "cnt * ?Y * 8 + oi * 8 + gidx tid = ?x * 8 + gidx tid" by (simp add: add_mult_distrib)
  have "psum_addr ch (?x * 8 + gidx tid) tid = pos_addr ch 1 (?x * 8 + gidx tid) + offset tid"
    by (simp add: psum_addr_def pos_addr_def)
  then have "ptr (ga_tmp a) + ocl_addr_gen_s True (of_nat ch) 0 0 1 0 0 (of_nat (?x * 8 * 32 + tid * 16 + gidx tid))
      = ptr (ga_tmp a + gidx tid) + psum_addr ch (?x * 8 + gidx tid) tid"
    unfolding p by (simp add: offset_def)
  then show ?thesis unfolding ocl_aligned_store_def gemm_store_def Let_def o l by (simp only:)
qed

lemma ocl_pass_eight:
  assumes "eight_tiles a" "ch < 64" "tid < 16" "b < nat (ga_iter_cnt a)" "in_idx < nat (sint (ga_in_h a))" "oi < nat (ga_out_tile a)"
  shows "ocl_aligned_pass True rd a ch tid b in_idx oi
    = aligned_pass rd (a\<lparr>ga_tmp := ga_tmp a + gidx tid\<rparr>) (map (\<lambda>i. 2 * i) [0..<4]) (map (\<lambda>i. 1 + 2 * i) [0..<4]) ch tid
        (ptr (ga_weight a) + of_nat b * of_int (i32 (uint (ga_in_w a) * uint (ga_out_w a) * 2)))
        (0 + b * nat (sint (ga_in_h a)) + in_idx) oi"
proof -
  let ?cnt = "b * nat (sint (ga_in_h a)) + in_idx"
  have n: "nat (ga_in_tile a) = 8" using assms(1) by (simp add: eight_tiles_def)
  have two: "[0..<2] = [0, 1 :: nat]" by (simp add: upt_rec)
  have u: "ga_base (a\<lparr>ga_tmp := p\<rparr>) = ga_base a" "ga_input (a\<lparr>ga_tmp := p\<rparr>) = ga_input a" "ga_tmp (a\<lparr>ga_tmp := p\<rparr>) = p"
    "ga_in_tile (a\<lparr>ga_tmp := p\<rparr>) = ga_in_tile a" "ga_out_tile (a\<lparr>ga_tmp := p\<rparr>) = ga_out_tile a" for p by simp_all
  let ?g = "\<lambda>bank k. grf_tile rd (ptr (ga_base a)) (ptr (ga_input a))
        (ptr (ga_weight a) + of_nat b * of_int (i32 (uint (ga_in_w a) * uint (ga_out_w a) * 2))) ch tid bank
        (of_nat (?cnt * (8 * 8))) (oi * 8 div 2) k"
  have t: "map (ocl_aligned_tile True rd a ch tid b in_idx oi bk) [0..<4] = map (\<lambda>i. ?g (of_nat bk) (2 * i + bk)) [0..<4]" if "bk < 2" for bk
    using that by (intro map_cong refl ocl_tile_eight assms(1-4,6)) simp_all
  have t0: "map (ocl_aligned_tile True rd a ch tid b in_idx oi 0) [0..<4] = map (?g 0) (map (\<lambda>i. 2 * i) [0..<4])"
    and t1: "map (ocl_aligned_tile True rd a ch tid b in_idx oi 1) [0..<4] = map (?g 1) (map (\<lambda>i. 1 + 2 * i) [0..<4])"
    using t [of 0] t [of 1] by (simp_all add: comp_def add.commute)
  have "8 div 2 = (4 :: nat)" by simp
  then show ?thesis
    unfolding ocl_aligned_pass_def aligned_pass_def gemm_pass_def Let_def u two n
      ocl_store_shift [OF assms(1,3-6) refl] ocl_steps_emulator
    by (simp only: list.map concat.simps t0 t1 append_Nil2 append_assoc add_0)
qed

lemma concat_map_cong: "(\<And>x. x \<in> set xs \<Longrightarrow> f x = g x) \<Longrightarrow> concat (map f xs) = concat (map g xs)"
  by (rule arg_cong [where f = concat], rule map_cong [OF refl])

text \<open>C14: for eight input tiles both executors launch kernels that issue the same commands in an emulator build, except where the
  partial sums go: thread pair \<open>g\<close> of the OpenCL kernel stores them \<open>g\<close> bytes above the place where the reduction looks for them.
\<close>

theorem ocl_eight_tiles_shifted:
  assumes "eight_tiles a" "bid < 64"
  shows "thread_code (ocl_pim_aligned_gemm_8tile_code True rd a bid) tid
    = thread_code (pim_aligned_gemm_8tile_code rd (a\<lparr>ga_tmp := ga_tmp a + gidx tid\<rparr>) bid) tid"
proof -
  let ?a = "a\<lparr>ga_tmp := ga_tmp a + gidx tid\<rparr>"
  let ?e = "map (\<lambda>i. 2 * i) [0..<4]" and ?o = "map (\<lambda>i. 1 + 2 * i) [0..<4]"
  have u: "ga_weight ?a = ga_weight a" "ga_in_w ?a = ga_in_w a" "ga_out_w ?a = ga_out_w a" "ga_in_h ?a = ga_in_h a"
    "ga_out_tile ?a = ga_out_tile a" "ga_iter_cnt ?a = ga_iter_cnt a" by simp_all
  have c: "ocl_aligned_compute True rd a bid tid = aligned_compute rd ?a ?e ?o bid tid" if "tid < 16"
    unfolding ocl_aligned_compute_def aligned_compute_def aligned_iters_nest u
    by (intro concat_map_cong ocl_pass_eight [OF assms that]) simp_all
  have "gemm_frame rd ?a bid f = gemm_frame rd a bid f" for f by (simp add: gemm_frame_def)
  then show ?thesis
    unfolding ocl_pim_aligned_gemm_8tile_code_def pim_aligned_gemm_8tile_code_def ocl_gemm_frame_emulator
    by (simp only:) (rule gemm_frame_cong, rule c)
qed

lemma ocl_eight_tiles_shifted_witness:
  "thread_code (ocl_pim_aligned_gemm_8tile_code True (\<lambda>_ n. replicate n 0) gemm_example 5) 9
    = thread_code (pim_aligned_gemm_8tile_code (\<lambda>_ n. replicate n 0) (gemm_example\<lparr>ga_tmp := ga_tmp gemm_example + gidx 9\<rparr>) 5) 9"
  by (rule ocl_eight_tiles_shifted) (simp_all add: eight_tiles_def gemm_example_def)

end
