(* ===== verification/Spec2Isabelle.thy ===== *)
theory Spec2Isabelle
  imports AddrMap HipLayout SessionDrain KernelProps OclKernels
begin

text \<open>
  A verification library for the runtime of the PIM library (\<open>src/runtime\<close>), the device kernels it launches
  (\<open>src/runtime/include/executor\<close>) and its CRF tools (\<open>src/tools/crfcodegen\<close>, \<open>src/tools/crfdecoder\<close>).

  The program. A client calls the C API (\<open>pim_runtime_api.cpp\<close>), which keeps one \<open>PimRuntime\<close> object.
  The runtime owns a memory manager (the singleton \<open>PimManager\<close> in front of a HIP or an OpenCL manager)
  and an executor (HIP or OpenCL). A memory manager hands out PIM memory from one \<open>SimpleHeap\<close> per device, which
  cuts it from the blocks of a block allocator, and reorders matrix weights into the layout of the DRAM banks.
  An executor generates the microprogram of an operation (a CRF image of 64 bytes), uploads it, and launches
  a device kernel; in an emulator build the kernel records its memory accesses, which the emulator coalesces and
  replays in a DRAM simulator.

  How to read the theories, in the order of their imports:

  \<^item> \<open>PimPrelude\<close>: machine integers, C division, fallible array access, the collections \<open>cint_simps\<close> and
    \<open>bits_simps\<close>. \<open>FloatRound\<close>: the single-precision ceilings of size computations. \<open>SortedMap\<close>:
    \<open>std::map\<close> as a sorted association list.
  \<^item> \<open>PimTypes\<close>: \<open>pim_data_types.h\<close>, \<open>PimInfo.h\<close>. \<open>AddrMap\<close>: \<open>addr_gen\<close> and its relatives of \<open>pim_util.h\<close>; that a
    coordinate can be read back from its address.
  \<^item> \<open>CommandCodec\<close>: \<open>PimCommand.cpp\<close>; \<open>CrfBin\<close>: \<open>PimCrfBinGen.cpp\<close>; \<open>IsaCheck\<close>: the offline checker and
    converter; \<open>ProgramCheck\<close>: the programs of the generator under the checker. The lemmas give round trips of the
    codec and of the image, the structure of a program, and which programs the checker accepts.
  \<^item> \<open>HeapAlloc\<close>, \<open>HeapRegions\<close>: \<open>simple_heap.hpp\<close> over the locale \<open>block_source\<close> of a block
    allocator; \<open>BlockAlloc\<close>: the two allocators, which interpret it. \<open>heap_reach\<close> is the step relation
    of a heap; its invariant says that fragments tile the blocks and the free list agrees with them.
    The abstract state of a heap is the map of the regions in use.
  \<^item> \<open>ShapeUtil\<close>: \<open>pim_util.cpp\<close>, padding, alignment, transposition. \<open>WeightLayout\<close>: the loop nests and index
    functions that reorder weights, as lists of copies; that these are permutations into the buffer and
    where host and device agree.
  \<^item> \<open>MemManager\<close>: the interface \<open>IPimMemoryManager\<close> as a record of operations, with its contract as the locale
    \<open>memory_manager\<close>. \<open>HipMemory\<close>, \<open>HipLayout\<close>, \<open>OclMemory\<close>: the two managers, each an
    interpretation of the contract; \<open>PimManager\<close>: singleton and dispatch, where the contract of
    the pair follows from those of the managers.
  \<^item> \<open>RuntimeCore\<close>, \<open>RuntimeApi\<close>: \<open>PimRuntime.cpp\<close> and \<open>pim_runtime_api.cpp\<close>, in the option monad over the
    state \<open>Pim\<close> (globals, manager, store of buffer objects). \<open>None\<close> is undefined behaviour of the source or a
    loop that does not return; error codes are ordinary results. \<open>Api_Call\<close> with its step function is the client's view.
  \<^item> \<open>TraceCoalesce\<close>, \<open>TraceConvert\<close>, \<open>PimEmulator\<close>: the emulator. The abstract trace is a list of barriers and
    32-byte lines; the coalescer joins halves of a line (\<open>squash\<close>), and the conversion moves the blocks together.
  \<^item> \<open>Launch\<close>: a kernel launch as a value. \<open>ExecBase\<close>, \<open>HipExec\<close>, \<open>OclExec\<close>, \<open>PimExec\<close>: the executors, the
    factory and the virtual calls.
  \<^item> \<open>KernelBase\<close>: the device commands (\<open>pim_op_kernels.pimk\<close>), their recording in an emulator build, and the steps
    that change the mode of the memory and load a program. A kernel is the list of its phases between barriers; a
    block of threads may run the threads of a phase in any order (\<open>is_schedule\<close>), and the lemmas on recorded traces
    hold for every such order. \<open>EltKernels\<close>: the element-wise kernels, whose tiles, threads and channels reach every
    unit of the operand exactly once. \<open>GemmKernels\<close>: the kernels of the matrix product and their final reduction; the
    specialised variants agree with the general ones, the weight is read where the host layout put it, and the
    sixteen partial sums of an output are the ones added. \<open>KernelLoad\<close>: the code of a launch; every kernel
    loads the program the generator made for its operation. \<open>KernelProps\<close>: up to which sizes
    the recorded traces can be converted. \<open>OclKernels\<close>: the OpenCL kernels, with their own address functions, and where
    they issue the commands of the HIP kernels: the element-wise and channel-wise kernels do, the aligned kernel differs.
  \<^item> \<open>DemoWorld\<close>: a concrete environment, on which the instances of the properties are evaluated.
    \<open>BufferSession\<close>, \<open>SessionDrain\<close>, \<open>RuntimeProps\<close>, \<open>ObjectStore\<close>, \<open>ExecProps\<close>: the properties that span
    components: sessions of buffer objects, the life cycle of the library (\<open>pim_reach\<close>), the cache of
    converted weights, the caller's objects across a matrix product, and launches against programs.

  Parameters. Code outside \<open>src\<close> is an argument of the definitions that call it: the HIP and OpenCL calls
  (records of operations over an abstract state), the driver's memory map, the DRAM simulator, the
  compiler of OpenCL programs, half-precision arithmetic. What a property needs of one is a named hypothesis
  or a law of a locale (an allocation is fresh, a release succeeds for what was allocated, a copy
  writes its range only), and a witness instantiates it with concrete functions.

  Bounds and fuel. Loops are structural recursions or functions with a measure. The one loop that may not end, the
  search for the key of a weight, is a \<open>partial_function\<close>, and its property says for which sizes it returns.
  Machine integers keep their width (\<open>u8\<close>, \<open>u32\<close>, \<open>u64\<close>, or the C \<open>int\<close> with its conversion written
  out); in the kernels an index expression whose overflow would be undefined has its mathematical value. Addresses
  of objects are natural numbers. No fuel is used.

  Not modelled: logging, profiling and debug dumps; the reading of the GPU topology (files and ioctls of the driver);
  the driver of the external kernel compiler; vendored headers, examples, tests and benchmarks. Of the
  device kernels: the assembly that issues the commands in a build for the target, where nothing is recorded; the
  reduction of the OpenCL kernels, which no build enables; the GEMV kernels (\<open>pim_gemv_kernels.pimk\<close>), which no
  executor launches, and the custom GPU kernels, which are adapted from a vendored library. The per-channel work of a kernel is the trace of its
  block: what the memory computes from the commands is outside the repository. A division by zero of a kernel
  (\<open>chs_per_op\<close>) is the result \<open>None\<close>. Half-precision values are 16-bit words whose arithmetic is a parameter.
\<close>

end
